(* ===== verification/Prelude.thy ===== *)
theory Prelude
  imports Main "HOL-Library.Word"
begin

text \<open>
  Shared vocabulary of the development: the names of the model's basic types, the collections
  the component theories add their rules to, and generic facts about lists, maps and association
  lists that more than one component uses.

  C++ types and their models: \<open>std::string\<close> is \<open>string\<close> (a list of 8-bit characters),
  \<open>base::Time\<close>, \<open>base::TimeTicks\<close> and \<open>base::TimeDelta\<close> are \<open>int\<close> in microseconds (the null time is
  0, as in \<open>base::Time()\<close>), \<open>int\<close> used as an index is \<open>int\<close>, \<open>size_t\<close> counts are \<open>nat\<close>, and an
  integer whose width matters is a word or an \<open>int\<close> with its bounds written out.
\<close>

named_theorems inv_intros \<open>preservation of the component invariants\<close>
named_theorems model_defs \<open>definitions a component's proofs unfold together\<close>

type_synonym time = int
type_synonym uid = string
type_synonym wc_id = nat

text \<open>The extreme values of \<open>int64_t\<close> (\<open>std::numeric_limits\<close>).\<close>

definition int64_min :: int where "int64_min = - (2 ^ 63)"
definition int64_max :: int where "int64_max = 2 ^ 63 - 1"

text \<open>
  A URL as the code sees it: Chromium's \<open>GURL\<close> is not part of the repository, so its parser is
  a parameter wherever the code parses, and a parsed URL is the record of what the code asks of
  it (\<open>is_valid\<close>, \<open>spec\<close>, \<open>SchemeIs\<close>, \<open>host\<close>, \<open>IsAboutBlank\<close>).
\<close>

record gurl =
  url_valid :: bool
  url_spec :: string
  url_scheme :: string
  url_host :: string
  url_about_blank :: bool

definition url_is_empty :: "gurl \<Rightarrow> bool" where
  "url_is_empty u \<longleftrightarrow> url_spec u = []"

text \<open>Lists: the part of a list at its end, and lists without equal neighbours.\<close>

definition last_n :: "nat \<Rightarrow> 'a list \<Rightarrow> 'a list" where
  "last_n n xs = drop (length xs - n) xs"

lemma length_last_n [simp]: "length (last_n n xs) = min n (length xs)"
  by (simp add: last_n_def)

lemma last_n_all [simp]: "length xs \<le> n \<Longrightarrow> last_n n xs = xs"
  by (simp add: last_n_def)

lemma set_last_n: "set (last_n n xs) \<subseteq> set xs"
  by (simp add: last_n_def set_drop_subset)

lemma map_last_n: "map f (last_n n xs) = last_n n (map f xs)"
  by (simp add: last_n_def drop_map)

lemma last_n_snoc: "0 < n \<Longrightarrow> last_n n (xs @ [x]) = last_n (n - 1) xs @ [x]"
  by (cases n) (auto simp: last_n_def Suc_diff_le)

lemma last_n_last_n_append: "last_n n (last_n n xs @ ys) = last_n n (xs @ ys)"
  by (cases "n \<le> length xs") (auto simp: last_n_def add.commute)

definition no_stutter :: "'a list \<Rightarrow> bool" where
  "no_stutter xs \<longleftrightarrow> distinct_adj xs"

definition snoc_coalesced :: "'a list \<Rightarrow> 'a \<Rightarrow> 'a list" where
  "snoc_coalesced xs x = (if xs \<noteq> [] \<and> last xs = x then xs else xs @ [x])"

lemma no_stutter_snoc [simp]: "no_stutter xs \<Longrightarrow> no_stutter (snoc_coalesced xs x)"
  by (auto simp: no_stutter_def snoc_coalesced_def distinct_adj_append_iff)

lemma no_stutter_Nil [simp]: "no_stutter []"
  by (simp add: no_stutter_def)

lemma last_snoc_coalesced [simp]: "last (snoc_coalesced xs x) = x"
  by (auto simp: snoc_coalesced_def)

lemma snoc_coalesced_not_Nil [simp]: "snoc_coalesced xs x \<noteq> []"
  by (auto simp: snoc_coalesced_def)

lemma set_snoc_coalesced [simp]: "set (snoc_coalesced xs x) = insert x (set xs)"
  by (auto simp: snoc_coalesced_def)

text \<open>
  Association lists kept in insertion order: update in place, else append. Chromium's
  \<open>flat_map\<close> and \<open>std::map\<close> are modelled as maps where the order is not observed; where the code
  iterates, the list of entries is explicit.
\<close>

lemma dom_fun_upd_None: "dom (m(k := None)) = dom m - {k}"
  by auto

lemma ran_fun_upd_None: "ran (m(k := None)) \<subseteq> ran m"
  by (auto simp: ran_def split: if_splits)

lemma map_filter_append_list: "List.map_filter f (xs @ ys) = List.map_filter f xs @ List.map_filter f ys"
  by (simp add: List.map_filter_def)

lemma map_filter_snoc:
  "List.map_filter f (xs @ [x]) = List.map_filter f xs @ (case f x of None \<Rightarrow> [] | Some y \<Rightarrow> [y])"
  by (simp add: map_filter_append_list map_filter_simps split: option.split)

text \<open>\<open>base::StartsWith\<close>.\<close>

definition starts_with :: "string \<Rightarrow> string \<Rightarrow> bool" where
  "starts_with s pre \<longleftrightarrow> take (length pre) s = pre"

end
