(* ===== verification/Traversal.thy ===== *)
theory Traversal
  imports Prelude
begin

text \<open>
  The frozen most-recently-used walk of \<open>roamux/browser/tab_visit/tab_traversal_controller.cc\<close>:
  the derived order (\<open>DeriveMruOrder\<close>), the pre-gesture test (\<open>CanBeginBackTraversal\<close>) and the class
  \<open>TabTraversalController\<close> with its fields \<open>frozen_order_\<close>, \<open>landable_\<close>, \<open>cursor_\<close>, \<open>active_\<close>.
  A method that changes the object takes and returns the record. The flat set \<open>reachable\<close> is a
  set. \<open>cursor_\<close> is an \<open>int\<close> with -1 as the helpers' "none", as in the code.
\<close>

type_synonym tab_identity = uid

fun mru_scan :: "tab_identity set \<Rightarrow> tab_identity list \<Rightarrow> tab_identity list \<Rightarrow> tab_identity list" where
  "mru_scan seen mru [] = mru"
| "mru_scan seen mru (x # xs) =
     (if x \<in> seen then mru_scan seen mru xs else mru_scan (insert x seen) (mru @ [x]) xs)"

definition DeriveMruOrder :: "tab_identity list \<Rightarrow> tab_identity list" where
  "DeriveMruOrder journal_oldest_first = mru_scan {} [] (rev journal_oldest_first)"

definition CanBeginBackTraversal :: "tab_identity list \<Rightarrow> tab_identity set \<Rightarrow> bool" where
  "CanBeginBackTraversal journal_oldest_first reachable =
     (let mru = DeriveMruOrder journal_oldest_first
      in list_ex (\<lambda>i. mru ! i \<in> reachable) [1..<length mru])"

record controller =
  frozen_order :: "tab_identity list"
  landable :: "bool list"
  cursor :: int
  active :: bool

definition new_controller :: controller where
  "new_controller = \<lparr>frozen_order = [], landable = [], cursor = 0, active = False\<rparr>"

definition BeginGesture ::
  "tab_identity list \<Rightarrow> tab_identity set \<Rightarrow> controller \<Rightarrow> controller" where
  "BeginGesture journal_oldest_first reachable c =
     (if active c then c
      else let order = DeriveMruOrder journal_oldest_first
           in c\<lparr>frozen_order := order,
                landable := map (\<lambda>u. u \<in> reachable) order,
                cursor := 0,
                active := True\<rparr>)"

function scan_up :: "bool list \<Rightarrow> int \<Rightarrow> int" where
  "scan_up l j = (if j < int (length l) then (if l ! nat j then j else scan_up l (j + 1)) else -1)"
  by pat_completeness auto
termination
  by (relation "measure (\<lambda>(l, j). nat (int (length l) - j))") auto

function scan_down :: "bool list \<Rightarrow> int \<Rightarrow> int" where
  "scan_down l j = (if j \<ge> 0 then (if l ! nat j then j else scan_down l (j - 1)) else -1)"
  by pat_completeness auto
termination
  by (relation "measure (\<lambda>(l, j). nat (j + 1))") auto

declare scan_up.simps [simp del] scan_down.simps [simp del]

definition NextLandableAfter :: "controller \<Rightarrow> int \<Rightarrow> int" where
  "NextLandableAfter c index = scan_up (landable c) (index + 1)"

definition PrevLandableBefore :: "controller \<Rightarrow> int \<Rightarrow> int" where
  "PrevLandableBefore c index = scan_down (landable c) (index - 1)"

definition CanGoBack :: "controller \<Rightarrow> bool" where
  "CanGoBack c \<longleftrightarrow> NextLandableAfter c (cursor c) \<noteq> -1"

definition CanGoForward :: "controller \<Rightarrow> bool" where
  "CanGoForward c \<longleftrightarrow> PrevLandableBefore c (cursor c) \<noteq> -1"

definition Back :: "controller \<Rightarrow> tab_identity option \<times> controller" where
  "Back c = (let j = NextLandableAfter c (cursor c)
             in if j = -1 then (None, c)
                else (Some (frozen_order c ! nat j), c\<lparr>cursor := j\<rparr>))"

definition Forward :: "controller \<Rightarrow> tab_identity option \<times> controller" where
  "Forward c = (let j = PrevLandableBefore c (cursor c)
                in if j = -1 then (None, c)
                   else (Some (frozen_order c ! nat j), c\<lparr>cursor := j\<rparr>))"

definition Current :: "controller \<Rightarrow> tab_identity option" where
  "Current c =
     (if frozen_order c = [] \<or> cursor c < 0 \<or> cursor c \<ge> int (length (frozen_order c)) \<or>
         \<not> landable c ! nat (cursor c)
      then None else Some (frozen_order c ! nat (cursor c)))"

definition ctl_Settle :: "controller \<Rightarrow> tab_identity option \<times> controller" where
  "ctl_Settle c =
     (Current c, c\<lparr>frozen_order := [], landable := [], cursor := 0, active := False\<rparr>)"

subsection \<open>The derived order\<close>

lemma remdups_snoc: "remdups (xs @ [x]) = remdups (filter (\<lambda>y. y \<noteq> x) xs) @ [x]"
  by (induction xs) auto

lemma mru_scan_eq:
  "mru_scan (set mru) mru xs = mru @ rev (remdups (rev (filter (\<lambda>x. x \<notin> set mru) xs)))"
proof (induction xs arbitrary: mru)
  case Nil
  then show ?case by simp
next
  case (Cons x xs)
  show ?case
  proof (cases "x \<in> set mru")
    case True
    then show ?thesis using Cons by simp
  next
    case False
    have "mru_scan (set mru) mru (x # xs) = mru_scan (set (mru @ [x])) (mru @ [x]) xs"
      using False by simp
    also have "\<dots> = (mru @ [x]) @ rev (remdups (rev (filter (\<lambda>y. y \<notin> set (mru @ [x])) xs)))"
      by (rule Cons.IH)
    finally show ?thesis
      using False by (simp add: remdups_snoc rev_filter conj_commute)
  qed
qed

lemma DeriveMruOrder_eq: "DeriveMruOrder j = rev (remdups j)"
  using mru_scan_eq [of "[]" "rev j"] by (simp add: DeriveMruOrder_def)

lemma distinct_DeriveMruOrder [simp]: "distinct (DeriveMruOrder j)"
  and set_DeriveMruOrder [simp]: "set (DeriveMruOrder j) = set j"
  by (simp_all add: DeriveMruOrder_eq)

lemma DeriveMruOrder_Nil_iff [simp]: "DeriveMruOrder j = [] \<longleftrightarrow> j = []"
  by (simp add: DeriveMruOrder_eq)

lemma hd_DeriveMruOrder: "j \<noteq> [] \<Longrightarrow> hd (DeriveMruOrder j) = last j"
  by (induction j) (auto simp: DeriveMruOrder_eq hd_append)

lemma tl_DeriveMruOrder: "j \<noteq> [] \<Longrightarrow> set (tl (DeriveMruOrder j)) = set j - {last j}"
  by (metis distinct_DeriveMruOrder set_DeriveMruOrder hd_DeriveMruOrder list.collapse
      DeriveMruOrder_Nil_iff distinct.simps(2) list.set(2) Diff_insert_absorb)

subsection \<open>The two scans\<close>

lemma scan_up_none: "0 \<le> j \<Longrightarrow> scan_up l j = -1 \<longleftrightarrow> True \<notin> set (drop (nat j) l)"
proof (induction l j rule: scan_up.induct)
  case (1 l j)
  then show ?case
    by (cases "j < int (length l)")
       (auto simp: scan_up.simps [of l j] nat_add_distrib Cons_nth_drop_Suc [symmetric])
qed

lemma scan_up_some:
  "0 \<le> j \<Longrightarrow> scan_up l j = k \<Longrightarrow> k \<noteq> -1 \<Longrightarrow>
     j \<le> k \<and> k < int (length l) \<and> l ! nat k \<and> (\<forall>i. j \<le> i \<and> i < k \<longrightarrow> \<not> l ! nat i)"
proof (induction l j rule: scan_up.induct)
  case (1 l j)
  then show ?case
    by (cases "j < int (length l)"; cases "l ! nat j")
       (auto simp: scan_up.simps [of l j], metis order_le_imp_less_or_eq zle_add1_eq_le
         add.commute zless_imp_add1_zle)
qed

lemma scan_down_none: "j < int (length l) \<Longrightarrow> scan_down l j = -1 \<longleftrightarrow> (\<forall>i. 0 \<le> i \<and> i \<le> j \<longrightarrow> \<not> l ! nat i)"
proof (induction l j rule: scan_down.induct)
  case (1 l j)
  show ?case
  proof (cases "j \<ge> 0 \<and> \<not> l ! nat j")
    case True
    with 1 have IH: "scan_down l (j - 1) = -1 \<longleftrightarrow> (\<forall>i. 0 \<le> i \<and> i \<le> j - 1 \<longrightarrow> \<not> l ! nat i)"
      by simp
    from True have "(\<forall>i. 0 \<le> i \<and> i \<le> j \<longrightarrow> \<not> l ! nat i) \<longleftrightarrow> (\<forall>i. 0 \<le> i \<and> i \<le> j - 1 \<longrightarrow> \<not> l ! nat i)"
      by (metis dual_order.order_iff_strict zle_diff1_eq)
    with IH True show ?thesis by (simp add: scan_down.simps [of l j])
  next
    case False
    then show ?thesis by (auto simp: scan_down.simps [of l j])
  qed
qed

lemma scan_down_hit:
  "0 \<le> k \<Longrightarrow> k \<le> j \<Longrightarrow> l ! nat k \<Longrightarrow> \<forall>i. k < i \<and> i \<le> j \<longrightarrow> \<not> l ! nat i \<Longrightarrow> scan_down l j = k"
proof (induction l j rule: scan_down.induct)
  case (1 l j)
  show ?case
  proof (cases "k = j")
    case True
    with 1 show ?thesis by (simp add: scan_down.simps [of l j])
  next
    case False
    with 1 show ?thesis by (simp add: scan_down.simps [of l j])
  qed
qed

lemma scan_down_some:
  "scan_down l j = k \<Longrightarrow> k \<noteq> -1 \<Longrightarrow>
     0 \<le> k \<and> k \<le> j \<and> l ! nat k \<and> (\<forall>i. k < i \<and> i \<le> j \<longrightarrow> \<not> l ! nat i)"
proof (induction l j rule: scan_down.induct)
  case (1 l j)
  show ?case
  proof (cases "j \<ge> 0 \<and> \<not> l ! nat j")
    case True
    with 1 have "0 \<le> k \<and> k \<le> j - 1 \<and> l ! nat k \<and> (\<forall>i. k < i \<and> i \<le> j - 1 \<longrightarrow> \<not> l ! nat i)"
      by (simp add: scan_down.simps [of l j])
    with True show ?thesis by (metis dual_order.order_iff_strict zle_diff1_eq)
  next
    case False
    with 1 show ?thesis by (auto simp: scan_down.simps [of l j] split: if_splits)
  qed
qed

lemma scan_up_hit:
  "0 \<le> j \<Longrightarrow> j \<le> k \<Longrightarrow> k < int (length l) \<Longrightarrow> l ! nat k \<Longrightarrow>
     \<forall>i. j \<le> i \<and> i < k \<longrightarrow> \<not> l ! nat i \<Longrightarrow> scan_up l j = k"
proof (induction l j rule: scan_up.induct)
  case (1 l j)
  show ?case
  proof (cases "k = j")
    case True
    with 1 show ?thesis by (simp add: scan_up.simps [of l j])
  next
    case False
    with 1 show ?thesis by (simp add: scan_up.simps [of l j])
  qed
qed

text \<open>What the walk can still land on, from an index on: the landable identities, in MRU order.\<close>

definition landings_from :: "controller \<Rightarrow> int \<Rightarrow> tab_identity list" where
  "landings_from c j = map fst (filter snd (drop (nat j) (zip (frozen_order c) (landable c))))"

lemma scan_up_zip:
  assumes "0 \<le> j" and "length xs = length l"
  shows "filter snd (drop (nat j) (zip xs l)) =
    (if scan_up l j = -1 then []
     else (xs ! nat (scan_up l j), True) # filter snd (drop (nat (scan_up l j + 1)) (zip xs l)))"
  using assms
proof (induction l j rule: scan_up.induct)
  case (1 l j)
  show ?case
  proof (cases "j < int (length l)")
    case True
    then have "drop (nat j) (zip xs l) = (xs ! nat j, l ! nat j) # drop (nat (j + 1)) (zip xs l)"
      using 1 by (simp add: nat_add_distrib Cons_nth_drop_Suc [symmetric])
    with True 1 show ?thesis by (auto simp: scan_up.simps [of l j])
  next
    case False
    then show ?thesis using 1 by (simp add: scan_up.simps [of l j])
  qed
qed

subsection \<open>The controller's invariant\<close>

text \<open>
  \<open>landable_\<close> is parallel to \<open>frozen_order_\<close>, whose identities are distinct; the cursor is the
  origin 0 or a landable index; and an idle controller is the freshly constructed one.
\<close>

definition ctl_inv :: "controller \<Rightarrow> bool" where
  "ctl_inv c \<longleftrightarrow>
     length (landable c) = length (frozen_order c) \<and> distinct (frozen_order c) \<and>
     (cursor c = 0 \<or> 0 < cursor c \<and> cursor c < int (length (frozen_order c)) \<and>
        landable c ! nat (cursor c)) \<and>
     (\<not> active c \<longrightarrow> frozen_order c = [] \<and> cursor c = 0)"

lemma ctl_inv_new [inv_intros]: "ctl_inv new_controller"
  by (simp add: ctl_inv_def new_controller_def)

lemma ctl_inv_BeginGesture [inv_intros]: "ctl_inv c \<Longrightarrow> ctl_inv (BeginGesture j R c)"
  by (simp add: ctl_inv_def BeginGesture_def Let_def)

lemma Back_cases:
  assumes "ctl_inv c"
  obtains (stuck) "Back c = (None, c)" "\<not> CanGoBack c" "landings_from c (cursor c + 1) = []"
  | (lands) k where "Back c = (Some (frozen_order c ! nat k), c\<lparr>cursor := k\<rparr>)" "CanGoBack c"
      "cursor c < k" "k < int (length (frozen_order c))" "landable c ! nat k"
      "\<forall>i. cursor c < i \<and> i < k \<longrightarrow> \<not> landable c ! nat i"
      "landings_from c (cursor c + 1) = frozen_order c ! nat k # landings_from c (k + 1)"
proof (cases "scan_up (landable c) (cursor c + 1) = -1")
  case True
  then show ?thesis
    using assms scan_up_zip [of "cursor c + 1" "frozen_order c" "landable c"]
    by (intro stuck)
       (auto simp: Back_def CanGoBack_def NextLandableAfter_def ctl_inv_def landings_from_def)
next
  case False
  let ?k = "scan_up (landable c) (cursor c + 1)"
  have j: "0 \<le> cursor c + 1" and len: "length (frozen_order c) = length (landable c)"
    using assms by (auto simp: ctl_inv_def)
  note k = scan_up_some [OF j refl False]
  show ?thesis
    by (rule lands [of ?k]) (use False k len scan_up_zip [OF j len] in
        \<open>auto simp: Back_def CanGoBack_def NextLandableAfter_def landings_from_def Let_def\<close>)
qed

lemma Forward_cases:
  assumes "ctl_inv c"
  obtains (stuck) "Forward c = (None, c)" "\<not> CanGoForward c"
      "\<forall>i. 0 \<le> i \<and> i < cursor c \<longrightarrow> \<not> landable c ! nat i"
  | (lands) k where "Forward c = (Some (frozen_order c ! nat k), c\<lparr>cursor := k\<rparr>)" "CanGoForward c"
      "0 \<le> k" "k < cursor c" "cursor c < int (length (frozen_order c))" "landable c ! nat k"
      "landable c ! nat (cursor c)" "\<forall>i. k < i \<and> i < cursor c \<longrightarrow> \<not> landable c ! nat i"
proof (cases "scan_down (landable c) (cursor c - 1) = -1")
  case True
  moreover have "cursor c - 1 < int (length (landable c))"
    using assms by (auto simp: ctl_inv_def)
  ultimately show ?thesis
    using scan_down_none [of "cursor c - 1" "landable c"]
    by (intro stuck) (auto simp: Forward_def CanGoForward_def PrevLandableBefore_def)
next
  case False
  let ?k = "scan_down (landable c) (cursor c - 1)"
  note k = scan_down_some [OF refl False]
  then have "0 < cursor c" by linarith
  then show ?thesis
    using assms k False
    by (intro lands [of ?k])
       (auto simp: Forward_def CanGoForward_def PrevLandableBefore_def ctl_inv_def Let_def)
qed

lemma ctl_inv_Back [inv_intros]: "ctl_inv c \<Longrightarrow> ctl_inv (snd (Back c))"
  by (rule Back_cases, assumption) (auto simp: ctl_inv_def)

lemma ctl_inv_Forward [inv_intros]: "ctl_inv c \<Longrightarrow> ctl_inv (snd (Forward c))"
  by (rule Forward_cases, assumption) (auto simp: ctl_inv_def)

lemma ctl_inv_Settle [inv_intros]: "ctl_inv (snd (ctl_Settle c))"
  by (simp add: ctl_inv_def ctl_Settle_def)

lemma Back_frame [simp]:
  "frozen_order (snd (Back c)) = frozen_order c" "landable (snd (Back c)) = landable c"
  "active (snd (Back c)) = active c"
  by (simp_all add: Back_def Let_def)

lemma Forward_frame [simp]:
  "frozen_order (snd (Forward c)) = frozen_order c" "landable (snd (Forward c)) = landable c"
  "active (snd (Forward c)) = active c"
  by (simp_all add: Forward_def Let_def)

lemma Current_at_landable:
  "0 \<le> k \<Longrightarrow> k < int (length (frozen_order c)) \<Longrightarrow> landable c ! nat k \<Longrightarrow>
     Current (c\<lparr>cursor := k\<rparr>) = Some (frozen_order c ! nat k)"
  by (auto simp: Current_def)

lemma Current_in_order: "Current c = Some u \<Longrightarrow> u \<in> set (frozen_order c)"
  by (auto simp: Current_def split: if_splits)

lemma ctl_cursor_nonneg: "ctl_inv c \<Longrightarrow> 0 \<le> cursor c"
  by (auto simp: ctl_inv_def)

lemma Back_current: "ctl_inv c \<Longrightarrow> Back c = (Some u, c') \<Longrightarrow> Current c' = Some u"
  by (frule ctl_cursor_nonneg, rule Back_cases, assumption) (auto simp: Current_at_landable)

lemma Forward_current: "ctl_inv c \<Longrightarrow> Forward c = (Some u, c') \<Longrightarrow> Current c' = Some u"
  by (rule Forward_cases, assumption) (auto simp: Current_at_landable)

lemma Back_None: "Back c = (None, c') \<Longrightarrow> c' = c"
  and Forward_None: "Forward c = (None, c') \<Longrightarrow> c' = c"
  by (auto simp: Back_def Forward_def Let_def split: if_splits)

lemma CanGoBack_iff: "CanGoBack c \<longleftrightarrow> fst (Back c) \<noteq> None"
  and CanGoForward_iff: "CanGoForward c \<longleftrightarrow> fst (Forward c) \<noteq> None"
  by (auto simp: Back_def Forward_def CanGoBack_def CanGoForward_def Let_def)

subsection \<open>Any walk over a frozen order\<close>

text \<open>
  What the session that drives a walk relies on: steps keep the order and the invariant, a step
  that lands is on the current tab of that order, a step that does not land changes nothing, and
  a step is undone by the opposite step.
\<close>

datatype direction = ToOlder | ToNewer

fun walk_steps :: "('c \<Rightarrow> 'u option \<times> 'c) \<Rightarrow> ('c \<Rightarrow> 'u option \<times> 'c) \<Rightarrow> direction list \<Rightarrow> 'c \<Rightarrow> 'c" where
  "walk_steps older newer [] c = c"
| "walk_steps older newer (ToOlder # ds) c = walk_steps older newer ds (snd (older c))"
| "walk_steps older newer (ToNewer # ds) c = walk_steps older newer ds (snd (newer c))"

locale frozen_walk =
  fixes walk_inv :: "'c \<Rightarrow> bool"
    and older newer :: "'c \<Rightarrow> 'u option \<times> 'c"
    and here :: "'c \<Rightarrow> 'u option"
    and order :: "'c \<Rightarrow> 'u list"
  assumes inv_older: "walk_inv c \<Longrightarrow> walk_inv (snd (older c))"
    and inv_newer: "walk_inv c \<Longrightarrow> walk_inv (snd (newer c))"
    and order_older: "order (snd (older c)) = order c"
    and order_newer: "order (snd (newer c)) = order c"
    and older_lands: "walk_inv c \<Longrightarrow> older c = (Some u, c') \<Longrightarrow> here c' = Some u"
    and newer_lands: "walk_inv c \<Longrightarrow> newer c = (Some u, c') \<Longrightarrow> here c' = Some u"
    and older_stuck: "older c = (None, c') \<Longrightarrow> c' = c"
    and newer_stuck: "newer c = (None, c') \<Longrightarrow> c' = c"
    and here_in_order: "here c = Some u \<Longrightarrow> u \<in> set (order c)"
    and newer_older: "walk_inv c \<Longrightarrow> here c = Some u \<Longrightarrow> older c = (Some v, c') \<Longrightarrow> newer c' = (Some u, c)"
    and older_newer: "walk_inv c \<Longrightarrow> here c = Some u \<Longrightarrow> newer c = (Some v, c') \<Longrightarrow> older c' = (Some u, c)"
begin

lemma steps_inv: "walk_inv c \<Longrightarrow> walk_inv (walk_steps older newer ds c)"
proof (induction ds arbitrary: c)
  case (Cons d ds)
  then show ?case by (cases d) (auto intro: inv_older inv_newer)
qed simp

lemma steps_order: "order (walk_steps older newer ds c) = order c"
proof (induction ds arbitrary: c)
  case (Cons d ds)
  then show ?case by (cases d) (auto simp: order_older order_newer)
qed simp

lemma older_in_order:
  assumes "walk_inv c" and "older c = (Some u, c')"
  shows "u \<in> set (order c)"
  using here_in_order [OF older_lands [OF assms]] order_older [of c] assms(2) by simp

lemma newer_in_order:
  assumes "walk_inv c" and "newer c = (Some u, c')"
  shows "u \<in> set (order c)"
  using here_in_order [OF newer_lands [OF assms]] order_newer [of c] assms(2) by simp

text \<open>A step and its opposite always come back, whichever came first.\<close>

lemma older_bounce:
  assumes "walk_inv c" "here c = Some u"
  shows "fst (older c) \<noteq> None \<Longrightarrow> walk_steps older newer [ToOlder, ToNewer] c = c"
  using newer_older [OF assms] by (cases "older c") auto

lemma newer_bounce:
  assumes "walk_inv c" "here c = Some u"
  shows "fst (newer c) \<noteq> None \<Longrightarrow> walk_steps older newer [ToNewer, ToOlder] c = c"
  using older_newer [OF assms] by (cases "newer c") auto

end

lemma Forward_after_Back:
  assumes "ctl_inv c" "Back c = (Some u, c')"
  shows "Forward c' = (case Current c of Some v \<Rightarrow> (Some v, c) | None \<Rightarrow> (None, c'))"
  using assms(1)
proof (cases rule: Back_cases)
  case stuck
  with assms show ?thesis by simp
next
  case (lands k)
  then have c': "c' = c\<lparr>cursor := k\<rparr>" using assms by simp
  have ctl: "0 \<le> cursor c" "cursor c < int (length (frozen_order c))"
    "length (landable c) = length (frozen_order c)"
    using lands ctl_cursor_nonneg [OF assms(1)] assms(1) by (auto simp: ctl_inv_def)
  show ?thesis
  proof (cases "landable c ! nat (cursor c)")
    case True
    then have "scan_down (landable c) (k - 1) = cursor c"
      using lands ctl by (intro scan_down_hit) auto
    with True ctl show ?thesis
      by (auto simp: c' Forward_def PrevLandableBefore_def Current_def)
  next
    case False
    then have "cursor c = 0" using assms(1) by (auto simp: ctl_inv_def)
    have "\<not> landable c ! nat i" if "0 \<le> i" "i \<le> k - 1" for i
    proof (cases "i = 0")
      case True
      then show ?thesis using False \<open>cursor c = 0\<close> by simp
    next
      case False
      then show ?thesis using lands(6) \<open>cursor c = 0\<close> that by auto
    qed
    then have "scan_down (landable c) (k - 1) = -1"
      using lands(4) ctl by (subst scan_down_none) auto
    with False show ?thesis
      by (auto simp: c' Forward_def PrevLandableBefore_def Current_def)
  qed
qed

lemma Back_after_Forward:
  assumes "ctl_inv c" "Forward c = (Some u, c')"
  shows "Back c' = (Current c, c)"
  using assms(1)
proof (cases rule: Forward_cases)
  case stuck
  with assms show ?thesis by simp
next
  case (lands k)
  then have c': "c' = c\<lparr>cursor := k\<rparr>" using assms by simp
  have "scan_up (landable c) (k + 1) = cursor c"
    using lands assms(1) by (intro scan_up_hit) (auto simp: ctl_inv_def)
  then show ?thesis
    using lands by (auto simp: c' Back_def NextLandableAfter_def Current_def)
qed

interpretation ctl: frozen_walk ctl_inv Back Forward Current frozen_order
proof unfold_locales
  fix c u v c'
  assume inv: "ctl_inv c" and here: "Current c = Some u"
  show "Forward c' = (Some u, c)" if "Back c = (Some v, c')"
    using Forward_after_Back [OF inv that] here by simp
  show "Back c' = (Some u, c)" if "Forward c = (Some v, c')"
    using Back_after_Forward [OF inv that] here by simp
qed (auto intro: inv_intros Back_current Forward_current Current_in_order dest: Back_None Forward_None)

subsection \<open>Properties\<close>

text \<open>A run of Back presses: the identities landed on, until a press that does not land.\<close>

fun back_presses :: "nat \<Rightarrow> controller \<Rightarrow> tab_identity list \<times> controller" where
  "back_presses 0 c = ([], c)"
| "back_presses (Suc n) c =
     (case Back c of
        (None, c') \<Rightarrow> ([], c')
      | (Some u, c') \<Rightarrow> (let (us, c'') = back_presses n c' in (u # us, c'')))"

lemma back_presses_landings: "ctl_inv c \<Longrightarrow> fst (back_presses n c) = take n (landings_from c (cursor c + 1))"
proof (induction n arbitrary: c)
  case 0
  then show ?case by simp
next
  case (Suc n)
  from Suc.prems show ?case
  proof (cases rule: Back_cases)
    case stuck
    then show ?thesis by simp
  next
    case (lands k)
    have "ctl_inv (snd (Back c))" by (rule ctl_inv_Back [OF Suc.prems])
    from Suc.IH [OF this] lands show ?thesis
      by (cases "back_presses n (c\<lparr>cursor := k\<rparr>)") (simp add: landings_from_def)
  qed
qed

lemma landings_from_BeginGesture:
  "\<not> active c \<Longrightarrow> landings_from (BeginGesture j R c) 1 = filter (\<lambda>u. u \<in> R) (tl (DeriveMruOrder j))"
proof -
  have all: "map fst (filter snd (zip xs (map (\<lambda>u. u \<in> R) xs))) = filter (\<lambda>u. u \<in> R) xs" for xs
    by (induction xs) auto
  have "map fst (filter snd (drop 1 (zip xs (map (\<lambda>u. u \<in> R) xs)))) = filter (\<lambda>u. u \<in> R) (tl xs)" for xs
    using all [of "tl xs"] by (cases xs) auto
  then show "\<not> active c \<Longrightarrow> ?thesis"
    by (simp add: landings_from_def BeginGesture_def Let_def)
qed

text \<open>
  The derived most-recently-used order is the reversed journal without all but the latest
  occurrence of every identity: distinct, complete, and headed by the journal's tail.
\<close>

theorem DeriveMruOrder_latest_first: "DeriveMruOrder j = rev (remdups j)"
  by (rule DeriveMruOrder_eq)

text \<open>
  Pressing Back n times from the start of a gesture lands, in most-recently-used order, on
  exactly the first n reachable identities older than the anchor (the journal's tail): the anchor
  is never a landing and no unreachable identity is.
\<close>

theorem back_presses_from_gesture:
  "fst (back_presses n (BeginGesture j R new_controller)) =
     take n (filter (\<lambda>u. u \<in> R) (tl (rev (remdups j))))"
proof -
  let ?c = "BeginGesture j R new_controller"
  have "cursor ?c = 0"
    by (simp add: BeginGesture_def new_controller_def Let_def)
  then show ?thesis
    using back_presses_landings [OF ctl_inv_BeginGesture [OF ctl_inv_new], of n j R]
      landings_from_BeginGesture [of new_controller j R]
    by (simp add: DeriveMruOrder_eq new_controller_def)
qed

text \<open>
  C21: While a gesture rests on a landable tab, Forward exactly inverts Back and Back exactly inverts
  Forward: whenever the first step of the pair lands, the pair restores the whole controller.
\<close>

theorem Back_Forward_inverse:
  assumes "ctl_inv c" "Current c = Some u"
  shows "(CanGoBack c \<longrightarrow> walk_steps Back Forward [ToOlder, ToNewer] c = c) \<and>
         (CanGoForward c \<longrightarrow> walk_steps Back Forward [ToNewer, ToOlder] c = c)"
  using ctl.older_bounce [OF assms] ctl.newer_bounce [OF assms]
  by (simp add: CanGoBack_iff CanGoForward_iff)

definition demo_gesture :: controller where
  "demo_gesture = snd (Back (BeginGesture [''a'', ''b'', ''c'', ''b''] {''a'', ''c''} new_controller))"

lemma demo_gesture_eq:
  "demo_gesture = \<lparr>frozen_order = [''b'', ''c'', ''a''], landable = [False, True, True],
                   cursor = 1, active = True\<rparr>"
  by (simp add: demo_gesture_def BeginGesture_def new_controller_def DeriveMruOrder_eq Back_def
      NextLandableAfter_def scan_up.simps)

theorem Back_Forward_inverse_witness:
  "ctl_inv demo_gesture \<and> Current demo_gesture = Some ''c'' \<and> CanGoBack demo_gesture \<and>
   walk_steps Back Forward [ToOlder, ToNewer] demo_gesture = demo_gesture"
proof -
  have inv: "ctl_inv demo_gesture"
    by (simp add: demo_gesture_def inv_intros)
  have cur: "Current demo_gesture = Some ''c''" and can: "CanGoBack demo_gesture"
    by (simp_all add: demo_gesture_eq Current_def CanGoBack_def NextLandableAfter_def scan_up.simps)
  show ?thesis
    using Back_Forward_inverse [OF inv cur] inv cur can by blast
qed

lemma list_ex_upt:
  "list_ex (\<lambda>i. xs ! i \<in> R) [Suc 0..<length xs] \<longleftrightarrow> filter (\<lambda>u. u \<in> R) (tl xs) \<noteq> []"
proof -
  have tl: "tl xs = map ((!) xs) [Suc 0..<length xs]"
    by (rule nth_equalityI) (auto simp: nth_tl)
  show ?thesis
    unfolding tl by (simp add: list_ex_iff filter_empty_conv)
qed

lemma CanBeginBackTraversal_filter:
  "CanBeginBackTraversal j R \<longleftrightarrow> filter (\<lambda>u. u \<in> R) (tl (DeriveMruOrder j)) \<noteq> []"
  by (simp add: CanBeginBackTraversal_def Let_def list_ex_upt)

lemma CanGoBack_landings: "ctl_inv c \<Longrightarrow> CanGoBack c \<longleftrightarrow> landings_from c (cursor c + 1) \<noteq> []"
  by (rule Back_cases, assumption) auto

text \<open>
  The pre-gesture test is exact: Back is offered before a gesture iff the first Back of the
  gesture that would start from the same journal and the same reachable tabs lands.
\<close>

theorem CanBeginBackTraversal_exact:
  "CanBeginBackTraversal j R \<longleftrightarrow> CanGoBack (BeginGesture j R new_controller)"
proof -
  have "cursor (BeginGesture j R new_controller) = 0"
    by (simp add: BeginGesture_def new_controller_def Let_def)
  then show ?thesis
    using CanGoBack_landings [OF ctl_inv_BeginGesture [OF ctl_inv_new], of j R]
      landings_from_BeginGesture [of new_controller j R]
    by (simp add: CanBeginBackTraversal_filter new_controller_def)
qed

lemma BeginGesture_can_back:
  assumes "\<not> active c" "CanBeginBackTraversal j R"
  shows "CanGoBack (BeginGesture j R c)"
  using assms CanBeginBackTraversal_exact [of j R]
  by (simp add: CanGoBack_def NextLandableAfter_def BeginGesture_def new_controller_def Let_def)

end
