(* ===== verification/Visits_Store.thy ===== *)
theory Visits_Store
  imports Prelude "HOL-Library.Char_ord" "HOL-Library.List_Lexorder"
begin

text \<open>
  The settled-visit journal's SQLite store, \<open>roamux/browser/tab_visit/visits_store.cc\<close> and \<open>.h\<close>, and
  the URL gate of \<open>visit_url_filter.cc\<close>.

  A database is its tables: \<open>visits\<close> (rows, in insertion order; \<open>next_id\<close> is the AUTOINCREMENT
  sequence), \<open>tab_state\<close> (keyed by \<open>restore_key\<close>) and the meta table's version numbers, with what
  the migration asks of the schema. A statement on a table or column that does not exist fails. Each SQL statement of the source is the list operation it
  denotes. SQLite itself can refuse any statement, so every operation takes the outcome of each
  step as a Boolean (a SELECT on an existing table is taken to succeed); \<open>sql::Transaction\<close> rolls back
  unless it commits.
\<close>

record VisitRow =
  vr_id :: int
  vr_tab_uid :: uid
  vr_url :: string
  vr_visited_at :: time

record TabStateRow =
  restore_key :: string
  ts_closed :: bool
  window_id :: int
  last_known_url :: string

definition kMaxVisits :: nat where "kMaxVisits = 999"
definition kCurrentVersion :: int where "kCurrentVersion = 3"
definition kCompatibleVersion :: int where "kCompatibleVersion = 1"

text \<open>
  \<open>meta\<close> is the (version, compatible version) pair once the meta table exists; \<open>visits_cols\<close> is None
  while the \<open>visits\<close> table does not exist and says whether it has the \<open>tab_uid\<close> column otherwise.
\<close>

record journal_db =
  meta :: "(int \<times> int) option"
  visits_cols :: "bool option"
  has_tab_state :: bool
  visits :: "VisitRow list"
  next_id :: int
  tab_state :: "TabStateRow list"

definition empty_db :: journal_db where
  "empty_db = \<lparr>meta = None, visits_cols = None, has_tab_state = False,
               visits = [], next_id = 1, tab_state = []\<rparr>"

text \<open>The store: the open database, or None while \<open>db_.is_open()\<close> is false.\<close>

type_synonym visits_store = "journal_db option"

definition ToStorage :: "time \<Rightarrow> int" where "ToStorage t = t"
definition FromStorage :: "int \<Rightarrow> time" where "FromStorage v = v"

definition time_is_null :: "time \<Rightarrow> bool" where "time_is_null t \<longleftrightarrow> t = 0"
definition time_is_max :: "time \<Rightarrow> bool" where "time_is_max t \<longleftrightarrow> t = int64_max"

subsection \<open>Opening and migrating\<close>

record init_outcomes =
  meta_init_ok :: bool
  create_visits_ok :: bool
  create_tab_state_ok :: bool
  migrate_begin_ok :: bool
  alter_ok :: bool
  set_version_ok :: bool
  migrate_commit_ok :: bool

definition all_init_ok :: init_outcomes where
  "all_init_ok = \<lparr>meta_init_ok = True, create_visits_ok = True, create_tab_state_ok = True,
     migrate_begin_ok = True, alter_ok = True, set_version_ok = True, migrate_commit_ok = True\<rparr>"

text \<open>\<open>sql::MetaTable::Init\<close> writes the version pair only into a database that has none.\<close>

definition meta_Init :: "journal_db \<Rightarrow> journal_db" where
  "meta_Init db = (case meta db of
     None \<Rightarrow> db\<lparr>meta := Some (kCurrentVersion, kCompatibleVersion)\<rparr> | Some _ \<Rightarrow> db)"

definition create_visits :: "journal_db \<Rightarrow> journal_db" where
  "create_visits db = (case visits_cols db of None \<Rightarrow> db\<lparr>visits_cols := Some True\<rparr> | Some _ \<Rightarrow> db)"

definition migrate_v3 :: "init_outcomes \<Rightarrow> journal_db \<Rightarrow> bool \<times> journal_db" where
  "migrate_v3 e db =
     (case meta db of
        None \<Rightarrow> (False, db)
      | Some (ver, cv) \<Rightarrow>
          if \<not> ver < kCurrentVersion then (True, db)
          else if \<not> migrate_begin_ok e then (False, db)
          else let altered = (if visits_cols db \<noteq> Some True then db\<lparr>visits_cols := Some True\<rparr> else db)
               in if visits_cols db \<noteq> Some True \<and> \<not> alter_ok e then (False, db)
                  else if \<not> set_version_ok e \<or> \<not> migrate_commit_ok e then (False, db)
                  else (True, altered\<lparr>meta := Some (kCurrentVersion, cv)\<rparr>))"

definition InitSchema :: "init_outcomes \<Rightarrow> journal_db \<Rightarrow> bool \<times> journal_db" where
  "InitSchema e db0 =
     (if \<not> meta_init_ok e then (False, db0)
      else let db1 = meta_Init db0
           in if snd (the (meta db1)) > kCurrentVersion then (False, db1)
              else if \<not> create_visits_ok e then (False, db1)
              else let db2 = create_visits db1
                   in if \<not> create_tab_state_ok e then (False, db2)
                      else migrate_v3 e (db2\<lparr>has_tab_state := True\<rparr>))"

text \<open>
  \<open>Open\<close>: the file at \<open>db_path\<close> (its database, or None for no file), whether each \<open>sql::Database::Open\<close>
  succeeds, whether \<open>base::DeleteFile\<close> removed the file (its result is ignored), and the outcomes of
  the two schema runs. The second run is on the recreated file.
\<close>

definition Open ::
  "bool \<Rightarrow> init_outcomes \<Rightarrow> bool \<Rightarrow> bool \<Rightarrow> init_outcomes \<Rightarrow> journal_db option \<Rightarrow> bool \<times> visits_store" where
  "Open open1 e1 deleted open2 e2 file =
     (let db = (case file of None \<Rightarrow> empty_db | Some d \<Rightarrow> d);
          (ok, db') = (if open1 then InitSchema e1 db else (False, db))
      in if ok then (True, Some db')
         else let file' = (if deleted then empty_db else db')
              in if \<not> open2 then (False, None)
                 else (let (ok2, db2) = InitSchema e2 file' in (ok2, Some db2)))"

definition OpenInMemory :: "bool \<Rightarrow> init_outcomes \<Rightarrow> bool \<times> visits_store" where
  "OpenInMemory open1 e =
     (if \<not> open1 then (False, None)
      else (let (ok, fresh) = InitSchema e empty_db in (ok, Some fresh)))"

subsection \<open>The statements\<close>

record txn_outcomes =
  begin_ok :: bool
  first_ok :: bool
  second_ok :: bool
  commit_ok :: bool

definition all_ok :: txn_outcomes where
  "all_ok = \<lparr>begin_ok = True, first_ok = True, second_ok = True, commit_ok = True\<rparr>"

definition txn_ok :: "txn_outcomes \<Rightarrow> bool" where
  "txn_ok f \<longleftrightarrow> begin_ok f \<and> first_ok f \<and> second_ok f \<and> commit_ok f"

text \<open>\<open>INSERT OR REPLACE\<close>: the row with the same primary key goes, the new row is added.\<close>

definition UpsertTabState :: "bool \<Rightarrow> TabStateRow \<Rightarrow> visits_store \<Rightarrow> visits_store" where
  "UpsertTabState ok row st =
     (case st of
        None \<Rightarrow> None
      | Some db \<Rightarrow>
          if ok \<and> has_tab_state db
          then Some (db\<lparr>tab_state := filter (\<lambda>r. restore_key r \<noteq> restore_key row) (tab_state db) @ [row]\<rparr>)
          else Some db)"

definition GetTabState :: "string \<Rightarrow> visits_store \<Rightarrow> TabStateRow option" where
  "GetTabState key st =
     (case st of None \<Rightarrow> None 
     | Some db \<Rightarrow> if has_tab_state db then List.find (\<lambda>r. restore_key r = key) (tab_state db) else None)"

definition ReadTabStates :: "visits_store \<Rightarrow> TabStateRow list" where
  "ReadTabStates st = (case st of None \<Rightarrow> [] 
     | Some db \<Rightarrow> if has_tab_state db then sort_key restore_key (tab_state db) else [])"

text \<open>\<open>DELETE FROM visits WHERE id NOT IN (SELECT id FROM visits ORDER BY id DESC LIMIT n)\<close>.\<close>

definition trim_visits :: "nat \<Rightarrow> VisitRow list \<Rightarrow> VisitRow list" where
  "trim_visits n rows =
     (let keep = take n (rev (sort (map vr_id rows))) in filter (\<lambda>r. vr_id r \<in> set keep) rows)"

definition Append :: "txn_outcomes \<Rightarrow> uid \<Rightarrow> string \<Rightarrow> time \<Rightarrow> visits_store \<Rightarrow> visits_store" where
  "Append f tab_uid url visited_at st =
     (case st of
        None \<Rightarrow> None
      | Some db \<Rightarrow>
          if \<not> begin_ok f then Some db
          else if \<not> (first_ok f \<and> visits_cols db = Some True) then Some db
          else let row = \<lparr>vr_id = next_id db, vr_tab_uid = tab_uid, vr_url = url,
                          vr_visited_at = ToStorage visited_at\<rparr>;
                   inserted = visits db @ [row]
               in if \<not> second_ok f then Some db
                  else if \<not> commit_ok f then Some db
                  else Some (db\<lparr>visits := trim_visits kMaxVisits inserted, next_id := next_id db + 1\<rparr>))"

definition ReadAll :: "visits_store \<Rightarrow> VisitRow list" where
  "ReadAll st = (case st of None \<Rightarrow> []
     | Some db \<Rightarrow>
         if visits_cols db = Some True
         then map (\<lambda>r. r\<lparr>vr_visited_at := FromStorage (vr_visited_at r)\<rparr>) (sort_key vr_id (visits db))
         else [])"

definition RowCount :: "visits_store \<Rightarrow> nat" where
  "RowCount st = (case st of None \<Rightarrow> 0
     | Some db \<Rightarrow> if visits_cols db = None then 0 else length (visits db))"

definition clear_lower :: "time \<Rightarrow> int" where
  "clear_lower t = (if time_is_null t then int64_min else ToStorage t)"

definition clear_upper :: "time \<Rightarrow> int" where
  "clear_upper t = (if time_is_max t then int64_max else ToStorage t)"

definition ClearForBrowsingDataRemoval :: "txn_outcomes \<Rightarrow> time \<Rightarrow> time \<Rightarrow> visits_store \<Rightarrow> visits_store" where
  "ClearForBrowsingDataRemoval f begin_t end_t st =
     (case st of
        None \<Rightarrow> None
      | Some db \<Rightarrow>
          if \<not> begin_ok f then Some db
          else let kept = filter (\<lambda>r. \<not> (vr_visited_at r \<ge> clear_lower begin_t \<and>
                                          vr_visited_at r < clear_upper end_t)) (visits db);
                   referenced = filter (\<lambda>u. u \<noteq> []) (map vr_tab_uid kept);
                   states = filter (\<lambda>s. \<not> (ts_closed s \<and> restore_key s \<notin> set referenced)) (tab_state db)
               in if \<not> (first_ok f \<and> visits_cols db \<noteq> None) then Some db
                  else if \<not> (second_ok f \<and> has_tab_state db \<and> visits_cols db = Some True) then Some db
                  else if \<not> commit_ok f then Some db
                  else Some (db\<lparr>visits := kept, tab_state := states\<rparr>))"

definition IsRecordableVisitUrl :: "gurl \<Rightarrow> bool" where
  "IsRecordableVisitUrl url =
     (if url_is_empty url \<or> \<not> url_valid url \<or> url_about_blank url then False
      else if url_scheme url = ''chrome-search'' then False
      else if url_scheme url = ''chrome'' \<and>
              (url_host url = ''newtab'' \<or> url_host url = ''new-tab-page'' \<or>
               url_host url = ''new-tab-page-third-party'') then False
      else True)"

subsection \<open>Trimming\<close>

definition store_inv :: "journal_db \<Rightarrow> bool" where
  "store_inv db \<longleftrightarrow>
     sorted_wrt (<) (map vr_id (visits db)) \<and>
     (\<forall>r \<in> set (visits db). vr_id r < next_id db) \<and>
     length (visits db) \<le> kMaxVisits \<and>
     distinct (map restore_key (tab_state db))"

definition schema_ready :: "journal_db \<Rightarrow> bool" where
  "schema_ready db \<longleftrightarrow> visits_cols db = Some True \<and> has_tab_state db"

lemma store_invI [inv_intros]:
  "sorted_wrt (<) (map vr_id (visits db)) \<Longrightarrow> (\<And>r. r \<in> set (visits db) \<Longrightarrow> vr_id r < next_id db) \<Longrightarrow>
   length (visits db) \<le> kMaxVisits \<Longrightarrow> distinct (map restore_key (tab_state db)) \<Longrightarrow> store_inv db"
  by (simp add: store_inv_def)

lemma strict_sorted_distinct: "sorted_wrt (<) (xs :: int list) \<Longrightarrow> distinct xs"
  by (induction xs) auto

lemma strict_sorted_sorted: "sorted_wrt (<) (xs :: int list) \<Longrightarrow> sorted xs"
  by (induction xs) auto

lemma take_rev_last_n: "take n (rev xs) = rev (last_n n xs)"
  by (simp add: last_n_def take_rev)

lemma filter_in_drop:
  "distinct (map g rows) \<Longrightarrow> filter (\<lambda>r. g r \<in> set (drop k (map g rows))) rows = drop k rows"
proof (induction rows arbitrary: k)
  case Nil
  then show ?case by simp
next
  case (Cons r rows)
  show ?case
  proof (cases k)
    case 0
    then show ?thesis by (simp add: filter_id_conv)
  next
    case (Suc j)
    have "g r \<notin> set (drop j (map g rows))"
      using Cons.prems in_set_dropD by fastforce
    then show ?thesis using Suc Cons by simp
  qed
qed

lemma trim_visits_eq:
  assumes "sorted_wrt (<) (map vr_id rows)"
  shows "trim_visits n rows = last_n n rows"
proof -
  have srt: "sort (map vr_id rows) = map vr_id rows"
    using assms by (simp add: sort_key_id_if_sorted strict_sorted_sorted)
  show ?thesis
    using filter_in_drop [OF strict_sorted_distinct [OF assms], of "length rows - n"]
    by (simp add: trim_visits_def Let_def take_rev_last_n srt last_n_def)
qed

lemma sort_key_id_sorted: "sorted_wrt (<) (map vr_id rows) \<Longrightarrow> sort_key vr_id rows = rows"
  by (simp add: sort_key_id_if_sorted strict_sorted_sorted)

lemma sorted_wrt_last_n: "sorted_wrt P xs \<Longrightarrow> sorted_wrt P (last_n n xs)"
  by (simp add: last_n_def sorted_wrt_drop)

lemma ids_snoc:
  "store_inv db \<Longrightarrow> vr_id r = next_id db \<Longrightarrow> sorted_wrt (<) (map vr_id (visits db @ [r]))"
  by (auto simp: store_inv_def sorted_wrt_append)

subsection \<open>Appends: the newest 999 visits\<close>

definition payload :: "VisitRow \<Rightarrow> uid \<times> string \<times> time" where
  "payload r = (vr_tab_uid r, vr_url r, vr_visited_at r)"

definition visit_log :: "visits_store \<Rightarrow> (uid \<times> string \<times> time) list" where
  "visit_log st = map payload (ReadAll st)"

definition store_ok :: "visits_store \<Rightarrow> bool" where
  "store_ok st \<longleftrightarrow> (\<exists>db. st = Some db \<and> store_inv db \<and> schema_ready db)"

lemma store_okE: "store_ok st \<Longrightarrow> (\<And>db. st = Some db \<Longrightarrow> store_inv db \<Longrightarrow> schema_ready db \<Longrightarrow> P) \<Longrightarrow> P"
  by (auto simp: store_ok_def)

lemma visit_log_Some: "store_inv db \<Longrightarrow> schema_ready db \<Longrightarrow> visit_log (Some db) = map payload (visits db)"
  by (simp add: visit_log_def ReadAll_def schema_ready_def sort_key_id_sorted store_inv_def
      FromStorage_def)

lemma Append_rejected: "\<not> txn_ok f \<Longrightarrow> Append f u url t st = st"
  by (auto simp: Append_def txn_ok_def Let_def split: option.split)

lemma Append_stored:
  assumes "store_inv db" "schema_ready db" "txn_ok f"
  shows "Append f u url t (Some db) =
     Some (db\<lparr>visits := last_n kMaxVisits (visits db @
                 [\<lparr>vr_id = next_id db, vr_tab_uid = u, vr_url = url, vr_visited_at = t\<rparr>]),
              next_id := next_id db + 1\<rparr>)"
  using assms trim_visits_eq [OF ids_snoc [OF assms(1)]]
  by (simp add: Append_def txn_ok_def schema_ready_def ToStorage_def Let_def)

lemma Append_inv [inv_intros]: "store_ok st \<Longrightarrow> store_ok (Append f u url t st)"
proof (erule store_okE)
  fix db assume st: "st = Some db" and inv: "store_inv db" and rdy: "schema_ready db"
  show "store_ok (Append f u url t st)"
  proof (cases "txn_ok f")
    case False
    then show ?thesis using st inv rdy by (simp add: Append_rejected store_ok_def)
  next
    case True
    let ?row = "\<lparr>vr_id = next_id db, vr_tab_uid = u, vr_url = url, vr_visited_at = t\<rparr>"
    have "sorted_wrt (<) (map vr_id (last_n kMaxVisits (visits db @ [?row])))"
      unfolding map_last_n by (intro sorted_wrt_last_n ids_snoc [OF inv]) simp
    moreover have "\<forall>r \<in> set (last_n kMaxVisits (visits db @ [?row])). vr_id r < next_id db + 1"
      using inv set_last_n [of kMaxVisits "visits db @ [?row]"] by (fastforce simp: store_inv_def)
    ultimately show ?thesis
      using inv rdy by (simp add: st Append_stored True store_ok_def store_inv_def schema_ready_def)
  qed
qed

lemma Append_log: "store_ok st \<Longrightarrow> txn_ok f \<Longrightarrow>
   visit_log (Append f u url t st) = last_n kMaxVisits (visit_log st @ [(u, url, t)])"
proof (erule store_okE)
  fix db assume a: "st = Some db" "store_inv db" "schema_ready db" "txn_ok f"
  from a have "store_ok (Append f u url t st)"
    by (intro Append_inv) (simp add: store_ok_def)
  with a show ?thesis
    by (simp add: Append_stored visit_log_Some store_ok_def map_last_n payload_def)
qed

text \<open>The bounded log: what a client of an append-and-trim store may rely on.\<close>

locale bounded_log =
  fixes log_of :: "'s \<Rightarrow> 'v list" and app :: "'v \<Rightarrow> 's \<Rightarrow> 's" and cap :: nat and inv :: "'s \<Rightarrow> bool"
  assumes app_log: "inv s \<Longrightarrow> log_of (app v s) = last_n cap (log_of s @ [v])"
    and app_inv: "inv s \<Longrightarrow> inv (app v s)"
    and log_cap: "inv s \<Longrightarrow> length (log_of s) \<le> cap"
begin

lemma fold_inv: "inv s \<Longrightarrow> inv (fold app vs s)"
  by (induction vs arbitrary: s) (simp_all add: app_inv)

lemma fold_log: "inv s \<Longrightarrow> log_of (fold app vs s) = last_n cap (log_of s @ vs)"
  by (induction vs arbitrary: s) (simp_all add: app_inv app_log log_cap last_n_last_n_append)

lemma order_kept: "inv s \<Longrightarrow> \<exists>dropped. dropped @ log_of (fold app vs s) = log_of s @ vs"
  by (simp only: fold_log last_n_def) (rule exI, rule append_take_drop_id)

end

definition append_visit :: "uid \<times> string \<times> time \<Rightarrow> visits_store \<Rightarrow> visits_store" where
  "append_visit v st = Append all_ok (fst v) (fst (snd v)) (snd (snd v)) st"

lemma visit_log_cap: "store_ok st \<Longrightarrow> length (visit_log st) \<le> kMaxVisits"
  by (erule store_okE) (simp add: visit_log_Some store_inv_def)

interpretation vlog: bounded_log visit_log append_visit kMaxVisits store_ok
  by unfold_locales
     (auto simp: append_visit_def Append_log Append_inv visit_log_cap all_ok_def txn_ok_def)

lemma Append_txn_ok: "txn_ok f \<Longrightarrow> Append f u url t st = append_visit (u, url, t) st"
  by (cases st) (simp_all add: append_visit_def Append_def txn_ok_def all_ok_def)

type_synonym append_call = "txn_outcomes \<times> uid \<times> string \<times> time"

fun do_append :: "append_call \<Rightarrow> visits_store \<Rightarrow> visits_store" where
  "do_append (f, u, url, t) st = Append f u url t st"

lemma fold_do_append:
  "fold do_append calls st = fold append_visit (map snd (filter (txn_ok \<circ> fst) calls)) st"
proof (induction calls arbitrary: st)
  case (Cons c calls)
  obtain f u url t where "c = (f, u, url, t)" by (cases c)
  then show ?case using Cons by (cases "txn_ok f") (simp_all add: Append_txn_ok Append_rejected)
qed simp

text \<open>
  C1: the journal is exactly the newest 999 committed visits. Whatever appends run against a store
  that opened in memory, in whatever order and with SQLite refusing any step of any of them, the
  log read back is the last \<open>kMaxVisits\<close> of the visits whose transaction committed, in order.
\<close>

theorem journal_is_newest_visits:
  "visit_log (fold do_append calls (snd (OpenInMemory True all_init_ok))) =
     last_n kMaxVisits (map snd (filter (txn_ok \<circ> fst) calls))"
proof -
  have "store_ok (snd (OpenInMemory True all_init_ok))"
    and "visit_log (snd (OpenInMemory True all_init_ok)) = []"
    by (auto simp: OpenInMemory_def InitSchema_def all_init_ok_def meta_Init_def empty_db_def
        create_visits_def migrate_v3_def kCurrentVersion_def kCompatibleVersion_def store_ok_def
        store_inv_def schema_ready_def visit_log_def ReadAll_def)
  then show ?thesis by (simp add: fold_do_append vlog.fold_log)
qed

subsection \<open>Clearing browsing data\<close>

definition in_range :: "time \<Rightarrow> time \<Rightarrow> VisitRow \<Rightarrow> bool" where
  "in_range begin_t end_t r \<longleftrightarrow>
     clear_lower begin_t \<le> vr_visited_at r \<and> vr_visited_at r < clear_upper end_t"

lemma Clear_rejected: "\<not> txn_ok f \<Longrightarrow> ClearForBrowsingDataRemoval f b e st = st"
  by (auto simp: ClearForBrowsingDataRemoval_def txn_ok_def Let_def split: option.split)

lemma Clear_stored:
  assumes "schema_ready db" "txn_ok f"
  shows "ClearForBrowsingDataRemoval f b e (Some db) =
     (let kept = filter (\<lambda>r. \<not> in_range b e r) (visits db)
      in Some (db\<lparr>visits := kept,
           tab_state := filter (\<lambda>s. ts_closed s \<longrightarrow>
               restore_key s \<in> vr_tab_uid ` set kept \<and> restore_key s \<noteq> []) (tab_state db)\<rparr>))"
  using assms
  by (auto simp: ClearForBrowsingDataRemoval_def txn_ok_def schema_ready_def in_range_def Let_def
      intro!: filter_cong)

lemma Clear_inv [inv_intros]: "store_ok st \<Longrightarrow> store_ok (ClearForBrowsingDataRemoval f b e st)"
proof (erule store_okE)
  fix db assume a: "st = Some db" "store_inv db" "schema_ready db"
  show "store_ok (ClearForBrowsingDataRemoval f b e st)"
  proof (cases "txn_ok f")
    case True
    show ?thesis
      using a True
      by (auto simp: Clear_stored store_ok_def store_inv_def schema_ready_def Let_def sorted_wrt_map
          intro: sorted_wrt_filter distinct_map_filter le_trans [OF length_filter_le])
  qed (use a in \<open>auto simp: Clear_rejected store_ok_def\<close>)
qed

text \<open>
  A committed clear is exact. Precisely the visits outside [begin, end) survive, in their order
  (a null begin and a maximal end are the open bounds); a live \<open>tab_state\<close> row is never touched, and
  a closed one survives precisely when a surviving visit still names its non-empty uid.
\<close>

theorem clear_is_exact:
  assumes "store_ok st" and "txn_ok f" and st': "st' = ClearForBrowsingDataRemoval f b e st"
  shows "ReadAll st' = filter (\<lambda>r. \<not> in_range b e r) (ReadAll st) \<and>
     set (ReadTabStates st') =
       {s \<in> set (ReadTabStates st).
          ts_closed s \<longrightarrow> restore_key s \<noteq> [] \<and> restore_key s \<in> vr_tab_uid ` set (ReadAll st')}"
proof -
  obtain db where db: "st = Some db" "store_inv db" "schema_ready db"
    using assms(1) by (rule store_okE)
  have "store_ok (ClearForBrowsingDataRemoval f b e st)" using assms(1) by (rule Clear_inv)
  then have srt: "sorted_wrt (<) (map vr_id (filter (\<lambda>r. \<not> in_range b e r) (visits db)))"
    using db assms(2) by (simp add: Clear_stored store_ok_def store_inv_def Let_def)
  have log: "ReadAll st' = filter (\<lambda>r. \<not> in_range b e r) (ReadAll st)"
    using db assms(2) srt
    by (simp add: st' Clear_stored ReadAll_def schema_ready_def FromStorage_def sort_key_id_sorted
        store_inv_def Let_def)
  moreover have "set (ReadTabStates st') = {s \<in> set (ReadTabStates st).
          ts_closed s \<longrightarrow> restore_key s \<noteq> [] \<and> restore_key s \<in> vr_tab_uid ` set (ReadAll st')}"
    using db assms(2) srt
    by (auto simp: st' Clear_stored ReadAll_def ReadTabStates_def schema_ready_def FromStorage_def
        sort_key_id_sorted Let_def)
  ultimately show ?thesis ..
qed

definition sample_db :: journal_db where
  "sample_db = \<lparr>meta = Some (3, 1), visits_cols = Some True, has_tab_state = True,
     visits = [\<lparr>vr_id = 1, vr_tab_uid = ''a'', vr_url = ''u'', vr_visited_at = 10\<rparr>,
               \<lparr>vr_id = 2, vr_tab_uid = ''b'', vr_url = ''v'', vr_visited_at = 20\<rparr>],
     next_id = 3,
     tab_state = [\<lparr>restore_key = ''a'', ts_closed = True, window_id = 1, last_known_url = ''u''\<rparr>,
                  \<lparr>restore_key = ''b'', ts_closed = True, window_id = 1, last_known_url = ''v''\<rparr>]\<rparr>"

lemma sample_db_ok: "store_ok (Some sample_db)"
  by (simp add: sample_db_def store_ok_def store_inv_def schema_ready_def kMaxVisits_def)

lemma clear_is_exact_witness:
  "map vr_id (ReadAll (ClearForBrowsingDataRemoval all_ok 10 20 (Some sample_db))) = [2]"
proof -
  have "ReadAll (ClearForBrowsingDataRemoval all_ok 10 20 (Some sample_db)) =
          filter (\<lambda>r. \<not> in_range 10 20 r) (ReadAll (Some sample_db))"
    using clear_is_exact [OF sample_db_ok _ refl, of all_ok 10 20] by (simp add: txn_ok_def all_ok_def)
  then show ?thesis
    by (simp add: sample_db_def ReadAll_def in_range_def clear_lower_def clear_upper_def
        time_is_null_def time_is_max_def int64_max_def ToStorage_def FromStorage_def)
qed

subsection \<open>Opening: migration, crash recovery, reset\<close>

text \<open>The schema a version-3 build leaves behind, with every row of the given database.\<close>

definition at_version3 :: "journal_db \<Rightarrow> journal_db" where
  "at_version3 db = db\<lparr>meta := Some (kCurrentVersion, case meta db of None \<Rightarrow> kCompatibleVersion | Some m \<Rightarrow> snd m),
                       visits_cols := Some True, has_tab_state := True\<rparr>"

definition openable :: "journal_db \<Rightarrow> bool" where
  "openable db \<longleftrightarrow> (case meta db of None \<Rightarrow> visits_cols db \<noteq> Some False
     | Some (ver, cv) \<Rightarrow> cv \<le> kCurrentVersion \<and>
                       (ver < kCurrentVersion \<or> ver = kCurrentVersion \<and> visits_cols db \<noteq> Some False))"

lemma InitSchema_all_ok: "openable db \<Longrightarrow> InitSchema all_init_ok db = (True, at_version3 db)"
  by (auto simp: openable_def InitSchema_def all_init_ok_def meta_Init_def create_visits_def
      migrate_v3_def at_version3_def kCurrentVersion_def kCompatibleVersion_def Let_def
      split: option.splits)

lemma InitSchema_partial:
  assumes "openable db"
  shows "openable (snd (InitSchema e db)) \<and> at_version3 (snd (InitSchema e db)) = at_version3 db"
  using assms
  by (auto simp: openable_def InitSchema_def meta_Init_def create_visits_def
      migrate_v3_def at_version3_def kCurrentVersion_def kCompatibleVersion_def Let_def
      split: option.splits)

text \<open>
  C29: the schema upgrade survives an interruption at any step. Whatever prefix of a first opening
  took effect (any SQL step failing), opening the file again upgrades it to version 3 with the
  \<open>tab_uid\<close> column, and every visit and every tab state of the original file is still there.
\<close>

theorem migration_restartable:
  assumes "openable db"
  shows "Open True all_init_ok deleted open2 e2 (Some (snd (InitSchema e db))) =
           (True, Some (at_version3 db)) \<and>
         visits (at_version3 db) = visits db \<and> tab_state (at_version3 db) = tab_state db \<and>
         schema_ready (at_version3 db)"
  using InitSchema_all_ok [OF conjunct1 [OF InitSchema_partial [OF assms, of e]]]
    InitSchema_partial [OF assms, of e]
  by (simp add: Open_def at_version3_def schema_ready_def)

definition v2_db :: journal_db where
  "v2_db = \<lparr>meta = Some (2, 1), visits_cols = Some False, has_tab_state = True,
     visits = [\<lparr>vr_id = 1, vr_tab_uid = [], vr_url = ''u'', vr_visited_at = 10\<rparr>],
     next_id = 2, tab_state = []\<rparr>"

lemma migration_restartable_witness:
  "snd (Open True all_init_ok True True all_init_ok
          (Some (snd (InitSchema (all_init_ok\<lparr>migrate_commit_ok := False\<rparr>) v2_db)))) =
     Some (at_version3 v2_db)"
  using migration_restartable [of v2_db True True all_init_ok "all_init_ok\<lparr>migrate_commit_ok := False\<rparr>"]
  by (simp add: v2_db_def openable_def kCurrentVersion_def)

lemma empty_db_openable: "openable empty_db"
  by (simp add: openable_def empty_db_def)

lemma at_version3_inv: "store_inv db \<Longrightarrow> store_ok (Some (at_version3 db))"
  by (simp add: store_ok_def store_inv_def schema_ready_def at_version3_def)

lemma store_inv_empty: "store_inv empty_db"
  by (simp add: store_inv_def empty_db_def)

lemma migrate_v3_rows:
  "migrate_v3 e db = (ok, db') \<Longrightarrow> visits db' = visits db \<and> tab_state db' = tab_state db \<and> next_id db' = next_id db"
  by (auto simp: migrate_v3_def Let_def split: option.splits if_splits)

lemma migrate_v3_schema:
  "migrate_v3 e db = (True, db') \<Longrightarrow> openable db \<Longrightarrow> visits_cols db \<noteq> None \<Longrightarrow> has_tab_state db \<Longrightarrow>
   schema_ready db'"
  by (auto simp: migrate_v3_def openable_def schema_ready_def Let_def split: option.splits if_splits)

text \<open>
  An unusable file is replaced, never half used. When the first attempt fails, deleting and
  recreating the file gives a ready, empty store; when it succeeds without the reset, the store has
  exactly the file's rows.
\<close>

theorem open_keeps_or_resets:
  assumes "file = Some db" and "Open open1 e1 True True all_init_ok file = (ok, st)"
  shows "ok \<and> (if open1 \<and> fst (InitSchema e1 db)
               then st = Some (snd (InitSchema e1 db))
               else st = Some (at_version3 empty_db) \<and> store_ok st \<and> ReadAll st = [])"
  using assms InitSchema_all_ok [OF empty_db_openable] at_version3_inv [OF store_inv_empty]
  by (cases "InitSchema e1 db")
     (auto simp: Open_def ReadAll_def at_version3_def empty_db_def split: if_splits)

lemma open_keeps_or_resets_witness:
  "snd (Open True (all_init_ok\<lparr>meta_init_ok := False\<rparr>) True True all_init_ok (Some sample_db)) =
     Some (at_version3 empty_db)"
  using open_keeps_or_resets [of "Some sample_db" sample_db True "all_init_ok\<lparr>meta_init_ok := False\<rparr>"
      "fst (Open True (all_init_ok\<lparr>meta_init_ok := False\<rparr>) True True all_init_ok (Some sample_db))"
      "snd (Open True (all_init_ok\<lparr>meta_init_ok := False\<rparr>) True True all_init_ok (Some sample_db))"]
  by (simp add: InitSchema_def)

end
