(* ===== verification/Journal_Service.thy ===== *)
theory Journal_Service
  imports Visits_Store "HOL-Library.Multiset"
begin

text \<open>
  \<open>roamux/browser/tab_visit/settled_visit_journal_service.cc\<close>, the store location of
  \<open>settled_visit_journal_factory.cc\<close> and the registry of \<open>settled_visit_clear_hook.cc\<close>.

  \<open>base::SequenceBound<VisitsStore>\<close> is a queue of posted calls in front of the store: \<open>AsyncCall\<close>
  appends to it, the store sequence runs its head (\<open>run_task\<close>) and posts the reply of \<open>Then\<close> to the
  caller's sequence (\<open>outbox\<close>, in order). A callback is a value of the type \<open>'k\<close> its client chooses;
  a callback the code runs at once is returned by the operation as a list of replies.
\<close>

datatype 'k store_task =
    OpenInMemory_task
  | Open_task
  | Append_task uid string time
  | ReadAll_task 'k
  | Clear_task time time 'k
  | ReadTabStates_task 'k
  | Upsert_task TabStateRow
  | GetTabState_task string "string option" 'k

datatype 'k reply =
    Visits_reply 'k "VisitRow list"
  | Done_reply 'k
  | TabStates_reply 'k "TabStateRow list"
  | TabState_reply 'k "TabStateRow option" "string option"

record 'k journal_service =
  store_bound :: bool
  queue :: "'k store_task list"
  db :: visits_store
  outbox :: "'k reply list"
  live_session_ids :: "string \<rightharpoonup> string"
  live_tabs :: "string set"

text \<open>
  The outcomes of the store sequence's calls into SQLite and the file system: the file and the
  outcomes of \<open>Open\<close>, and of each statement of the running task.
\<close>

record store_env =
  env_file :: "journal_db option"
  env_open1 :: bool
  env_init1 :: init_outcomes
  env_deleted :: bool
  env_open2 :: bool
  env_init2 :: init_outcomes
  env_txn :: txn_outcomes
  env_upsert :: bool

definition SettledVisitJournalService :: "bool \<Rightarrow> bool \<Rightarrow> 'k journal_service" where
  "SettledVisitJournalService enabled in_memory =
     (let s = \<lparr>store_bound = False, queue = [], db = None, outbox = [],
               live_session_ids = Map.empty, live_tabs = {}\<rparr>
      in if \<not> enabled then s
         else s\<lparr>store_bound := True,
                queue := [if in_memory then OpenInMemory_task else Open_task]\<rparr>)"

definition AsyncCall :: "'k store_task \<Rightarrow> 'k journal_service \<Rightarrow> 'k journal_service" where
  "AsyncCall t s = s\<lparr>queue := queue s @ [t]\<rparr>"

definition RecordVisit :: "uid \<Rightarrow> gurl \<Rightarrow> time \<Rightarrow> 'k journal_service \<Rightarrow> 'k journal_service" where
  "RecordVisit tab_uid url now s =
     (if \<not> store_bound s then s else AsyncCall (Append_task tab_uid (url_spec url) now) s)"

definition GetVisits :: "'k \<Rightarrow> 'k journal_service \<Rightarrow> 'k reply list \<times> 'k journal_service" where
  "GetVisits callback s =
     (if \<not> store_bound s then ([Visits_reply callback []], s)
      else ([], AsyncCall (ReadAll_task callback) s))"

definition ClearBrowsingData ::
  "time \<Rightarrow> time \<Rightarrow> 'k \<Rightarrow> 'k journal_service \<Rightarrow> 'k reply list \<times> 'k journal_service" where
  "ClearBrowsingData begin_t end_t done_k s =
     (if \<not> store_bound s then ([Done_reply done_k], s)
      else ([], AsyncCall (Clear_task begin_t end_t done_k) s))"

definition GetAllTabStates :: "'k \<Rightarrow> 'k journal_service \<Rightarrow> 'k reply list \<times> 'k journal_service" where
  "GetAllTabStates callback s =
     (if \<not> store_bound s then ([TabStates_reply callback []], s)
      else ([], AsyncCall (ReadTabStates_task callback) s))"

definition SetTabState :: "TabStateRow \<Rightarrow> 'k journal_service \<Rightarrow> 'k journal_service" where
  "SetTabState row s = (if \<not> store_bound s then s else AsyncCall (Upsert_task row) s)"

definition SetLiveSessionId :: "string \<Rightarrow> string \<Rightarrow> 'k journal_service \<Rightarrow> 'k journal_service" where
  "SetLiveSessionId key live_id s = s\<lparr>live_session_ids := (live_session_ids s)(key \<mapsto> live_id)\<rparr>"

definition ClearLiveSessionId :: "string \<Rightarrow> 'k journal_service \<Rightarrow> 'k journal_service" where
  "ClearLiveSessionId key s = s\<lparr>live_session_ids := (live_session_ids s)(key := None)\<rparr>"

definition AddLiveTab :: "string \<Rightarrow> 'k journal_service \<Rightarrow> 'k journal_service" where
  "AddLiveTab key s = s\<lparr>live_tabs := insert key (live_tabs s)\<rparr>"

definition RemoveLiveTab :: "string \<Rightarrow> 'k journal_service \<Rightarrow> 'k journal_service" where
  "RemoveLiveTab key s = s\<lparr>live_tabs := live_tabs s - {key}\<rparr>"

definition HasLiveTab :: "string \<Rightarrow> 'k journal_service \<Rightarrow> bool" where
  "HasLiveTab key s \<longleftrightarrow> key \<in> live_tabs s"

definition svc_GetTabState ::
  "string \<Rightarrow> 'k \<Rightarrow> 'k journal_service \<Rightarrow> 'k reply list \<times> 'k journal_service" where
  "svc_GetTabState key callback s =
     (if \<not> store_bound s then ([TabState_reply callback None None], s)
      else ([], AsyncCall (GetTabState_task key (live_session_ids s key) callback) s))"

definition svc_Shutdown :: "'k journal_service \<Rightarrow> 'k journal_service" where
  "svc_Shutdown s = s\<lparr>store_bound := False\<rparr>"

subsection \<open>The store sequence\<close>

fun run_task :: "store_env \<Rightarrow> 'k store_task \<Rightarrow> visits_store \<Rightarrow> visits_store \<times> 'k reply list" where
  "run_task e OpenInMemory_task st = (snd (OpenInMemory (env_open1 e) (env_init1 e)), [])"
| "run_task e Open_task st =
     (snd (Open (env_open1 e) (env_init1 e) (env_deleted e) (env_open2 e) (env_init2 e) (env_file e)), [])"
| "run_task e (Append_task u url t) st = (Append (env_txn e) u url t st, [])"
| "run_task e (ReadAll_task k) st = (st, [Visits_reply k (ReadAll st)])"
| "run_task e (Clear_task b e' k) st = (ClearForBrowsingDataRemoval (env_txn e) b e' st, [Done_reply k])"
| "run_task e (ReadTabStates_task k) st = (st, [TabStates_reply k (ReadTabStates st)])"
| "run_task e (Upsert_task row) st = (UpsertTabState (env_upsert e) row st, [])"
| "run_task e (GetTabState_task key live k) st = (st, [TabState_reply k (GetTabState key st) live])"

definition store_step :: "store_env \<Rightarrow> 'k journal_service \<Rightarrow> 'k journal_service" where
  "store_step e s =
     (case queue s of
        [] \<Rightarrow> s
      | t # q \<Rightarrow> (let (st, rs) = run_task e t (db s)
                 in s\<lparr>queue := q, db := st, outbox := outbox s @ rs\<rparr>))"

text \<open>Running \<open>n\<close> tasks, the outcomes of the i-th being \<open>env i\<close>.\<close>

fun store_steps :: "(nat \<Rightarrow> store_env) \<Rightarrow> nat \<Rightarrow> 'k journal_service \<Rightarrow> 'k journal_service" where
  "store_steps env 0 s = s"
| "store_steps env (Suc n) s = store_steps (\<lambda>i. env (Suc i)) n (store_step (env 0) s)"

definition drain :: "(nat \<Rightarrow> store_env) \<Rightarrow> 'k journal_service \<Rightarrow> 'k journal_service" where
  "drain env s = store_steps env (length (queue s)) s"

subsection \<open>The clear hook\<close>

text \<open>
  \<open>SetClearJournalHook\<close> and \<open>RunClearJournalHook\<close>: the process-global hook is None until the factory
  registers one; a hook is a state transformer that also returns the callbacks it ran.
\<close>

type_synonym ('s, 'k) ClearJournalHook = "time \<Rightarrow> time \<Rightarrow> 'k \<Rightarrow> 's \<Rightarrow> 'k list \<times> 's"

definition SetClearJournalHook ::
  "('s, 'k) ClearJournalHook \<Rightarrow> ('s, 'k) ClearJournalHook option \<Rightarrow> ('s, 'k) ClearJournalHook option" where
  "SetClearJournalHook hook global = Some hook"

definition RunClearJournalHook ::
  "('s, 'k) ClearJournalHook option \<Rightarrow> time \<Rightarrow> time \<Rightarrow> 'k \<Rightarrow> 's \<Rightarrow> 'k list \<times> 's" where
  "RunClearJournalHook global begin_t end_t done_k s =
     (case global of Some hook \<Rightarrow> hook begin_t end_t done_k s | None \<Rightarrow> ([done_k], s))"

text \<open>\<open>BuildServiceInstanceForBrowserContext\<close>: an off-the-record profile never gets a path.\<close>

definition kJournalDbName :: string where "kJournalDbName = ''RoamuxTabVisits''"

definition BuildServiceInstance ::
  "bool \<Rightarrow> bool \<Rightarrow> string list \<Rightarrow> string list option \<times> 'k journal_service" where
  "BuildServiceInstance enabled off_the_record profile_path =
     (let in_memory = off_the_record;
          db_path = (if in_memory then [] else profile_path @ [kJournalDbName])
      in (if enabled \<and> \<not> in_memory then Some db_path else None,
          SettledVisitJournalService enabled in_memory))"

subsection \<open>Facts about the queue\<close>

lemma queue_store_step [simp]: "queue (store_step e s) = tl (queue s)"
  by (auto simp: store_step_def split: list.split prod.split)

lemma store_step_Cons:
  "queue s = t # q \<Longrightarrow> store_step e s =
     s\<lparr>queue := q, db := fst (run_task e t (db s)), outbox := outbox s @ snd (run_task e t (db s))\<rparr>"
  by (simp add: store_step_def split: prod.split)

lemma db_store_step:
  "db (store_step e s) = (case queue s of [] \<Rightarrow> db s | t # q \<Rightarrow> fst (run_task e t (db s)))"
  by (simp add: store_step_def split: list.split prod.split)

fun run_tasks ::
  "(nat \<Rightarrow> store_env) \<Rightarrow> 'k store_task list \<Rightarrow> visits_store \<Rightarrow> visits_store \<times> 'k reply list" where
  "run_tasks env [] st = (st, [])"
| "run_tasks env (t # ts) st =
     (let (st1, r1) = run_task (env 0) t st;
          (st2, r2) = run_tasks (\<lambda>i. env (Suc i)) ts st1
      in (st2, r1 @ r2))"

lemma store_steps_run_tasks:
  "queue s = ts @ q \<Longrightarrow> store_steps env (length ts) s =
     s\<lparr>queue := q, db := fst (run_tasks env ts (db s)), outbox := outbox s @ snd (run_tasks env ts (db s))\<rparr>"
proof (induction ts arbitrary: s env)
  case (Cons t ts)
  have "queue (store_step (env 0) s) = ts @ q" using Cons.prems by simp
  from Cons.IH [OF this, of "\<lambda>i. env (Suc i)"] show ?case
    using Cons.prems by (simp add: store_step_Cons split: prod.split)
qed simp

lemma drain_eq:
  "drain env s = s\<lparr>queue := [], db := fst (run_tasks env (queue s) (db s)),
                  outbox := outbox s @ snd (run_tasks env (queue s) (db s))\<rparr>"
  using store_steps_run_tasks [of s "queue s" "[]" env] by (simp add: drain_def)

lemma run_tasks_Cons:
  "fst (run_tasks env (t # ts) st) = fst (run_tasks (\<lambda>i. env (Suc i)) ts (fst (run_task (env 0) t st)))"
  by (simp add: Let_def split: prod.split)

lemma run_tasks_append:
  "run_tasks env (ts @ us) st =
     (let (st1, r1) = run_tasks env ts st;
          (st2, r2) = run_tasks (\<lambda>i. env (i + length ts)) us st1
      in (st2, r1 @ r2))"
  by (induction ts arbitrary: env st) (auto simp: Let_def split: prod.split)

subsection \<open>Every task keeps the store well formed\<close>

definition store_wf :: "visits_store \<Rightarrow> bool" where
  "store_wf st \<longleftrightarrow> (case st of None \<Rightarrow> True | Some d \<Rightarrow> store_inv d)"

definition usable :: "visits_store \<Rightarrow> bool" where
  "usable st \<longleftrightarrow> st = None \<or> store_ok st"

definition file_wf :: "store_env \<Rightarrow> bool" where
  "file_wf e \<longleftrightarrow> store_wf (env_file e)"

fun is_open_task :: "'k store_task \<Rightarrow> bool" where
  "is_open_task OpenInMemory_task = True"
| "is_open_task Open_task = True"
| "is_open_task _ = False"

lemma InitSchema_inv: "store_inv d \<Longrightarrow> store_inv (snd (InitSchema e d))"
  by (auto simp: InitSchema_def store_inv_def meta_Init_def create_visits_def migrate_v3_def Let_def
      split: option.splits)

lemma Open_wf: "store_wf file \<Longrightarrow> store_wf (snd (Open o1 e1 del o2 e2 file))"
proof -
  assume wf: "store_wf file"
  let ?d = "case file of None \<Rightarrow> empty_db | Some d \<Rightarrow> d"
  have "store_inv ?d" using wf store_inv_empty by (auto simp: store_wf_def split: option.splits)
  then show ?thesis
    using InitSchema_inv [of ?d e1] InitSchema_inv [OF store_inv_empty, of e2]
      InitSchema_inv [OF InitSchema_inv, of ?d e2 e1] InitSchema_inv [of ?d e2]
    by (cases "InitSchema e1 ?d"; cases "InitSchema e2 empty_db"; cases "InitSchema e2 ?d";
        cases "InitSchema e2 (snd (InitSchema e1 ?d))")
       (auto simp: Open_def store_wf_def Let_def split: if_splits)
qed

lemma OpenInMemory_wf: "store_wf (snd (OpenInMemory o1 e))"
  using InitSchema_inv [OF store_inv_empty, of e]
  by (cases "InitSchema e empty_db") (auto simp: OpenInMemory_def store_wf_def)

lemma Append_wf: "store_wf st \<Longrightarrow> store_wf (Append f u url t st)"
proof (cases st)
  case (Some d)
  assume "store_wf st"
  then have d: "store_inv d" by (simp add: Some store_wf_def)
  have eq: "Append f u url t (Some d) = Some d \<or> visits_cols d = Some True"
    by (auto simp: Append_def Let_def)
  show ?thesis
  proof (cases "visits_cols d = Some True")
    case True
    have "store_ok (Some (d\<lparr>has_tab_state := True\<rparr>))"
      using d True by (simp add: store_ok_def store_inv_def schema_ready_def)
    from Append_inv [OF this, of f u url t] show ?thesis
      by (auto simp: Some Append_def Let_def store_wf_def store_ok_def store_inv_def split: if_splits)
  qed (use eq d in \<open>auto simp: Some store_wf_def\<close>)
qed (simp add: Append_def store_wf_def)

lemma Clear_wf: "store_wf st \<Longrightarrow> store_wf (ClearForBrowsingDataRemoval f b e st)"
  by (auto simp: ClearForBrowsingDataRemoval_def store_wf_def store_inv_def Let_def sorted_wrt_map
      intro: sorted_wrt_filter distinct_map_filter le_trans [OF length_filter_le]
      split: option.split)

lemma Upsert_wf: "store_wf st \<Longrightarrow> store_wf (UpsertTabState ok row st)"
  by (auto simp: UpsertTabState_def store_wf_def store_inv_def distinct_map_filter
      split: option.split)

lemma Upsert_inv [inv_intros]: "store_ok st \<Longrightarrow> store_ok (UpsertTabState ok row st)"
  by (erule store_okE, cases ok)
     (auto simp: UpsertTabState_def store_ok_def store_inv_def schema_ready_def distinct_map_filter)

lemma ops_closed [simp]:
  "Append f u url t None = None" "ClearForBrowsingDataRemoval f b e None = None"
  "UpsertTabState ok row None = None"
  by (simp_all add: Append_def ClearForBrowsingDataRemoval_def UpsertTabState_def)

lemma run_task_wf: "store_wf st \<Longrightarrow> file_wf e \<Longrightarrow> store_wf (fst (run_task e t st))"
  by (cases t) (simp_all add: file_wf_def Open_wf OpenInMemory_wf Append_wf Clear_wf Upsert_wf)

lemma run_task_usable: "usable st \<Longrightarrow> \<not> is_open_task t \<Longrightarrow> usable (fst (run_task e t st))"
  unfolding usable_def by (cases t) (auto intro: inv_intros)

lemma run_tasks_usable:
  "usable st \<Longrightarrow> list_all (\<lambda>t. \<not> is_open_task t) ts \<Longrightarrow> usable (fst (run_tasks env ts st))"
  by (induction ts arbitrary: env st) (auto simp: run_task_usable Let_def split: prod.split,
      metis fst_conv run_task_usable)

subsection \<open>Callbacks run exactly once\<close>

fun reply_k :: "'k reply \<Rightarrow> 'k" where
  "reply_k (Visits_reply k _) = k"
| "reply_k (Done_reply k) = k"
| "reply_k (TabStates_reply k _) = k"
| "reply_k (TabState_reply k _ _) = k"

text \<open>The callbacks that have run once the store sequence has run everything posted to it.\<close>

definition callbacks_run :: "(nat \<Rightarrow> store_env) \<Rightarrow> 'k reply list \<times> 'k journal_service \<Rightarrow> 'k multiset" where
  "callbacks_run env r = mset (map reply_k (fst r @ outbox (drain env (snd r))))"

lemma drain_AsyncCall:
  "outbox (drain env (AsyncCall t s)) =
     outbox (drain env s) @
     snd (run_task (env (length (queue s))) t (db (drain env s)))"
  by (simp add: drain_eq AsyncCall_def run_tasks_append Let_def split: prod.split)

lemma db_drain_AsyncCall:
  "db (drain env (AsyncCall t s)) = fst (run_task (env (length (queue s))) t (db (drain env s)))"
  by (simp add: drain_eq AsyncCall_def run_tasks_append Let_def split: prod.split)

lemma drain_Shutdown [simp]: "outbox (drain env (svc_Shutdown s)) = outbox (drain env s)"
  by (simp add: drain_eq svc_Shutdown_def)

text \<open>
  Every completion token fires exactly once. Each asynchronous request adds exactly one run of
  its callback to those of the requests before it, at once when the service is inert and after the
  queue drains otherwise, whatever SQLite answers, and shutting the service down first loses none.
\<close>

theorem every_callback_runs_once:
  "callbacks_run env (ClearBrowsingData b e k s) = add_mset k (callbacks_run env ([], s)) \<and>
   callbacks_run env (GetVisits k s) = add_mset k (callbacks_run env ([], s)) \<and>
   callbacks_run env (GetAllTabStates k s) = add_mset k (callbacks_run env ([], s)) \<and>
   callbacks_run env (svc_GetTabState key k s) = add_mset k (callbacks_run env ([], s)) \<and>
   callbacks_run env ([], svc_Shutdown s) = callbacks_run env ([], s)"
  by (simp add: callbacks_run_def ClearBrowsingData_def GetVisits_def GetAllTabStates_def
      svc_GetTabState_def drain_AsyncCall)

subsection \<open>Ordering of posted calls\<close>

text \<open>The visits that the appends among some tasks commit, with the outcomes the tasks have.\<close>

fun appended_by :: "store_env \<Rightarrow> 'k store_task \<Rightarrow> (uid \<times> string \<times> time) list" where
  "appended_by e (Append_task u url t) = (if txn_ok (env_txn e) then [(u, url, t)] else [])"
| "appended_by e _ = []"

fun committed_appends :: "(nat \<Rightarrow> store_env) \<Rightarrow> 'k store_task list \<Rightarrow> (uid \<times> string \<times> time) list" where
  "committed_appends env [] = []"
| "committed_appends env (t # ts) = appended_by (env 0) t @ committed_appends (\<lambda>i. env (Suc i)) ts"

text \<open>The clear's transaction can run and commits: the store is closed, or both tables exist and no statement fails.\<close>

definition clear_commits :: "txn_outcomes \<Rightarrow> visits_store \<Rightarrow> bool" where
  "clear_commits f st \<longleftrightarrow> st = None \<or> txn_ok f \<and> (\<exists>d. st = Some d \<and> schema_ready d)"

text \<open>Every stored row with a property is of a given set of visits.\<close>

definition rows_of :: "(VisitRow \<Rightarrow> bool) \<Rightarrow> (uid \<times> string \<times> time) set \<Rightarrow> visits_store \<Rightarrow> bool" where
  "rows_of P A st \<longleftrightarrow> (\<forall>d. st = Some d \<longrightarrow> (\<forall>r \<in> set (visits d). P r \<longrightarrow> payload r \<in> A))"

lemma Append_rows: "rows_of P A st \<Longrightarrow>
  rows_of P (A \<union> set (if txn_ok f then [(u, url, t)] else [])) (Append f u url t st)"
  by (auto simp: rows_of_def Append_def txn_ok_def trim_visits_def payload_def ToStorage_def Let_def split: option.splits)

lemma run_task_rows: "rows_of P A st \<Longrightarrow> \<not> is_open_task t \<Longrightarrow> rows_of P (A \<union> set (appended_by e t)) (fst (run_task e t st))"
proof (cases t)
  case (Append_task u url tm)
  assume "rows_of P A st"
  then show ?thesis using Append_rows [of P A st "env_txn e" u url tm] by (simp add: Append_task)
qed (auto simp: rows_of_def ClearForBrowsingDataRemoval_def UpsertTabState_def Let_def split: option.splits if_splits)

lemma run_tasks_rows: "rows_of P A st \<Longrightarrow> list_all (\<lambda>t. \<not> is_open_task t) ts \<Longrightarrow>
  rows_of P (A \<union> set (committed_appends env ts)) (fst (run_tasks env ts st))"
proof (induction ts arbitrary: env st A)
  case (Cons t ts)
  have "rows_of P (A \<union> set (appended_by (env 0) t)) (fst (run_task (env 0) t st))"
    using Cons.prems by (intro run_task_rows) simp_all
  from Cons.IH [OF this, of "\<lambda>i. env (Suc i)"] Cons.prems(2) show ?case
    unfolding run_tasks_Cons by (simp add: Un_assoc)
qed simp

lemma cleared_rows:
  assumes "clear_commits f st"
  shows "rows_of (in_range b e) {} (ClearForBrowsingDataRemoval f b e st)"
    and "ReadAll (ClearForBrowsingDataRemoval f b e st) = filter (\<lambda>r. \<not> in_range b e r) (ReadAll st)"
  using assms
  by (auto simp: clear_commits_def rows_of_def Clear_stored ReadAll_def FromStorage_def schema_ready_def filter_sort Let_def)

lemma ReadAll_rows: "rows_of P A st \<Longrightarrow> r \<in> set (ReadAll st) \<Longrightarrow> P r \<Longrightarrow> payload r \<in> A"
  by (auto simp: rows_of_def ReadAll_def FromStorage_def split: option.splits if_splits)

lemma fold_AsyncCall: "fold AsyncCall ts s = s\<lparr>queue := queue s @ ts\<rparr>"
  by (induction ts arbitrary: s) (simp_all add: AsyncCall_def)

lemma db_drain_posted:
  "db (drain env (s\<lparr>queue := queue s @ ts\<rparr>)) = fst (run_tasks (\<lambda>i. env (i + length (queue s))) ts (db (drain env s)))"
  by (simp add: drain_eq run_tasks_append Let_def split: prod.split)

definition no_open_pending :: "'k journal_service \<Rightarrow> bool" where
  "no_open_pending s \<longleftrightarrow> usable (db s) \<and> list_all (\<lambda>t. \<not> is_open_task t) (queue s)"

lemma drain_usable: "no_open_pending s \<Longrightarrow> usable (db (drain env s))"
  by (simp add: no_open_pending_def drain_eq run_tasks_usable)

text \<open>
  C2: a read posted after a browsing-data clear returns no cleared visit. Whatever was waiting on the store
  sequence when the clear was posted (its first opening, appends, other clears), and whatever was
  posted between the clear and the read, if the clear's transaction commits when its turn comes, on
  a store that is closed or has its two tables, then every visit of the range the read returns was appended
  after the clear; and a read posted right after it returns exactly the visits there were outside the range.
\<close>

theorem read_after_clear:
  assumes "store_bound s" and "s1 = snd (ClearBrowsingData b e done_k s)"
    and "s2 = fold AsyncCall ts s1" and "list_all (\<lambda>t. \<not> is_open_task t) ts" and "s3 = snd (GetVisits k s2)"
    and "clear_commits (env_txn (env (length (queue s)))) (db (drain env s))"
  shows "\<exists>before rows. outbox (drain env s3) = before @ [Visits_reply k rows] \<and>
           (\<forall>r \<in> set rows. in_range b e r \<longrightarrow> payload r \<in> set (committed_appends (\<lambda>i. env (i + length (queue s1))) ts)) \<and>
           (ts = [] \<longrightarrow> rows = filter (\<lambda>r. \<not> in_range b e r) (ReadAll (db (drain env s))))"
proof -
  let ?st = "db (drain env s)" and ?f = "env_txn (env (length (queue s)))"
  have s1: "s1 = AsyncCall (Clear_task b e done_k) s" and s3: "s3 = AsyncCall (ReadAll_task k) s2"
    using assms(1,2,3,5) by (simp_all add: ClearBrowsingData_def GetVisits_def AsyncCall_def fold_AsyncCall)
  have cleared: "db (drain env s1) = ClearForBrowsingDataRemoval ?f b e ?st"
    unfolding s1 db_drain_AsyncCall by simp
  have posted: "db (drain env s2) = fst (run_tasks (\<lambda>i. env (i + length (queue s1))) ts (db (drain env s1)))"
    unfolding assms(3) fold_AsyncCall by (rule db_drain_posted)
  have "rows_of (in_range b e) (set (committed_appends (\<lambda>i. env (i + length (queue s1))) ts)) (db (drain env s2))"
    using run_tasks_rows [OF cleared_rows(1) [OF assms(6)] assms(4)] unfolding posted cleared by simp
  moreover have "ReadAll (db (drain env s2)) = filter (\<lambda>r. \<not> in_range b e r) (ReadAll ?st)" if "ts = []"
    using that cleared_rows(2) [OF assms(6)] by (simp add: posted cleared)
  moreover have "outbox (drain env s3) = outbox (drain env s2) @ [Visits_reply k (ReadAll (db (drain env s2)))]"
    unfolding s3 drain_AsyncCall by simp
  ultimately show ?thesis using ReadAll_rows by blast
qed

definition sample_service :: "nat journal_service" where
  "sample_service = \<lparr>store_bound = True, queue = [Append_task ''c'' ''w'' 15], db = Some sample_db,
     outbox = [], live_session_ids = Map.empty, live_tabs = {}\<rparr>"

definition good_env :: store_env where
  "good_env = \<lparr>env_file = None, env_open1 = True, env_init1 = all_init_ok, env_deleted = True,
     env_open2 = True, env_init2 = all_init_ok, env_txn = all_ok, env_upsert = True\<rparr>"

lemma read_after_clear_witness:
  "\<exists>before rows. outbox (drain (\<lambda>_. good_env)
       (snd (GetVisits 2 (AsyncCall (Append_task ''c'' ''v'' 16) (snd (ClearBrowsingData 10 20 1 sample_service)))))) =
         before @ [Visits_reply 2 rows] \<and> (\<forall>r \<in> set rows. in_range 10 20 r \<longrightarrow> payload r = (''c'', ''v'', 16))"
proof -
  let ?env = "\<lambda>_::nat. good_env"
  have "no_open_pending sample_service" by (simp add: no_open_pending_def usable_def sample_service_def sample_db_ok)
  from drain_usable [OF this, of ?env]
  have c: "clear_commits (env_txn (?env (length (queue sample_service)))) (db (drain ?env sample_service))"
    by (auto simp: usable_def clear_commits_def store_ok_def good_env_def txn_ok_def all_ok_def)
  have "store_bound sample_service" by (simp add: sample_service_def)
  from read_after_clear [where ts = "[Append_task ''c'' ''v'' 16]" and b = 10 and e = 20 and done_k = 1 and k = 2, OF this refl refl _ refl c]
  obtain before rows where
    "outbox (drain ?env (snd (GetVisits 2 (fold AsyncCall [Append_task ''c'' ''v'' 16]
        (snd (ClearBrowsingData 10 20 1 sample_service)))))) = before @ [Visits_reply 2 rows]"
    "\<forall>r \<in> set rows. in_range 10 20 r \<longrightarrow> payload r \<in> {(''c'', ''v'', 16)}"
    by auto
  then show ?thesis by auto
qed

lemma find_fresh_last: "P x \<Longrightarrow> List.find P (filter (\<lambda>y. \<not> P y) xs @ [x]) = Some x"
  by (induction xs) auto

lemma Upsert_Get:
  assumes "store_ok st"
  shows "GetTabState (restore_key row) (UpsertTabState True row st) = Some row"
  using assms find_fresh_last [of "\<lambda>r. restore_key r = restore_key row" row]
  by (elim store_okE) (simp add: UpsertTabState_def GetTabState_def schema_ready_def)

text \<open>
  A tab state reads through. The reply to \<open>GetTabState\<close> posted after \<open>SetTabState\<close> carries the
  row just set, together with the live session id as it was when the read was posted: clearing the
  volatile id afterwards does not change it.
\<close>

theorem tab_state_reads_through:
  assumes "no_open_pending s" and "store_bound s" and "db (drain env s) \<noteq> None"
    and "env_upsert (env (length (queue s)))"
    and "s1 = SetTabState row s" and "s2 = snd (svc_GetTabState (restore_key row) k s1)"
  shows "last (outbox (drain env (ClearLiveSessionId (restore_key row) s2))) =
           TabState_reply k (Some row) (live_session_ids s (restore_key row))"
proof -
  have s1: "s1 = AsyncCall (Upsert_task row) s"
    and s2: "s2 = AsyncCall (GetTabState_task (restore_key row) (live_session_ids s (restore_key row)) k) s1"
    using assms(2,5,6) by (simp_all add: SetTabState_def svc_GetTabState_def AsyncCall_def)
  have "store_ok (db (drain env s))"
    using drain_usable [OF assms(1), of env] assms(3) by (simp add: usable_def)
  from Upsert_Get [OF this, of row]
  have "last (outbox (drain env s2)) = TabState_reply k (Some row) (live_session_ids s (restore_key row))"
    unfolding s2 drain_AsyncCall s1 db_drain_AsyncCall using assms(4) by simp
  moreover have "outbox (drain env (ClearLiveSessionId (restore_key row) s2)) = outbox (drain env s2)"
    by (simp add: drain_eq ClearLiveSessionId_def)
  ultimately show ?thesis by simp
qed

lemma tab_state_reads_through_witness:
  "last (outbox (drain (\<lambda>_. good_env) (ClearLiveSessionId ''a''
      (snd (svc_GetTabState ''a'' 7 (SetTabState
         \<lparr>restore_key = ''a'', ts_closed = False, window_id = 4, last_known_url = ''z''\<rparr>
         (SetLiveSessionId ''a'' ''live'' sample_service))))))) =
   TabState_reply 7 (Some \<lparr>restore_key = ''a'', ts_closed = False, window_id = 4, last_known_url = ''z''\<rparr>)
     (Some ''live'')"
proof -
  let ?s = "SetLiveSessionId ''a'' ''live'' sample_service"
  have "no_open_pending ?s"
    by (simp add: no_open_pending_def usable_def SetLiveSessionId_def sample_service_def sample_db_ok)
  moreover have "store_bound ?s" and "db (drain (\<lambda>_. good_env) ?s) \<noteq> None"
    by (simp_all add: SetLiveSessionId_def sample_service_def drain_eq good_env_def all_ok_def
        Append_def sample_db_def)
  ultimately show ?thesis
    using tab_state_reads_through [of ?s "\<lambda>_. good_env" _ "\<lparr>restore_key = ''a'', ts_closed = False,
        window_id = 4, last_known_url = ''z''\<rparr>" _ 7, OF _ _ _ _ refl refl]
    by (simp add: good_env_def SetLiveSessionId_def)
qed

subsection \<open>The service as a state machine\<close>

inductive svc_step :: "'k journal_service \<Rightarrow> 'k journal_service \<Rightarrow> bool" where
  append: "svc_step s (RecordVisit u url now s)"
| visits: "svc_step s (snd (GetVisits k s))"
| clear: "svc_step s (snd (ClearBrowsingData b e k s))"
| states: "svc_step s (snd (GetAllTabStates k s))"
| set_state: "svc_step s (SetTabState row s)"
| get_state: "svc_step s (snd (svc_GetTabState key k s))"
| set_live: "svc_step s (SetLiveSessionId key live s)"
| clear_live: "svc_step s (ClearLiveSessionId key s)"
| add_tab: "svc_step s (AddLiveTab key s)"
| remove_tab: "svc_step s (RemoveLiveTab key s)"
| shutdown: "svc_step s (svc_Shutdown s)"
| store: "file_wf e \<Longrightarrow> svc_step s (store_step e s)"
| deliver: "svc_step s (s\<lparr>outbox := tl (outbox s)\<rparr>)"

definition svc_reachable :: "bool \<Rightarrow> bool \<Rightarrow> 'k journal_service \<Rightarrow> bool" where
  "svc_reachable enabled in_memory s \<longleftrightarrow> svc_step\<^sup>*\<^sup>* (SettledVisitJournalService enabled in_memory) s"

definition svc_inert :: "'k journal_service \<Rightarrow> bool" where
  "svc_inert s \<longleftrightarrow> \<not> store_bound s \<and> queue s = [] \<and> db s = None \<and> outbox s = []"

lemmas svc_op_defs = RecordVisit_def GetVisits_def ClearBrowsingData_def GetAllTabStates_def
  SetTabState_def svc_GetTabState_def SetLiveSessionId_def ClearLiveSessionId_def AddLiveTab_def
  RemoveLiveTab_def svc_Shutdown_def AsyncCall_def

lemma svc_step_wf: "svc_step s s' \<Longrightarrow> store_wf (db s) \<Longrightarrow> store_wf (db s')"
proof (induction rule: svc_step.induct)
  case (store e s)
  then show ?case
    by (simp add: db_store_step run_task_wf split: list.split)
qed (simp_all add: svc_op_defs)

lemma svc_step_inert: "svc_step s s' \<Longrightarrow> svc_inert s \<Longrightarrow> svc_inert s'"
  by (induction rule: svc_step.induct) (simp_all add: svc_op_defs svc_inert_def store_step_def)

lemma svc_reachable_invs:
  assumes "svc_reachable enabled in_memory s"
  shows "store_wf (db s)" and "\<not> enabled \<Longrightarrow> svc_inert s"
proof -
  have "svc_step\<^sup>*\<^sup>* (SettledVisitJournalService enabled in_memory) s"
    using assms by (simp add: svc_reachable_def)
  then have "store_wf (db s) \<and> (\<not> enabled \<longrightarrow> svc_inert s)"
    by induction (auto simp: SettledVisitJournalService_def store_wf_def svc_inert_def Let_def
        dest: svc_step_wf svc_step_inert [unfolded svc_inert_def])
  then show "store_wf (db s)" and "\<not> enabled \<Longrightarrow> svc_inert s" by auto
qed

text \<open>
  C28: in every reachable state of the service, whatever interleaving of requests, store tasks and
  failures led there, the store holds at most 999 visits with strictly increasing ids and one row per
  restore key; and with the feature off no store is ever opened, queued to or answered from.
\<close>

theorem reachable_journal:
  assumes "svc_reachable enabled in_memory s"
  shows "RowCount (db s) \<le> kMaxVisits \<and>
         sorted_wrt (<) (map vr_id (ReadAll (db s))) \<and>
         distinct (map restore_key (ReadTabStates (db s))) \<and>
         (\<not> enabled \<longrightarrow> queue s = [] \<and> db s = None \<and> outbox s = [])"
  using svc_reachable_invs [OF assms]
  by (cases "db s")
     (auto simp: store_wf_def svc_inert_def RowCount_def ReadAll_def ReadTabStates_def store_inv_def
      sort_key_id_sorted comp_def FromStorage_def distinct_map)

lemma reachable_journal_witness:
  "RowCount (db (store_step good_env (SettledVisitJournalService True True :: nat journal_service))) \<le> kMaxVisits"
proof -
  have "svc_reachable True True (store_step good_env (SettledVisitJournalService True True :: nat journal_service))"
    unfolding svc_reachable_def
    by (rule r_into_rtranclp, rule svc_step.store) (simp add: file_wf_def store_wf_def good_env_def)
  from reachable_journal [OF this] show ?thesis by simp
qed

subsection \<open>A failed open\<close>

lemma Clear_without_tab_state: "\<not> has_tab_state d \<Longrightarrow> ClearForBrowsingDataRemoval f b e (Some d) = Some d"
  by (simp add: ClearForBrowsingDataRemoval_def Let_def)

text \<open>A database without the \<open>tab_state\<close> table, as such an opening leaves it.\<close>

definition half_open :: "journal_db \<Rightarrow> bool" where
  "half_open d \<longleftrightarrow> store_inv d \<and> visits_cols d = Some True \<and> \<not> has_tab_state d"

lemma half_open_log: "half_open d \<Longrightarrow> visit_log (Some d) = map payload (visits d)"
  by (simp add: half_open_def visit_log_def ReadAll_def sort_key_id_sorted store_inv_def FromStorage_def)

lemma half_open_Append:
  assumes "half_open d"
  shows "\<exists>d'. Append f u url t (Some d) = Some d' \<and> half_open d' \<and>
    visit_log (Some d') = last_n kMaxVisits (visit_log (Some d) @ (if txn_ok f then [(u, url, t)] else []))"
proof (cases "txn_ok f")
  case False
  have "length (visits d) \<le> kMaxVisits" using assms by (simp add: half_open_def store_inv_def)
  with False assms show ?thesis by (simp add: Append_rejected half_open_log)
next
  case True
  let ?row = "\<lparr>vr_id = next_id d, vr_tab_uid = u, vr_url = url, vr_visited_at = t\<rparr>"
  have inv: "store_inv d" "visits_cols d = Some True" using assms by (simp_all add: half_open_def)
  let ?d' = "d\<lparr>visits := last_n kMaxVisits (visits d @ [?row]), next_id := next_id d + 1\<rparr>"
  have eq: "Append f u url t (Some d) = Some ?d'"
    using True inv(2) trim_visits_eq [OF ids_snoc [OF inv(1)]] by (simp add: Append_def txn_ok_def ToStorage_def Let_def)
  then have "store_wf (Some ?d')" using Append_wf [of "Some d" f u url t] inv(1) by (simp add: store_wf_def)
  then have "half_open ?d'" using assms by (simp add: half_open_def store_wf_def)
  with eq half_open_log [OF this] half_open_log [OF assms] True show ?thesis by (simp add: map_last_n payload_def)
qed

lemma half_open_task:
  assumes "half_open d" and "\<not> is_open_task t"
  shows "\<exists>d'. fst (run_task e t (Some d)) = Some d' \<and> half_open d' \<and>
    visit_log (Some d') = last_n kMaxVisits (visit_log (Some d) @ appended_by e t)"
proof (cases t)
  case (Append_task u url tm)
  with half_open_Append [OF assms(1), of "env_txn e" u url tm] show ?thesis by simp
qed (use assms in \<open>auto simp: half_open_log half_open_def store_inv_def Clear_without_tab_state UpsertTabState_def\<close>)

lemma half_open_tasks:
  assumes "half_open d" and "list_all (\<lambda>t. \<not> is_open_task t) ts"
  shows "\<exists>d'. fst (run_tasks env ts (Some d)) = Some d' \<and> half_open d' \<and>
    visit_log (Some d') = last_n kMaxVisits (visit_log (Some d) @ committed_appends env ts)"
  using assms
proof (induction ts arbitrary: env d)
  case Nil
  then have "length (visits d) \<le> kMaxVisits" by (simp add: half_open_def store_inv_def)
  with Nil show ?case by (simp add: half_open_log)
next
  case (Cons t ts)
  obtain d1 where d1: "fst (run_task (env 0) t (Some d)) = Some d1" "half_open d1"
    "visit_log (Some d1) = last_n kMaxVisits (visit_log (Some d) @ appended_by (env 0) t)"
    using half_open_task [OF Cons.prems(1), of t "env 0"] Cons.prems(2) by auto
  from Cons.IH [OF d1(2), of "\<lambda>i. env (Suc i)"] Cons.prems(2) d1(1,3) show ?case
    unfolding run_tasks_Cons by (simp add: last_n_last_n_append)
qed

text \<open>
  C30: an open that fails at the \<open>tab_state\<close> table does not leave the store closed, and no clear works
  on it. When \<open>Open\<close> reports failure with the database open, the visits table there and the
  \<open>tab_state\<close> table missing, then whatever appends, clears, reads and tab states follow in that process, with whatever
  outcomes, the store holds the newest 999 of the visits there were and every visit whose append committed: no
  clear, of whatever range, removed one.
\<close>

theorem failed_open_keeps_recording:
  assumes "Open open1 e1 deleted open2 e2 file = (False, Some d)"
    and "visits_cols d = Some True" and "\<not> has_tab_state d" and "store_wf file"
    and "list_all (\<lambda>t. \<not> is_open_task t) ts"
  shows "visit_log (fst (run_tasks env ts (Some d))) =
           last_n kMaxVisits (visit_log (Some d) @ committed_appends env ts)"
proof -
  have "store_wf (Some d)" using Open_wf [OF assms(4), of open1 e1 deleted open2 e2] by (simp add: assms(1))
  then have "half_open d" using assms(2,3) by (simp add: half_open_def store_wf_def)
  from half_open_tasks [OF this assms(5), of env] show ?thesis by auto
qed

definition no_tab_state :: init_outcomes where
  "no_tab_state = all_init_ok\<lparr>create_tab_state_ok := False\<rparr>"

definition visits_only_db :: journal_db where
  "visits_only_db = snd (InitSchema no_tab_state empty_db)"

lemma failed_open_keeps_recording_witness:
  "Open True no_tab_state True True no_tab_state None = (False, Some visits_only_db) \<and>
   visit_log (fst (run_tasks (\<lambda>_. good_env) [Append_task ''tab'' ''https://a.test/'' 5, Clear_task 0 int64_max (1::nat)]
     (Some visits_only_db))) = [(''tab'', ''https://a.test/'', 5)]"
proof -
  have o: "Open True no_tab_state True True no_tab_state None = (False, Some visits_only_db)"
    by (simp add: Open_def visits_only_db_def no_tab_state_def all_init_ok_def InitSchema_def empty_db_def meta_Init_def
        create_visits_def kCurrentVersion_def kCompatibleVersion_def Let_def)
  have d: "visits_cols visits_only_db = Some True" "\<not> has_tab_state visits_only_db" "visit_log (Some visits_only_db) = []"
    by (simp_all add: visits_only_db_def no_tab_state_def all_init_ok_def InitSchema_def empty_db_def meta_Init_def
        create_visits_def kCurrentVersion_def kCompatibleVersion_def visit_log_def ReadAll_def Let_def)
  have "store_wf None" by (simp add: store_wf_def)
  from failed_open_keeps_recording [OF o d(1,2) this,
      of "[Append_task ''tab'' ''https://a.test/'' 5, Clear_task 0 int64_max (1::nat)]" "\<lambda>_. good_env"] o
  show ?thesis by (simp add: d(3) good_env_def txn_ok_def all_ok_def kMaxVisits_def last_n_def)
qed

end
