(* ===== verification/Tab_Uid.thy ===== *)
theory Tab_Uid
  imports Prelude
begin

text \<open>
  Durable tab identities: \<open>roamux/browser/tabs/tab_uid_service.cc\<close> (the per-profile registry with its
  two maps) and \<open>tab_uid_tab_helper.cc\<close> (the per-\<open>WebContents\<close> helper that adopts, carries, stamps and
  frees a uid).

  \<open>base::Uuid\<close> is Chromium code: the next random uid is the argument \<open>fresh\<close> of the operations that
  mint, and \<open>parse_ok\<close> is \<open>base::Uuid::ParseLowercase(...).is_valid()\<close>.
\<close>

type_synonym tab_id = int

record uid_service =
  uid_by_tab :: "tab_id \<rightharpoonup> uid"
  tab_by_uid :: "uid \<rightharpoonup> tab_id"

definition new_uid_service :: uid_service where
  "new_uid_service = \<lparr>uid_by_tab = Map.empty, tab_by_uid = Map.empty\<rparr>"

definition IsLive :: "uid_service \<Rightarrow> uid \<Rightarrow> bool" where
  "IsLive s u \<longleftrightarrow> u \<in> dom (tab_by_uid s)"

definition GetUidForTab :: "uid_service \<Rightarrow> tab_id \<Rightarrow> uid option" where
  "GetUidForTab s t = uid_by_tab s t"

definition Unregister :: "tab_id \<Rightarrow> uid_service \<Rightarrow> uid_service" where
  "Unregister t s =
     (case uid_by_tab s t of
        None \<Rightarrow> s
      | Some u \<Rightarrow> s\<lparr>tab_by_uid := (tab_by_uid s)(u := None),
                    uid_by_tab := (uid_by_tab s)(t := None)\<rparr>)"

definition register :: "tab_id \<Rightarrow> uid \<Rightarrow> uid_service \<Rightarrow> uid_service" where
  "register t u s = s\<lparr>uid_by_tab := (uid_by_tab s)(t \<mapsto> u), tab_by_uid := (tab_by_uid s)(u \<mapsto> t)\<rparr>"

definition MintAndRegister :: "uid \<Rightarrow> tab_id \<Rightarrow> uid_service \<Rightarrow> uid \<times> uid_service" where
  "MintAndRegister fresh t s = (fresh, register t fresh (Unregister t s))"

definition AdoptOrRestamp ::
  "(uid \<Rightarrow> bool) \<Rightarrow> uid \<Rightarrow> tab_id \<Rightarrow> uid \<Rightarrow> uid_service \<Rightarrow> uid \<times> uid_service" where
  "AdoptOrRestamp parse_ok fresh t restored s =
     (let well_formed = parse_ok restored
      in if \<not> well_formed \<or> IsLive s restored then MintAndRegister fresh t s
         else (restored, register t restored (Unregister t s)))"

subsection \<open>The helper\<close>

text \<open>
  A \<open>WebContents\<close> is the record of the user data the helper reads and writes, its session tab id and
  whether its profile is off the record. The session service is the list of \<open>AddTabExtraData\<close> calls
  it received, None when the profile has none.
\<close>


record uid_helper =
  helper_tab_id :: tab_id
  helper_uid :: uid

record uid_contents =
  session_tab_id :: tab_id
  pending_uid :: "uid option"
  uid_data :: "uid_helper option"

record uid_world =
  registry :: uid_service
  contents :: "wc_id \<rightharpoonup> uid_contents"
  off_the_record :: bool
  session_log :: "(tab_id \<times> string \<times> string) list option"

definition kUidKey :: string where "kUidKey = ''roamux.tab_uid''"

definition FeatureOn :: "bool \<Rightarrow> bool \<Rightarrow> bool" where
  "FeatureOn kInitialUrl kTabVisitNav \<longleftrightarrow> kInitialUrl \<or> kTabVisitNav"

definition Take :: "uid_contents \<Rightarrow> uid \<times> uid_contents" where
  "Take c = (case pending_uid c of None \<Rightarrow> ([], c) | Some u \<Rightarrow> (u, c\<lparr>pending_uid := None\<rparr>))"

definition Stamp :: "tab_id \<Rightarrow> uid \<Rightarrow> uid_world \<Rightarrow> uid_world" where
  "Stamp t u w =
     (if off_the_record w then w
      else case session_log w of
             None \<Rightarrow> w
           | Some l \<Rightarrow> w\<lparr>session_log := Some (l @ [(t, kUidKey, u)])\<rparr>)"

text \<open>The constructor of \<open>TabUidTabHelper\<close>, attached as the user data of \<open>wc\<close>.\<close>

definition acquire :: "(uid \<Rightarrow> bool) \<Rightarrow> uid \<Rightarrow> tab_id \<Rightarrow> uid \<Rightarrow> uid_service \<Rightarrow> uid \<times> uid_service" where
  "acquire parse_ok fresh t pending s =
     (if pending = [] then MintAndRegister fresh t s else AdoptOrRestamp parse_ok fresh t pending s)"

definition attach_helper :: "(uid \<Rightarrow> bool) \<Rightarrow> uid \<Rightarrow> wc_id \<Rightarrow> uid_contents \<Rightarrow> uid_world \<Rightarrow> uid_world" where
  "attach_helper parse_ok fresh wc c w =
     (let t = session_tab_id c;
          (pending, c1) = Take c;
          (u, reg) = acquire parse_ok fresh t pending (registry w)
      in Stamp t u (w\<lparr>registry := reg,
           contents := (contents w)(wc \<mapsto> c1\<lparr>uid_data := Some \<lparr>helper_tab_id = t, helper_uid = u\<rparr>\<rparr>)\<rparr>))"

definition MaybeCreateForTab ::
  "bool \<Rightarrow> (uid \<Rightarrow> bool) \<Rightarrow> uid \<Rightarrow> wc_id \<Rightarrow> uid_world \<Rightarrow> uid_world" where
  "MaybeCreateForTab feature parse_ok fresh wc w =
     (if \<not> feature then w
      else case contents w wc of
             None \<Rightarrow> w
           | Some c \<Rightarrow> if uid_data c \<noteq> None then w else attach_helper parse_ok fresh wc c w)"

definition WillDiscardContents ::
  "(uid \<Rightarrow> bool) \<Rightarrow> uid \<Rightarrow> wc_id \<Rightarrow> wc_id \<Rightarrow> uid_world \<Rightarrow> uid_world" where
  "WillDiscardContents parse_ok fresh old_wc new_wc w =
     (case contents w old_wc of
        None \<Rightarrow> w
      | Some oc \<Rightarrow>
          (case (uid_data oc, contents w new_wc) of
             (Some h, Some nc) \<Rightarrow>
               let w1 = w\<lparr>registry := Unregister (helper_tab_id h) (registry w)\<rparr>
               in attach_helper parse_ok fresh new_wc (nc\<lparr>pending_uid := Some (helper_uid h)\<rparr>) w1
           | _ \<Rightarrow> w))"

definition PopulateExtraData :: "wc_id \<Rightarrow> uid_world \<Rightarrow> (string \<rightharpoonup> string) \<Rightarrow> (string \<rightharpoonup> string)" where
  "PopulateExtraData wc w extra =
     (case contents w wc of
        None \<Rightarrow> extra
      | Some c \<Rightarrow> (case uid_data c of
                    None \<Rightarrow> extra
                  | Some h \<Rightarrow> if helper_uid h = [] then extra else extra(kUidKey \<mapsto> helper_uid h)))"

definition SetPendingRestoredUid ::
  "bool \<Rightarrow> wc_id \<Rightarrow> (string \<rightharpoonup> string) \<Rightarrow> uid_world \<Rightarrow> uid_world" where
  "SetPendingRestoredUid feature wc extra w =
     (if \<not> feature then w
      else case extra kUidKey of
             None \<Rightarrow> w
           | Some u \<Rightarrow>
               if u = [] then w
               else (case contents w wc of
                       None \<Rightarrow> w
                     | Some c \<Rightarrow> w\<lparr>contents := (contents w)(wc \<mapsto> c\<lparr>pending_uid := Some u\<rparr>)\<rparr>))"

text \<open>Destroying a \<open>WebContents\<close> runs the helper's destructor, which unregisters the cached tab id.\<close>

definition destroy_contents :: "wc_id \<Rightarrow> uid_world \<Rightarrow> uid_world" where
  "destroy_contents wc w =
     (case contents w wc of
        None \<Rightarrow> w
      | Some c \<Rightarrow>
          let reg = (case uid_data c of
                       None \<Rightarrow> registry w
                     | Some h \<Rightarrow> Unregister (helper_tab_id h) (registry w))
          in w\<lparr>registry := reg, contents := (contents w)(wc := None)\<rparr>)"

subsection \<open>The registry's invariant\<close>

definition registry_inv :: "uid_service \<Rightarrow> bool" where
  "registry_inv s \<longleftrightarrow> (\<forall>t u. uid_by_tab s t = Some u \<longleftrightarrow> tab_by_uid s u = Some t)"

lemma registry_invD: "registry_inv s \<Longrightarrow> uid_by_tab s t = Some u \<longleftrightarrow> tab_by_uid s u = Some t"
  by (simp add: registry_inv_def)

lemma new_uid_service_inv [simp]: "registry_inv new_uid_service"
  by (simp add: registry_inv_def new_uid_service_def)

lemma uid_by_tab_Unregister [simp]: "uid_by_tab (Unregister t s) = (uid_by_tab s)(t := None)"
  by (auto simp: Unregister_def fun_eq_iff split: option.split)

lemma tab_by_uid_Unregister:
  "registry_inv s \<Longrightarrow> tab_by_uid (Unregister t s) u = (if tab_by_uid s u = Some t then None else tab_by_uid s u)"
  using registry_invD [of s t u] by (cases "uid_by_tab s t") (auto simp: Unregister_def)

lemma Unregister_inv [inv_intros]: "registry_inv s \<Longrightarrow> registry_inv (Unregister t s)"
  unfolding registry_inv_def [of "Unregister t s"]
  by (auto simp: tab_by_uid_Unregister registry_invD)

lemma register_inv:
  "registry_inv s \<Longrightarrow> uid_by_tab s t = None \<Longrightarrow> tab_by_uid s u = None \<Longrightarrow> registry_inv (register t u s)"
  unfolding registry_inv_def register_def by simp (metis option.distinct(1) option.inject)

lemma not_live_Unregister:
  "registry_inv s \<Longrightarrow> \<not> IsLive s u \<Longrightarrow> tab_by_uid (Unregister t s) u = None"
  by (auto simp: IsLive_def tab_by_uid_Unregister)

lemma Mint_inv [inv_intros]:
  "registry_inv s \<Longrightarrow> \<not> IsLive s fresh \<Longrightarrow> registry_inv (snd (MintAndRegister fresh t s))"
  by (simp add: MintAndRegister_def register_inv Unregister_inv not_live_Unregister)

lemma Adopt_inv [inv_intros]:
  "registry_inv s \<Longrightarrow> \<not> IsLive s fresh \<Longrightarrow> registry_inv (snd (AdoptOrRestamp parse_ok fresh t u s))"
  by (auto simp: AdoptOrRestamp_def Let_def register_inv Unregister_inv not_live_Unregister Mint_inv)

lemma registered [simp]:
  "uid_by_tab (register t u s) t' = (if t' = t then Some u else uid_by_tab s t')"
  "tab_by_uid (register t u s) u' = (if u' = u then Some t else tab_by_uid s u')"
  by (simp_all add: register_def)

lemma uid_by_tab_Mint: "uid_by_tab (snd (MintAndRegister fresh t s)) t' = (if t' = t then Some fresh else uid_by_tab s t')"
  by (simp add: MintAndRegister_def)

lemma uid_by_tab_Adopt:
  "uid_by_tab (snd (AdoptOrRestamp parse_ok fresh t u s)) t' =
     (if t' = t then Some (fst (AdoptOrRestamp parse_ok fresh t u s)) else uid_by_tab s t')"
  by (simp add: AdoptOrRestamp_def MintAndRegister_def Let_def)

text \<open>
  Adopting a restored uid. A well-formed uid that no tab holds is adopted; a malformed one, or
  one that is live, is replaced by the fresh mint and the incumbent keeps it, unless the incumbent
  is the very tab that adopts: that tab loses the uid it holds and gets the fresh one.
\<close>

theorem AdoptOrRestamp_cases:
  assumes "registry_inv s" and "\<not> IsLive s fresh"
    and "(eff, s') = AdoptOrRestamp parse_ok fresh t u s"
  shows "eff = (if parse_ok u \<and> \<not> IsLive s u then u else fresh) \<and> registry_inv s' \<and>
         uid_by_tab s' t = Some eff \<and> (\<forall>t'. t' \<noteq> t \<longrightarrow> uid_by_tab s' t' = uid_by_tab s t') \<and>
         (uid_by_tab s t = Some u \<longrightarrow> \<not> IsLive s' u)"
proof -
  have s': "s' = snd (AdoptOrRestamp parse_ok fresh t u s)" and eff: "eff = fst (AdoptOrRestamp parse_ok fresh t u s)"
    using assms(3) [symmetric] by simp_all
  have "uid_by_tab s t = Some u \<longrightarrow> \<not> IsLive s' u"
    using assms(1,2) registry_invD [OF assms(1), of t u]
    by (cases "u = fresh") (auto simp: s' AdoptOrRestamp_def MintAndRegister_def IsLive_def
        tab_by_uid_Unregister split: if_splits)
  then show ?thesis
    using Adopt_inv [OF assms(1,2)]
    by (simp add: s' eff uid_by_tab_Adopt AdoptOrRestamp_def MintAndRegister_def)
qed

lemma AdoptOrRestamp_cases_witness:
  "fst (AdoptOrRestamp (\<lambda>_. True) ''f'' 1 ''a'' (snd (MintAndRegister ''a'' 1 new_uid_service))) = ''f''"
  using AdoptOrRestamp_cases [of "snd (MintAndRegister ''a'' 1 new_uid_service)" "''f''" _ _ "\<lambda>_. True" 1 "''a''",
      OF _ _ prod.collapse]
  by (auto simp: Mint_inv IsLive_def MintAndRegister_def new_uid_service_def Unregister_def
      registry_inv_def register_def split: if_splits)

subsection \<open>The helpers as a state machine\<close>

text \<open>
  The browser's events, with the set of contents that were discarded and wait to be destroyed.
  Session tab ids are unique among contents; a mint is a well-formed uid and never a live one.
\<close>

definition tab_ids_unique :: "uid_world \<Rightarrow> bool" where
  "tab_ids_unique w \<longleftrightarrow> (\<forall>a b c d. contents w a = Some c \<longrightarrow> contents w b = Some d \<longrightarrow>
     session_tab_id c = session_tab_id d \<longrightarrow> a = b)"

inductive uid_step ::
  "(uid \<Rightarrow> bool) \<Rightarrow> uid_world \<times> wc_id set \<Rightarrow> uid_world \<times> wc_id set \<Rightarrow> bool" for parse_ok where
  create: "contents w wc = None \<Longrightarrow> \<forall>a c. contents w a = Some c \<longrightarrow> session_tab_id c \<noteq> t \<Longrightarrow>
     uid_step parse_ok (w, D)
       (w\<lparr>contents := (contents w)(wc \<mapsto> \<lparr>session_tab_id = t, pending_uid = None, uid_data = None\<rparr>)\<rparr>, D)"
| attach: "\<not> IsLive (registry w) fresh \<Longrightarrow> parse_ok fresh \<Longrightarrow>
     uid_step parse_ok (w, D) (MaybeCreateForTab feature parse_ok fresh wc w, D)"
| restore: "uid_step parse_ok (w, D) (SetPendingRestoredUid feature wc extra w, D)"
| discard: "\<not> IsLive (registry w) fresh \<Longrightarrow> parse_ok fresh \<Longrightarrow> contents w new_wc = Some nc \<Longrightarrow> uid_data nc = None \<Longrightarrow>
     contents w old_wc = Some oc \<Longrightarrow> uid_data oc = Some h \<Longrightarrow> old_wc \<notin> D \<Longrightarrow>
     uid_step parse_ok (w, D) (WillDiscardContents parse_ok fresh old_wc new_wc w, insert old_wc D)"
| destroy: "uid_step parse_ok (w, D) (destroy_contents wc w, D - {wc})"

definition uid_start :: "bool \<Rightarrow> (tab_id \<times> string \<times> string) list option \<Rightarrow> uid_world" where
  "uid_start otr l = \<lparr>registry = new_uid_service, contents = Map.empty, off_the_record = otr, session_log = l\<rparr>"

definition uid_reachable ::
  "(uid \<Rightarrow> bool) \<Rightarrow> bool \<Rightarrow> (tab_id \<times> string \<times> string) list option \<Rightarrow> uid_world \<Rightarrow> wc_id set \<Rightarrow> bool" where
  "uid_reachable parse_ok otr l w D \<longleftrightarrow> (uid_step parse_ok)\<^sup>*\<^sup>* (uid_start otr l, {}) (w, D)"

definition held :: "uid_world \<Rightarrow> wc_id \<Rightarrow> tab_id \<Rightarrow> uid \<Rightarrow> bool" where
  "held w wc t u \<longleftrightarrow> (\<exists>c. contents w wc = Some c \<and> uid_data c = Some \<lparr>helper_tab_id = t, helper_uid = u\<rparr>)"

definition uid_world_inv :: "uid_world \<Rightarrow> wc_id set \<Rightarrow> bool" where
  "uid_world_inv w D \<longleftrightarrow>
     registry_inv (registry w) \<and> tab_ids_unique w \<and>
     (\<forall>wc t u. held w wc t u \<longrightarrow>
        (\<exists>c. contents w wc = Some c \<and> session_tab_id c = t) \<and>
        uid_by_tab (registry w) t = (if wc \<in> D then None else Some u))"

lemma Stamp_frame [simp]:
  "registry (Stamp t u w) = registry w" "contents (Stamp t u w) = contents w"
  by (simp_all add: Stamp_def split: option.split)

lemma attach_helper_eq:
  "attach_helper parse_ok fresh wc c w =
     (let A = acquire parse_ok fresh (session_tab_id c) (fst (Take c)) (registry w)
      in Stamp (session_tab_id c) (fst A) (w\<lparr>registry := snd A,
           contents := (contents w)(wc \<mapsto> (snd (Take c))\<lparr>uid_data :=
              Some \<lparr>helper_tab_id = session_tab_id c, helper_uid = fst A\<rparr>\<rparr>)\<rparr>))"
  by (simp add: attach_helper_def Let_def split: prod.split)

lemma uid_by_tab_acquire:
  "uid_by_tab (snd (acquire parse_ok fresh t p s)) t' =
     (if t' = t then Some (fst (acquire parse_ok fresh t p s)) else uid_by_tab s t')"
  by (simp add: acquire_def uid_by_tab_Adopt uid_by_tab_Mint) (simp add: MintAndRegister_def)

lemma acquire_inv [inv_intros]:
  "registry_inv s \<Longrightarrow> \<not> IsLive s fresh \<Longrightarrow> registry_inv (snd (acquire parse_ok fresh t p s))"
  by (simp add: acquire_def Mint_inv Adopt_inv)

lemma session_tab_id_Take [simp]: "session_tab_id (snd (Take c)) = session_tab_id c"
  by (simp add: Take_def split: option.split)

lemma tab_ids_unique_upd:
  "tab_ids_unique w \<Longrightarrow> contents w wc = Some c \<Longrightarrow> session_tab_id c' = session_tab_id c \<Longrightarrow>
   contents w' = (contents w)(wc \<mapsto> c') \<Longrightarrow> tab_ids_unique w'"
  unfolding tab_ids_unique_def by (simp split: if_splits) metis

lemma held_other: "contents w' b = contents w b \<Longrightarrow> held w' b t u = held w b t u"
  by (simp add: held_def)

text \<open>Attaching a helper to contents that have none keeps the invariant.\<close>

lemma attach_inv [inv_intros]:
  assumes inv: "uid_world_inv w D" and c0: "contents w wc = Some c0" "uid_data c0 = None"
    and c: "session_tab_id c = session_tab_id c0" and fresh: "\<not> IsLive (registry w) fresh"
    and wc: "wc \<notin> D"
  shows "uid_world_inv (attach_helper parse_ok fresh wc c w) D"
proof -
  let ?w = "attach_helper parse_ok fresh wc c w"
  define A where "A = acquire parse_ok fresh (session_tab_id c) (fst (Take c)) (registry w)"
  let ?c = "(snd (Take c))\<lparr>uid_data := Some \<lparr>helper_tab_id = session_tab_id c, helper_uid = fst A\<rparr>\<rparr>"
  have conts: "contents ?w = (contents w)(wc \<mapsto> ?c)" and reg: "registry ?w = snd A"
    by (simp_all add: attach_helper_eq A_def Let_def)
  have uid: "uid_by_tab (snd A) t = (if t = session_tab_id c0 then Some (fst A) else uid_by_tab (registry w) t)" for t
    by (simp add: A_def uid_by_tab_acquire c)
  have "registry_inv (registry ?w)"
    using inv fresh by (simp add: reg A_def acquire_inv uid_world_inv_def)
  moreover have "tab_ids_unique ?w"
    by (rule tab_ids_unique_upd [OF _ c0(1) _ conts])
       (use inv c in \<open>simp_all add: uid_world_inv_def\<close>)
  moreover have "(\<exists>c. contents ?w b = Some c \<and> session_tab_id c = t) \<and>
      uid_by_tab (registry ?w) t = (if b \<in> D then None else Some u)" if h: "held ?w b t u" for b t u
  proof (cases "b = wc")
    case True
    then show ?thesis using h wc c by (auto simp: held_def conts reg uid)
  next
    case False
    then have hb: "held w b t u" using h by (simp add: held_def conts)
    then obtain d where d: "contents w b = Some d" "session_tab_id d = t"
      using inv unfolding uid_world_inv_def by blast
    then have "t \<noteq> session_tab_id c0"
      using False inv c0 by (auto simp: uid_world_inv_def tab_ids_unique_def)
    then show ?thesis using hb d inv False by (auto simp: uid_world_inv_def conts reg uid)
  qed
  ultimately show ?thesis by (simp add: uid_world_inv_def)
qed


lemma unregister_inv:
  assumes inv: "uid_world_inv w D" and h: "held w wc t u"
  shows "uid_world_inv (w\<lparr>registry := Unregister t (registry w)\<rparr>) (insert wc D)"
proof -
  let ?w = "w\<lparr>registry := Unregister t (registry w)\<rparr>"
  obtain c where c: "contents w wc = Some c" "session_tab_id c = t"
    using inv h unfolding uid_world_inv_def by blast
  have "(\<exists>c. contents ?w b = Some c \<and> session_tab_id c = t') \<and>
      uid_by_tab (registry ?w) t' = (if b \<in> insert wc D then None else Some u')"
    if hb: "held ?w b t' u'" for b t' u'
  proof -
    have hw: "held w b t' u'" using hb by (simp add: held_def)
    then obtain d where d: "contents w b = Some d" "session_tab_id d = t'"
      using inv unfolding uid_world_inv_def by blast
    have "t' = t \<longleftrightarrow> b = wc"
    proof
      assume "t' = t"
      then show "b = wc"
        using inv c d unfolding uid_world_inv_def tab_ids_unique_def by blast
    next
      assume "b = wc"
      then show "t' = t" using c d by simp
    qed
    then show ?thesis using hw d inv unfolding uid_world_inv_def by auto
  qed
  then show ?thesis
    using inv by (simp add: uid_world_inv_def Unregister_inv tab_ids_unique_def)
qed

lemma destroy_inv [inv_intros]:
  assumes inv: "uid_world_inv w D"
  shows "uid_world_inv (destroy_contents wc w) (D - {wc})"
proof -
  have drop: "uid_world_inv (w'\<lparr>contents := (contents w')(wc := None)\<rparr>) (D' - {wc})"
    if "uid_world_inv w' D'" for w' D'
    using that unfolding uid_world_inv_def tab_ids_unique_def held_def
    by (auto split: if_splits)
  show ?thesis
  proof (cases "contents w wc")
    case None
    then have "w\<lparr>contents := (contents w)(wc := None)\<rparr> = w" by (simp add: fun_upd_idem)
    then show ?thesis using None drop [OF inv] by (simp add: destroy_contents_def)
  next
    case c: (Some c)
    show ?thesis
    proof (cases "uid_data c")
      case None
      then show ?thesis using c drop [OF inv] by (simp add: destroy_contents_def)
    next
      case (Some h)
      then have "held w wc (helper_tab_id h) (helper_uid h)" using c by (simp add: held_def)
      from drop [OF unregister_inv [OF inv this]] show ?thesis
        using c Some by (simp add: destroy_contents_def)
    qed
  qed
qed

lemma discard_inv [inv_intros]:
  assumes inv: "uid_world_inv w D" and fresh: "\<not> IsLive (registry w) fresh"
    and nc: "contents w new_wc = Some nc" "uid_data nc = None" "new_wc \<notin> D"
    and oc: "contents w old_wc = Some oc" "uid_data oc = Some h"
  shows "uid_world_inv (WillDiscardContents parse_ok fresh old_wc new_wc w) (insert old_wc D)"
proof -
  let ?w = "w\<lparr>registry := Unregister (helper_tab_id h) (registry w)\<rparr>"
  have "held w old_wc (helper_tab_id h) (helper_uid h)" using oc by (simp add: held_def)
  then have i: "uid_world_inv ?w (insert old_wc D)" by (rule unregister_inv [OF inv])
  have "\<not> IsLive (registry ?w) fresh"
    using fresh inv by (auto simp: IsLive_def tab_by_uid_Unregister uid_world_inv_def split: if_splits)
  moreover have "new_wc \<notin> insert old_wc D" using nc oc by auto
  ultimately have "uid_world_inv
      (attach_helper parse_ok fresh new_wc (nc\<lparr>pending_uid := Some (helper_uid h)\<rparr>) ?w) (insert old_wc D)"
    using nc by (intro attach_inv [OF i]) simp_all
  then show ?thesis using nc oc by (simp add: WillDiscardContents_def Let_def)
qed

text \<open>Discarded contents still carry their helper.\<close>

definition discarded_held :: "uid_world \<Rightarrow> wc_id set \<Rightarrow> bool" where
  "discarded_held w D \<longleftrightarrow> (\<forall>wc \<in> D. \<exists>t u. held w wc t u)"

lemma discarded_heldD: "discarded_held w D \<Longrightarrow> contents w wc = Some c \<Longrightarrow> uid_data c = None \<Longrightarrow> wc \<notin> D"
  by (auto simp: discarded_held_def held_def)

lemma contents_attach:
  "contents (attach_helper parse_ok fresh wc c w) b = (if b = wc
     then Some ((snd (Take c))\<lparr>uid_data := Some \<lparr>helper_tab_id = session_tab_id c,
       helper_uid = fst (acquire parse_ok fresh (session_tab_id c) (fst (Take c)) (registry w))\<rparr>\<rparr>)
     else contents w b)"
  by (simp add: attach_helper_eq Let_def)

lemma pending_frame:
  assumes "contents w wc = Some c" and "w' = w\<lparr>contents := (contents w)(wc \<mapsto> c\<lparr>pending_uid := p\<rparr>)\<rparr>"
  shows "uid_world_inv w' D = uid_world_inv w D" and "discarded_held w' D = discarded_held w D"
proof -
  have h: "held w' = held w" using assms by (auto simp: held_def fun_eq_iff)
  have s: "(\<exists>d. contents w' b = Some d \<and> session_tab_id d = t) \<longleftrightarrow>
      (\<exists>d. contents w b = Some d \<and> session_tab_id d = t)" for b t
    using assms by auto
  have u: "tab_ids_unique w' \<longleftrightarrow> tab_ids_unique w"
  proof -
    have "tab_ids_unique v \<longleftrightarrow> (\<forall>a b t. (\<exists>d. contents v a = Some d \<and> session_tab_id d = t) \<longrightarrow>
        (\<exists>d. contents v b = Some d \<and> session_tab_id d = t) \<longrightarrow> a = b)" for v
      unfolding tab_ids_unique_def by blast
    then show ?thesis by (simp only: s)
  qed
  show "uid_world_inv w' D = uid_world_inv w D"
    unfolding uid_world_inv_def h s u by (simp add: assms(2))
  show "discarded_held w' D = discarded_held w D"
    unfolding discarded_held_def h ..
qed

lemma uid_step_inv:
  "uid_step parse_ok (w, D) (w', D') \<Longrightarrow> uid_world_inv w D \<and> discarded_held w D \<Longrightarrow>
     uid_world_inv w' D' \<and> discarded_held w' D'"
proof (induction "(w, D)" "(w', D')" arbitrary: w D w' D' rule: uid_step.induct)
  case (create w wc t D)
  then show ?case
    unfolding uid_world_inv_def tab_ids_unique_def discarded_held_def held_def
    by (auto split: if_splits)
next
  case (attach w fresh D feature wc)
  show ?case
  proof (cases "\<exists>c. feature \<and> contents w wc = Some c \<and> uid_data c = None")
    case True
    then obtain c where c: "feature" "contents w wc = Some c" "uid_data c = None" by blast
    then have "MaybeCreateForTab feature parse_ok fresh wc w = attach_helper parse_ok fresh wc c w"
      by (simp add: MaybeCreateForTab_def)
    then show ?thesis
      using attach attach_inv [of w D wc c c fresh parse_ok] c discarded_heldD [of w D wc c]
      by (auto simp: discarded_held_def held_def contents_attach)
  next
    case False
    then have "MaybeCreateForTab feature parse_ok fresh wc w = w"
      by (auto simp: MaybeCreateForTab_def split: option.split)
    then show ?thesis using attach by simp
  qed
next
  case (restore w D feature wc extra)
  have "SetPendingRestoredUid feature wc extra w = w \<or>
      (\<exists>c p. contents w wc = Some c \<and> SetPendingRestoredUid feature wc extra w =
         w\<lparr>contents := (contents w)(wc \<mapsto> c\<lparr>pending_uid := p\<rparr>)\<rparr>)"
    by (auto simp: SetPendingRestoredUid_def split: option.split)
  then show ?case
    using restore pending_frame [of w wc] by (elim disjE exE conjE) simp_all
next
  case (discard w fresh new_wc nc old_wc oc h D)
  then have "new_wc \<notin> D" using discarded_heldD by blast
  moreover have "discarded_held (WillDiscardContents parse_ok fresh old_wc new_wc w) (insert old_wc D)"
    using discard by (cases h) (auto simp: discarded_held_def WillDiscardContents_def Let_def held_def
        contents_attach)
  ultimately show ?case using discard discard_inv by blast
next
  case (destroy w D wc)
  then show ?case using destroy_inv
    by (auto simp: discarded_held_def held_def destroy_contents_def Let_def split: option.split)
qed

lemma uid_reachable_inv: "uid_reachable parse_ok otr l w D \<Longrightarrow> uid_world_inv w D"
proof -
  assume "uid_reachable parse_ok otr l w D"
  then have "(uid_step parse_ok)\<^sup>*\<^sup>* (uid_start otr l, {}) (w, D)" by (simp add: uid_reachable_def)
  then have "uid_world_inv w D \<and> discarded_held w D"
  proof (induction "(w, D)" arbitrary: w D rule: rtranclp_induct)
    case base
    then show ?case
      by (simp add: uid_start_def uid_world_inv_def held_def tab_ids_unique_def discarded_held_def)
  next
    case (step y)
    obtain w0 D0 where y: "y = (w0, D0)" by (cases y)
    show ?case using uid_step_inv [OF step(2) [unfolded y]] step(3) [OF y] by simp
  qed
  then show ?thesis ..
qed

lemma held_distinct:
  assumes "uid_world_inv w D" and "held w a t u" and "held w b t' u'" and "a \<notin> D" and "b \<notin> D" and "a \<noteq> b"
  shows "u \<noteq> u'" and "uid_by_tab (registry w) t = Some u" and "t \<noteq> t'"
proof -
  show t: "uid_by_tab (registry w) t = Some u" using assms unfolding uid_world_inv_def by presburger
  have t': "uid_by_tab (registry w) t' = Some u'" using assms unfolding uid_world_inv_def by presburger
  show "t \<noteq> t'"
    using assms unfolding uid_world_inv_def tab_ids_unique_def by blast
  then show "u \<noteq> u'"
    using t t' assms(1) registry_invD [of "registry w"] by (auto simp: uid_world_inv_def)
qed

text \<open>Every uid a helper shows is well formed: adopted ones are checked, minted ones come so.\<close>

definition uids_well_formed :: "(uid \<Rightarrow> bool) \<Rightarrow> uid_world \<Rightarrow> bool" where
  "uids_well_formed parse_ok w \<longleftrightarrow> (\<forall>wc t u. held w wc t u \<longrightarrow> parse_ok u)"

lemma acquired_well_formed: "parse_ok fresh \<Longrightarrow> parse_ok (fst (acquire parse_ok fresh t p s))"
  by (simp add: acquire_def AdoptOrRestamp_def MintAndRegister_def)

lemma attach_well_formed:
  "uids_well_formed parse_ok w \<Longrightarrow> parse_ok fresh \<Longrightarrow> uids_well_formed parse_ok (attach_helper parse_ok fresh wc c w)"
  by (auto simp: uids_well_formed_def held_def contents_attach acquired_well_formed split: if_splits)

lemma fewer_well_formed:
  "uids_well_formed parse_ok w \<Longrightarrow> (\<And>wc t u. held w' wc t u \<Longrightarrow> held w wc t u) \<Longrightarrow> uids_well_formed parse_ok w'"
  unfolding uids_well_formed_def by blast

lemma uid_step_well_formed:
  assumes "uid_step parse_ok x y" and "uids_well_formed parse_ok (fst x)"
  shows "uids_well_formed parse_ok (fst y)"
  using assms
proof (induction rule: uid_step.induct)
  case (create w wc t D)
  then show ?case by (simp, elim fewer_well_formed) (auto simp: held_def split: if_splits)
next
  case (attach w fresh D feature wc)
  then show ?case by (auto simp: MaybeCreateForTab_def intro: attach_well_formed split: option.split)
next
  case (restore w D feature wc extra)
  then show ?case
    by (simp, elim fewer_well_formed) (auto simp: SetPendingRestoredUid_def held_def split: option.splits if_splits)
next
  case (discard w fresh new_wc nc old_wc oc h D)
  then show ?case
    by (simp add: WillDiscardContents_def Let_def)
      (intro attach_well_formed, auto elim!: fewer_well_formed simp: held_def)
next
  case (destroy w D wc)
  then show ?case
    by (simp, elim fewer_well_formed) (auto simp: destroy_contents_def held_def Let_def split: option.splits if_splits)
qed

lemma reachable_well_formed: "uid_reachable parse_ok otr l w D \<Longrightarrow> uids_well_formed parse_ok w"
proof -
  assume "uid_reachable parse_ok otr l w D"
  then have "(uid_step parse_ok)\<^sup>*\<^sup>* (uid_start otr l, {}) (w, D)" by (simp add: uid_reachable_def)
  then have "uids_well_formed parse_ok (fst (w, D))"
    by (induction rule: rtranclp_induct)
      (simp add: uids_well_formed_def uid_start_def held_def, rule uid_step_well_formed)
  then show ?thesis by simp
qed

text \<open>
  C14: the identity contract. In every state reachable by creating, attaching, restoring, discarding
  and destroying tabs, each tab that is not a discarded leftover is registered under the uid its
  helper shows, and two different such tabs never share a uid.
\<close>

theorem live_tabs_have_distinct_uids:
  assumes "uid_reachable parse_ok otr l w D"
    and "held w a t u" and "held w b t' u'" and "a \<notin> D" and "b \<notin> D" and "a \<noteq> b"
  shows "u \<noteq> u' \<and> GetUidForTab (registry w) t = Some u \<and> IsLive (registry w) u"
proof -
  have inv: "uid_world_inv w D" using assms(1) by (rule uid_reachable_inv)
  then have "registry_inv (registry w)" by (simp add: uid_world_inv_def)
  with held_distinct [OF inv assms(2-6)] show ?thesis
    by (auto simp: GetUidForTab_def IsLive_def registry_invD)
qed

definition contents_of :: "tab_id \<Rightarrow> uid_contents" where
  "contents_of t = \<lparr>session_tab_id = t, pending_uid = None, uid_data = None\<rparr>"

text \<open>
  A uid survives a discard. The replacement contents adopt the uid of the discarded tab, and the
  later destruction of the old contents does not free it.
\<close>

theorem discard_keeps_uid:
  assumes "uid_world_inv w D" and "old_wc \<notin> D" and "held w old_wc t u" and "parse_ok u" and "u \<noteq> []"
    and "contents w new_wc = Some nc" and "uid_data nc = None" and "new_wc \<notin> D"
    and "\<not> IsLive (registry w) fresh"
    and w': "w' = destroy_contents old_wc (WillDiscardContents parse_ok fresh old_wc new_wc w)"
  shows "held w' new_wc (session_tab_id nc) u \<and> IsLive (registry w') u \<and>
         uid_by_tab (registry w') (session_tab_id nc) = Some u"
proof -
  obtain oc where oc: "contents w old_wc = Some oc" "uid_data oc = Some \<lparr>helper_tab_id = t, helper_uid = u\<rparr>"
    using assms(3) by (auto simp: held_def)
  have inv: "registry_inv (registry w)" and tu: "uid_by_tab (registry w) t = Some u"
    using assms(1,2,3) by (auto simp: uid_world_inv_def)
  let ?w1 = "w\<lparr>registry := Unregister t (registry w)\<rparr>"
  have free: "\<not> IsLive (registry ?w1) u"
    using inv tu by (simp add: IsLive_def tab_by_uid_Unregister registry_invD [symmetric] domIff)
  have ne: "old_wc \<noteq> new_wc" using oc assms(6,7) by auto
  have acq: "fst (acquire parse_ok fresh (session_tab_id nc) u (registry ?w1)) = u"
    using assms(4,5) free by (simp add: acquire_def AdoptOrRestamp_def)
  have i: "uid_world_inv w' (insert old_wc D - {old_wc})"
    unfolding w' by (rule destroy_inv, rule discard_inv [OF assms(1,9,6,7,8) oc])
  have "held w' new_wc (session_tab_id nc) u"
    using ne oc assms(6,7) acq
    by (simp add: w' destroy_contents_def WillDiscardContents_def Let_def contents_attach held_def
        Take_def)
  moreover from this i assms(8) have reg: "uid_by_tab (registry w') (session_tab_id nc) = Some u"
    unfolding uid_world_inv_def by auto
  moreover have "IsLive (registry w') u"
    using reg i registry_invD [of "registry w'"] by (auto simp: IsLive_def uid_world_inv_def)
  ultimately show ?thesis by blast
qed

definition two_tabs :: uid_world where
  "two_tabs = (MaybeCreateForTab True (\<lambda>_. True) ''a'' 0
     ((uid_start False None)\<lparr>contents := [0 \<mapsto> contents_of 10, 1 \<mapsto> contents_of 11]\<rparr>))"

lemma two_tabs_inv: "uid_world_inv two_tabs {}"
proof -
  let ?w = "(uid_start False None)\<lparr>contents := [0 \<mapsto> contents_of 10, 1 \<mapsto> contents_of 11]\<rparr>"
  have "uid_world_inv ?w {}"
    by (simp add: uid_world_inv_def uid_start_def tab_ids_unique_def held_def contents_of_def)
  moreover have "\<not> IsLive (registry ?w) ''a''"
    by (simp add: IsLive_def uid_start_def new_uid_service_def)
  moreover have "two_tabs = attach_helper (\<lambda>_. True) ''a'' 0 (contents_of 10) ?w"
    by (simp add: two_tabs_def MaybeCreateForTab_def contents_of_def)
  ultimately show ?thesis
    using attach_inv [of ?w "{}" 0 "contents_of 10" "contents_of 10" "''a''" "\<lambda>_. True"]
    by (simp add: contents_of_def)
qed

lemma two_tabs_held: "held two_tabs 0 10 ''a''" "contents two_tabs 1 = Some (contents_of 11)"
  by (simp_all add: two_tabs_def uid_start_def contents_of_def MaybeCreateForTab_def held_def
      contents_attach Take_def acquire_def MintAndRegister_def)

lemma discard_keeps_uid_witness:
  "held (destroy_contents 0 (WillDiscardContents (\<lambda>_. True) ''b'' 0 1 two_tabs)) 1 11 ''a''"
proof -
  have "\<not> IsLive (registry two_tabs) ''b''"
    by (simp add: two_tabs_def uid_start_def contents_of_def MaybeCreateForTab_def IsLive_def
        attach_helper_eq Take_def acquire_def MintAndRegister_def new_uid_service_def Unregister_def
        register_def)
  then show ?thesis
    using discard_keeps_uid [OF two_tabs_inv _ two_tabs_held(1) _ _ two_tabs_held(2) _ _ _ refl,
        of "\<lambda>_. True" "''b''"] by (simp add: contents_of_def)
qed

text \<open>
  A closed tab's uid is free again, and reopening reuses it. After the tab is destroyed, new
  contents restored with the extra data the closed tab had written adopt the same uid.
\<close>

theorem reopen_reuses_uid:
  assumes "uid_world_inv w D" and "wc \<notin> D" and "held w wc t u" and "parse_ok u" and "u \<noteq> []"
    and "contents w new_wc = Some nc" and "uid_data nc = None"
    and extra: "extra = PopulateExtraData wc w Map.empty"
    and w1: "w1 = destroy_contents wc w"
    and w2: "w2 = SetPendingRestoredUid True new_wc extra w1"
    and w3: "w3 = MaybeCreateForTab True parse_ok fresh new_wc w2"
  shows "\<not> IsLive (registry w1) u \<and> held w3 new_wc (session_tab_id nc) u"
proof -
  obtain c where c: "contents w wc = Some c" "uid_data c = Some \<lparr>helper_tab_id = t, helper_uid = u\<rparr>"
    using assms(3) by (auto simp: held_def)
  have inv: "registry_inv (registry w)" and tu: "uid_by_tab (registry w) t = Some u"
    using assms(1,2,3) by (auto simp: uid_world_inv_def)
  have free: "\<not> IsLive (Unregister t (registry w)) u"
    using inv tu by (simp add: IsLive_def tab_by_uid_Unregister registry_invD [symmetric] domIff)
  have ne: "wc \<noteq> new_wc" using c assms(6,7) by auto
  have "extra kUidKey = Some u" using c assms(5) by (simp add: extra PopulateExtraData_def)
  then show ?thesis
    using c ne assms(4-7) free
    by (simp add: w3 w2 w1 destroy_contents_def SetPendingRestoredUid_def MaybeCreateForTab_def
        held_def contents_attach Take_def acquire_def AdoptOrRestamp_def Let_def)
qed

lemma reopen_reuses_uid_witness:
  "held (MaybeCreateForTab True (\<lambda>_. True) ''b'' 1
     (SetPendingRestoredUid True 1 (PopulateExtraData 0 two_tabs Map.empty) (destroy_contents 0 two_tabs))) 1 11 ''a''"
  using reopen_reuses_uid [OF two_tabs_inv _ two_tabs_held(1) _ _ two_tabs_held(2) _ refl refl refl refl,
      of "\<lambda>_. True" "''b''"] by (simp add: contents_of_def)

lemma two_tabs_reachable:
  assumes "parse_ok ''a''" and "parse_ok ''b''"
  shows "uid_reachable parse_ok False None (MaybeCreateForTab True parse_ok ''b'' 1 two_tabs) {}"
proof -
  let ?s0 = "uid_start False None"
  let ?s1 = "?s0\<lparr>contents := (contents ?s0)(0 \<mapsto> contents_of 10)\<rparr>"
  let ?s2 = "?s1\<lparr>contents := (contents ?s1)(1 \<mapsto> contents_of 11)\<rparr>"
  have "uid_step parse_ok (?s0, {}) (?s1, {})"
    unfolding contents_of_def by (rule uid_step.create) (simp_all add: uid_start_def)
  moreover have "uid_step parse_ok (?s1, {}) (?s2, {})"
    unfolding contents_of_def [of 11] by (rule uid_step.create) (auto simp: uid_start_def contents_of_def split: if_splits)
  moreover have "uid_step parse_ok (?s2, {}) (two_tabs, {})"
  proof -
    have eq: "two_tabs = MaybeCreateForTab True parse_ok ''a'' 0 ?s2"
      by (simp add: two_tabs_def uid_start_def MaybeCreateForTab_def attach_helper_eq Take_def acquire_def contents_of_def)
    show ?thesis
      unfolding eq by (rule uid_step.attach) (simp_all add: IsLive_def uid_start_def new_uid_service_def assms)
  qed
  moreover have "uid_step parse_ok (two_tabs, {}) (MaybeCreateForTab True parse_ok ''b'' 1 two_tabs, {})"
    by (rule uid_step.attach)
       (simp_all add: assms two_tabs_def uid_start_def contents_of_def MaybeCreateForTab_def IsLive_def
        attach_helper_eq Take_def acquire_def MintAndRegister_def new_uid_service_def Unregister_def
        register_def)
  ultimately show ?thesis
    unfolding uid_reachable_def by (meson converse_rtranclp_into_rtranclp rtranclp.rtrancl_refl)
qed

lemma live_tabs_have_distinct_uids_witness:
  "GetUidForTab (registry (MaybeCreateForTab True (\<lambda>_. True) ''b'' 1 two_tabs)) 10 = Some ''a''"
proof -
  have "held (MaybeCreateForTab True (\<lambda>_. True) ''b'' 1 two_tabs) 0 10 ''a''"
    and "held (MaybeCreateForTab True (\<lambda>_. True) ''b'' 1 two_tabs) 1 11 ''b''"
    by (simp_all add: two_tabs_def uid_start_def contents_of_def MaybeCreateForTab_def held_def
        contents_attach Take_def acquire_def MintAndRegister_def)
  then show ?thesis
    using live_tabs_have_distinct_uids [OF two_tabs_reachable, of "\<lambda>_. True" 0 10 "''a''" 1 11 "''b''"] by simp
qed

end
