(* ===== verification/Refresh.thy ===== *)
theory Refresh
  imports Prelude
begin

text \<open>
  The pacing of "refresh all tabs": \<open>roamux/browser/tabs/navigation_settle_gate.cc\<close> and
  \<open>initial_url_refresh_scheduler.cc\<close>.

  The scheduler's \<open>Delegate\<close> and its tick clock are the record \<open>delegate\<close> of functions on a state
  \<open>'d\<close>; \<open>StartItem\<close> also returns the indices it settled synchronously. \<open>timer_\<close> is its due time and
  callback while armed; \<open>posted\<close> holds the \<open>OnSettled\<close> tasks in flight, which
  \<open>InvalidateWeakPtrs\<close> drops.
\<close>

subsection \<open>The settle gate\<close>

record gate =
  in_load_call :: bool
  buffered_start_id :: int
  navigation_id :: int
  started :: bool

definition new_gate :: gate where
  "new_gate = \<lparr>in_load_call = False, buffered_start_id = 0, navigation_id = 0, started = False\<rparr>"

definition BeginAttempt :: "gate \<Rightarrow> gate" where
  "BeginAttempt g = g\<lparr>in_load_call := True, buffered_start_id := 0, navigation_id := 0, started := False\<rparr>"

definition AttemptIssued :: "int \<Rightarrow> gate \<Rightarrow> gate" where
  "AttemptIssued nid g0 =
     (let g = g0\<lparr>in_load_call := False, navigation_id := nid\<rparr>
      in if navigation_id g = 0 then g\<lparr>buffered_start_id := 0\<rparr>
         else (if buffered_start_id g \<noteq> 0 \<and> buffered_start_id g = navigation_id g
               then g\<lparr>started := True\<rparr> else g)\<lparr>buffered_start_id := 0\<rparr>)"

definition OnNavigationStarted :: "int \<Rightarrow> gate \<Rightarrow> gate" where
  "OnNavigationStarted nid g =
     (if in_load_call g then g\<lparr>buffered_start_id := nid\<rparr>
      else if navigation_id g \<noteq> 0 \<and> nid = navigation_id g then g\<lparr>started := True\<rparr>
      else g)"

definition OnStopLoading :: "gate \<Rightarrow> bool \<times> gate" where
  "OnStopLoading g =
     (if in_load_call g then (False, g)
      else if \<not> started g then (False, g)
      else (True, g\<lparr>started := False, navigation_id := 0\<rparr>))"

definition OnAttemptDiscarded :: "gate \<Rightarrow> gate" where
  "OnAttemptDiscarded g = (if \<not> started g then g\<lparr>navigation_id := 0\<rparr> else g)"

definition gate_Reset :: "gate \<Rightarrow> gate" where
  "gate_Reset g = g\<lparr>in_load_call := False, buffered_start_id := 0, navigation_id := 0, started := False\<rparr>"

definition is_pending :: "gate \<Rightarrow> bool" where
  "is_pending g \<longleftrightarrow> navigation_id g \<noteq> 0 \<and> \<not> started g"

subsection \<open>The scheduler\<close>

definition kDefaultIntervalMs :: int where "kDefaultIntervalMs = 5000"
definition kDefaultMinSpacingMs :: int where "kDefaultMinSpacingMs = 750"
definition kMinIntervalMs :: int where "kMinIntervalMs = 250"
definition kMaxIntervalMs :: int where "kMaxIntervalMs = 600000"
definition kMinMinSpacingMs :: int where "kMinMinSpacingMs = 100"
definition kMaxMinSpacingMs :: int where "kMaxMinSpacingMs = 600000"

record params =
  interval :: time
  min_spacing :: time

definition Milliseconds :: "int \<Rightarrow> time" where "Milliseconds n = 1000 * n"

definition FromMilliseconds :: "int \<Rightarrow> int \<Rightarrow> params" where
  "FromMilliseconds interval_ms min_spacing_ms =
     (let i = (if interval_ms < kMinIntervalMs \<or> interval_ms > kMaxIntervalMs
               then kDefaultIntervalMs else interval_ms);
          m = (if min_spacing_ms < kMinMinSpacingMs \<or> min_spacing_ms > kMaxMinSpacingMs
               then kDefaultMinSpacingMs else min_spacing_ms);
          m' = min m i
      in \<lparr>interval = Milliseconds i, min_spacing = Milliseconds m'\<rparr>)"

datatype timer_callback = On_defer | On_interval | Start_from_cursor

record 'd delegate =
  StartItem_fn :: "nat \<Rightarrow> 'd \<Rightarrow> bool \<times> nat list \<times> 'd"
  ShouldDefer_fn :: "'d \<Rightarrow> bool"
  OnRunFinished_fn :: "'d \<Rightarrow> 'd"
  NowTicks_fn :: "'d \<Rightarrow> time"

record scheduler =
  params_of :: params
  timer :: "(time \<times> timer_callback) option"
  posted :: "nat list"
  item_count :: nat
  sched_cursor :: nat
  running :: bool
  waiting :: bool
  last_start :: time

text \<open>The constructor's \<open>CHECK\<close>s: outside them the process stops, None.\<close>

definition new_scheduler :: "params \<Rightarrow> scheduler option" where
  "new_scheduler p =
     (if min_spacing p > 0 \<and> min_spacing p \<le> interval p
      then Some \<lparr>params_of = p, timer = None, posted = [], item_count = 0, sched_cursor = 0,
                 running = False, waiting = False, last_start = 0\<rparr>
      else None)"

definition NotifyItemSettled :: "nat \<Rightarrow> scheduler \<Rightarrow> scheduler" where
  "NotifyItemSettled index s =
     (if \<not> running s \<or> \<not> waiting s \<or> index \<noteq> sched_cursor s then s
      else s\<lparr>posted := posted s @ [index]\<rparr>)"

definition Finish :: "'d delegate \<Rightarrow> scheduler \<times> 'd \<Rightarrow> scheduler \<times> 'd" where
  "Finish D x = ((fst x)\<lparr>running := False, waiting := False, timer := None, posted := []\<rparr>,
                 OnRunFinished_fn D (snd x))"

text \<open>One turn of the loop for the item at the cursor: the out-call, with the state armed before it.\<close>

definition begin_item :: "'d delegate \<Rightarrow> scheduler \<times> 'd \<Rightarrow> bool \<times> scheduler \<times> 'd" where
  "begin_item D x =
     (let s = (fst x)\<lparr>last_start := NowTicks_fn D (snd x), waiting := True\<rparr>;
          (ok, settled, d) = StartItem_fn D (sched_cursor s) (snd x)
      in (ok, fold NotifyItemSettled settled s, d))"

lemma Notify_frame [simp]:
  "sched_cursor (NotifyItemSettled i s) = sched_cursor s" "item_count (NotifyItemSettled i s) = item_count s"
  "params_of (NotifyItemSettled i s) = params_of s" "timer (NotifyItemSettled i s) = timer s"
  "running (NotifyItemSettled i s) = running s" "waiting (NotifyItemSettled i s) = waiting s"
  "last_start (NotifyItemSettled i s) = last_start s"
  by (simp_all add: NotifyItemSettled_def)

lemma fold_Notify_frame [simp]:
  "sched_cursor (fold NotifyItemSettled ns s) = sched_cursor s \<and>
   item_count (fold NotifyItemSettled ns s) = item_count s \<and>
   params_of (fold NotifyItemSettled ns s) = params_of s \<and> timer (fold NotifyItemSettled ns s) = timer s \<and>
   running (fold NotifyItemSettled ns s) = running s \<and> waiting (fold NotifyItemSettled ns s) = waiting s \<and>
   last_start (fold NotifyItemSettled ns s) = last_start s"
  by (induction ns arbitrary: s) simp_all

lemma begin_item_frame:
  assumes "begin_item D (s, d) = (ok, s', d')"
  shows "sched_cursor s' = sched_cursor s" "item_count s' = item_count s" "params_of s' = params_of s"
    "running s' = running s" "waiting s'" "last_start s' = NowTicks_fn D d" "timer s' = timer s"
    "\<exists>ns. StartItem_fn D (sched_cursor s) d = (ok, ns, d')"
  using assms by (auto simp: begin_item_def Let_def split: prod.splits)

lemma begin_item_counts:
  "(ok, s', d') = begin_item D (s, d) \<Longrightarrow> item_count s' = item_count s \<and> sched_cursor s' = sched_cursor s"
  using begin_item_frame(1,2) [of D s d ok s' d'] by simp

function StartFromCursor :: "'d delegate \<Rightarrow> scheduler \<times> 'd \<Rightarrow> scheduler \<times> 'd" where
  "StartFromCursor D (s, d) =
     (if running s \<and> sched_cursor s < item_count s then
        if ShouldDefer_fn D d
        then (s\<lparr>timer := Some (NowTicks_fn D d + interval (params_of s), On_defer)\<rparr>, d)
        else (case begin_item D (s, d) of
           (ok, s', d') \<Rightarrow>
             if ok then
               if sched_cursor s' + 1 = item_count s' then Finish D (s', d')
               else (s'\<lparr>timer := Some (NowTicks_fn D d' +
                       max 0 (last_start s' + interval (params_of s') - NowTicks_fn D d'), On_interval)\<rparr>, d')
             else StartFromCursor D (s'\<lparr>waiting := False, last_start := last_start s,
                                       sched_cursor := sched_cursor s' + 1\<rparr>, d'))
      else if running s then Finish D (s, d)
      else (s, d))"
  by pat_completeness auto
termination
  by (relation "measure (\<lambda>(D, s, d). item_count s - sched_cursor s)")
     (auto simp del: fold_Notify_frame dest: begin_item_counts)

declare StartFromCursor.simps [simp del]

definition sched_Start :: "'d delegate \<Rightarrow> nat \<Rightarrow> scheduler \<times> 'd \<Rightarrow> scheduler \<times> 'd" where
  "sched_Start D n x =
     StartFromCursor D ((fst x)\<lparr>item_count := n, sched_cursor := 0, waiting := False, running := True,
                                last_start := 0\<rparr>, snd x)"

definition sched_Cancel :: "'d delegate \<Rightarrow> scheduler \<times> 'd \<Rightarrow> scheduler \<times> 'd" where
  "sched_Cancel D x = (if \<not> running (fst x) then x else Finish D x)"

definition AdvanceAndScheduleNext :: "'d delegate \<Rightarrow> time \<Rightarrow> scheduler \<times> 'd \<Rightarrow> scheduler \<times> 'd" where
  "AdvanceAndScheduleNext D not_before x =
     (let s = (fst x)\<lparr>waiting := False, sched_cursor := sched_cursor (fst x) + 1\<rparr>; d = snd x
      in if sched_cursor s \<ge> item_count s then Finish D (s, d)
         else let delay = not_before - NowTicks_fn D d
              in if delay > 0 then (s\<lparr>timer := Some (NowTicks_fn D d + delay, Start_from_cursor)\<rparr>, d)
                 else StartFromCursor D (s, d))"

definition OnSettled :: "'d delegate \<Rightarrow> nat \<Rightarrow> scheduler \<times> 'd \<Rightarrow> scheduler \<times> 'd" where
  "OnSettled D index x =
     (let s = fst x
      in if \<not> running s \<or> \<not> waiting s \<or> index \<noteq> sched_cursor s then x
         else AdvanceAndScheduleNext D (last_start s + min_spacing (params_of s)) x)"

definition OnIntervalElapsed :: "'d delegate \<Rightarrow> scheduler \<times> 'd \<Rightarrow> scheduler \<times> 'd" where
  "OnIntervalElapsed D x =
     (if \<not> running (fst x) then x else AdvanceAndScheduleNext D (NowTicks_fn D (snd x)) x)"

definition OnDeferElapsed :: "'d delegate \<Rightarrow> scheduler \<times> 'd \<Rightarrow> scheduler \<times> 'd" where
  "OnDeferElapsed D x = (if \<not> running (fst x) then x else StartFromCursor D x)"

text \<open>The one-shot timer: firing disarms it and runs its callback.\<close>

fun run_callback :: "'d delegate \<Rightarrow> timer_callback \<Rightarrow> scheduler \<times> 'd \<Rightarrow> scheduler \<times> 'd" where
  "run_callback D On_defer x = OnDeferElapsed D x"
| "run_callback D On_interval x = OnIntervalElapsed D x"
| "run_callback D Start_from_cursor x = StartFromCursor D x"

definition fire_timer :: "'d delegate \<Rightarrow> scheduler \<times> 'd \<Rightarrow> scheduler \<times> 'd" where
  "fire_timer D x =
     (case timer (fst x) of
        None \<Rightarrow> x
      | Some (due, cb) \<Rightarrow>
          if NowTicks_fn D (snd x) < due then x
          else run_callback D cb ((fst x)\<lparr>timer := None\<rparr>, snd x))"

definition deliver_settle :: "'d delegate \<Rightarrow> scheduler \<times> 'd \<Rightarrow> scheduler \<times> 'd" where
  "deliver_settle D x =
     (case posted (fst x) of [] \<Rightarrow> x | i # rest \<Rightarrow> OnSettled D i ((fst x)\<lparr>posted := rest\<rparr>, snd x))"

subsection \<open>What pacing promises\<close>

definition params_ok :: "params \<Rightarrow> bool" where
  "params_ok p \<longleftrightarrow> 0 < min_spacing p \<and> min_spacing p \<le> interval p"

text \<open>Starts in index order, each at least \<open>m\<close> after the one before it.\<close>

definition spaced :: "time \<Rightarrow> (nat \<times> time) list \<Rightarrow> bool" where
  "spaced m = successively (\<lambda>a b. fst a < fst b \<and> snd a + m \<le> snd b)"

lemma spaced_Nil [simp]: "spaced m []"
  by (simp add: spaced_def)

lemma spaced_snoc: "spaced m (l @ [x]) \<longleftrightarrow>
   spaced m l \<and> (l = [] \<or> fst (last l) < fst x \<and> snd (last l) + m \<le> snd x)"
  by (auto simp: spaced_def successively_append_iff)

lemma spaced_le_last: "spaced m l \<Longrightarrow> x \<in> set l \<Longrightarrow> fst x \<le> fst (last l)"
proof (induction l rule: rev_induct)
  case (snoc y ys)
  then show ?case by (cases "ys = []") (fastforce simp: spaced_snoc)+
qed simp

definition ready_state :: "scheduler \<Rightarrow> time \<Rightarrow> (nat \<times> time) list \<Rightarrow> nat \<Rightarrow> bool" where
  "ready_state s now L F \<longleftrightarrow> params_ok (params_of s) \<and> running s \<and> \<not> waiting s \<and> F = 0 \<and>
     sched_cursor s \<le> item_count s \<and> spaced (min_spacing (params_of s)) L \<and>
     (\<forall>x \<in> set L. fst x < sched_cursor s) \<and>
     (L \<noteq> [] \<longrightarrow> last_start s = snd (last L) \<and> last_start s + min_spacing (params_of s) \<le> now)"

definition sched_inv :: "scheduler \<Rightarrow> (nat \<times> time) list \<Rightarrow> nat \<Rightarrow> bool" where
  "sched_inv s L F \<longleftrightarrow> params_ok (params_of s) \<and> spaced (min_spacing (params_of s)) L \<and>
     F = (if running s then 0 else 1) \<and> (\<forall>x \<in> set L. fst x < item_count s) \<and>
     (running s \<longrightarrow> sched_cursor s < item_count s \<and>
        (\<exists>due cb. timer s = Some (due, cb) \<and>
          (if waiting s
           then cb = On_interval \<and> L \<noteq> [] \<and> last L = (sched_cursor s, last_start s) \<and>
                last_start s + interval (params_of s) \<le> due
           else cb \<noteq> On_interval \<and> (\<forall>x \<in> set L. fst x < sched_cursor s) \<and>
                (L \<noteq> [] \<longrightarrow> last_start s = snd (last L) \<and>
                   last_start s + min_spacing (params_of s) \<le> due))))"

definition wait_core :: "scheduler \<Rightarrow> (nat \<times> time) list \<Rightarrow> nat \<Rightarrow> bool" where
  "wait_core s L F \<longleftrightarrow> params_ok (params_of s) \<and> running s \<and> F = 0 \<and>
     spaced (min_spacing (params_of s)) L \<and> (\<forall>x \<in> set L. fst x < item_count s) \<and>
     sched_cursor s < item_count s \<and> L \<noteq> [] \<and> last L = (sched_cursor s, last_start s)"

lemma wait_coreI: "sched_inv s L F \<Longrightarrow> running s \<Longrightarrow> waiting s \<Longrightarrow> wait_core s L F"
  by (auto simp: sched_inv_def wait_core_def)

definition work_left :: "scheduler \<Rightarrow> nat" where
  "work_left s = 2 * (item_count s - sched_cursor s) + (if waiting s then 0 else 1)"

locale pacing =
  fixes D :: "'d delegate" and starts :: "'d \<Rightarrow> (nat \<times> time) list" and finishes :: "'d \<Rightarrow> nat"
    and quiet :: "'d \<Rightarrow> bool"
  assumes start_laws: "StartItem_fn D i d = (ok, ns, d') \<Longrightarrow>
      starts d' = (if ok then starts d @ [(i, NowTicks_fn D d)] else starts d) \<and>
      finishes d' = finishes d \<and> NowTicks_fn D d \<le> NowTicks_fn D d' \<and> (quiet d \<longrightarrow> quiet d')"
    and finish_laws: "starts (OnRunFinished_fn D d) = starts d \<and> finishes (OnRunFinished_fn D d) = Suc (finishes d)"
    and quiet_defer: "quiet d \<Longrightarrow> \<not> ShouldDefer_fn D d"
begin

abbreviation inv :: "scheduler \<times> 'd \<Rightarrow> bool" where
  "inv x \<equiv> sched_inv (fst x) (starts (snd x)) (finishes (snd x))"

lemma Finish_inv:
  "params_ok (params_of s) \<Longrightarrow> spaced (min_spacing (params_of s)) (starts d) \<Longrightarrow>
   (\<forall>x \<in> set (starts d). fst x < item_count s) \<Longrightarrow> finishes d = 0 \<Longrightarrow> inv (Finish D (s, d))"
  using finish_laws [of d] by (simp add: Finish_def sched_inv_def)

lemma begin_item_laws:
  assumes "begin_item D (s, d) = (ok, s', d')"
  shows "starts d' = (if ok then starts d @ [(sched_cursor s, NowTicks_fn D d)] else starts d)"
    "finishes d' = finishes d" "NowTicks_fn D d \<le> NowTicks_fn D d'" "quiet d \<Longrightarrow> quiet d'"
proof -
  obtain ns where "StartItem_fn D (sched_cursor s) d = (ok, ns, d')"
    using begin_item_frame(8) [OF assms] by blast
  from start_laws [OF this] show "starts d' = (if ok then starts d @ [(sched_cursor s, NowTicks_fn D d)] else starts d)"
    "finishes d' = finishes d" "NowTicks_fn D d \<le> NowTicks_fn D d'" "quiet d \<Longrightarrow> quiet d'" by auto
qed

lemma StartFromCursor_inv:
  "ready_state s (NowTicks_fn D d) (starts d) (finishes d) \<Longrightarrow> inv (StartFromCursor D (s, d))"
proof (induction "item_count s - sched_cursor s" arbitrary: s d rule: less_induct)
  case less
  note pre = less.prems [unfolded ready_state_def]
  show ?case
  proof (cases "sched_cursor s < item_count s")
    case False
    then have "StartFromCursor D (s, d) = Finish D (s, d)"
      using pre by (simp add: StartFromCursor.simps)
    then show ?thesis using pre False by (auto intro!: Finish_inv)
  next
    case cur: True
    show ?thesis
    proof (cases "ShouldDefer_fn D d")
      case True
      then have "StartFromCursor D (s, d) =
          (s\<lparr>timer := Some (NowTicks_fn D d + interval (params_of s), On_defer)\<rparr>, d)"
        using pre cur by (simp add: StartFromCursor.simps)
      then show ?thesis using pre cur by (force simp: sched_inv_def params_ok_def)
    next
      case nodefer: False
      obtain ok s' d' where b: "begin_item D (s, d) = (ok, s', d')" by (cases "begin_item D (s, d)")
      note fr = begin_item_frame [OF b] and laws = begin_item_laws [OF b]
      show ?thesis
      proof (cases ok)
        case True
        have sp: "spaced (min_spacing (params_of s)) (starts d')"
          using pre laws(1) True by (auto simp: spaced_snoc)
        have idx: "\<forall>x \<in> set (starts d'). fst x < item_count s"
          using pre laws(1) True cur by auto
        show ?thesis
        proof (cases "sched_cursor s' + 1 = item_count s'")
          case last: True
          then have "StartFromCursor D (s, d) = Finish D (s', d')"
            using pre cur nodefer b True by (simp add: StartFromCursor.simps)
          moreover have "inv (Finish D (s', d'))"
            by (rule Finish_inv) (use pre fr(1-4) laws(2) sp idx in simp_all)
          ultimately show ?thesis by simp
        next
          case notlast: False
          then have "StartFromCursor D (s, d) = (s'\<lparr>timer := Some (NowTicks_fn D d' +
              max 0 (last_start s' + interval (params_of s') - NowTicks_fn D d'), On_interval)\<rparr>, d')"
            using pre cur nodefer b True by (simp add: StartFromCursor.simps)
          then show ?thesis
            using pre fr laws sp idx True cur by (simp add: sched_inv_def)
        qed
      next
        case False
        let ?s = "s'\<lparr>waiting := False, last_start := last_start s, sched_cursor := sched_cursor s' + 1\<rparr>"
        have "StartFromCursor D (s, d) = StartFromCursor D (?s, d')"
          using pre cur nodefer b False by (subst StartFromCursor.simps) simp
        moreover have "ready_state ?s (NowTicks_fn D d') (starts d') (finishes d')"
          using pre fr laws cur False by (auto simp: ready_state_def)
        ultimately show ?thesis using less.hyps [of ?s d'] fr cur by simp
      qed
    qed
  qed
qed


lemma Advance_inv:
  assumes a: "wait_core s (starts d) (finishes d)"
    and nb: "NowTicks_fn D d < not_before \<Longrightarrow> last_start s + min_spacing (params_of s) \<le> not_before"
    and now: "not_before \<le> NowTicks_fn D d \<Longrightarrow> last_start s + min_spacing (params_of s) \<le> NowTicks_fn D d"
  shows "inv (AdvanceAndScheduleNext D not_before (s, d))"
proof -
  let ?s = "s\<lparr>waiting := False, sched_cursor := sched_cursor s + 1\<rparr>"
  note a = a [unfolded wait_core_def]
  have lt: "\<forall>x \<in> set (starts d). fst x < sched_cursor s + 1"
    using spaced_le_last [of "min_spacing (params_of s)" "starts d"] a by fastforce
  consider (fin) "item_count s \<le> sched_cursor s + 1"
    | (wait) "sched_cursor s + 1 < item_count s" "NowTicks_fn D d < not_before"
    | (go) "sched_cursor s + 1 < item_count s" "not_before \<le> NowTicks_fn D d"
    by linarith
  then show ?thesis
  proof cases
    case fin
    then have "AdvanceAndScheduleNext D not_before (s, d) = Finish D (?s, d)"
      by (simp add: AdvanceAndScheduleNext_def)
    moreover have "inv (Finish D (?s, d))"
      by (rule Finish_inv) (use a in simp_all)
    ultimately show ?thesis by simp
  next
    case wait
    then have "AdvanceAndScheduleNext D not_before (s, d) = (?s\<lparr>timer := Some (not_before, Start_from_cursor)\<rparr>, d)"
      by (simp add: AdvanceAndScheduleNext_def Let_def)
    then show ?thesis using a wait lt nb by (simp add: sched_inv_def)
  next
    case go
    then have "AdvanceAndScheduleNext D not_before (s, d) = StartFromCursor D (?s, d)"
      by (simp add: AdvanceAndScheduleNext_def Let_def)
    moreover have "ready_state ?s (NowTicks_fn D d) (starts d) (finishes d)"
      using a go lt now by (simp add: ready_state_def)
    ultimately show ?thesis using StartFromCursor_inv by simp
  qed
qed

lemma OnSettled_inv: "inv (s, d) \<Longrightarrow> inv (OnSettled D i (s, d))"
  by (simp add: OnSettled_def Let_def Advance_inv wait_coreI)

lemma posted_inv: "sched_inv (s\<lparr>posted := p\<rparr>) L F = sched_inv s L F"
  by (simp add: sched_inv_def)

lemma deliver_inv: "inv (s, d) \<Longrightarrow> inv (deliver_settle D (s, d))"
  by (simp add: deliver_settle_def posted_inv OnSettled_inv split: list.split)

lemma notify_inv: "inv (s, d) \<Longrightarrow> inv (NotifyItemSettled i s, d)"
  by (simp add: NotifyItemSettled_def posted_inv)

lemma cancel_inv:
  assumes "inv (s, d)"
  shows "inv (sched_Cancel D (s, d))"
proof (cases "running s")
  case True
  have "inv (Finish D (s, d))"
    by (rule Finish_inv) (use assms True in \<open>simp_all add: sched_inv_def\<close>)
  then show ?thesis using True by (simp add: sched_Cancel_def)
qed (use assms in \<open>simp add: sched_Cancel_def\<close>)

lemma fire_inv:
  assumes i: "inv (s, d)"
  shows "inv (fire_timer D (s, d))"
proof (cases "\<exists>due cb. timer s = Some (due, cb) \<and> due \<le> NowTicks_fn D d")
  case False
  then have "fire_timer D (s, d) = (s, d)"
    by (auto simp: fire_timer_def not_le split: option.split)
  then show ?thesis using i by simp
next
  case True
  then obtain due cb where t: "timer s = Some (due, cb)" "due \<le> NowTicks_fn D d" by blast
  let ?s = "s\<lparr>timer := None\<rparr>"
  have f: "fire_timer D (s, d) = run_callback D cb (?s, d)" using t by (simp add: fire_timer_def)
  show ?thesis
  proof (cases "running s")
    case False
    then have "fire_timer D (s, d) = (?s, d)"
      by (cases cb) (simp_all add: f OnDeferElapsed_def OnIntervalElapsed_def StartFromCursor.simps)
    then show ?thesis using i False by (simp add: sched_inv_def)
  next
    case r: True
    show ?thesis
    proof (cases "waiting s")
      case True
      then have "cb = On_interval" "last_start s + interval (params_of s) \<le> NowTicks_fn D d"
        "min_spacing (params_of s) \<le> interval (params_of s)"
        using i r t by (auto simp: sched_inv_def params_ok_def)
      moreover have "wait_core ?s (starts d) (finishes d)"
        using wait_coreI [OF _ r True] i by (simp add: wait_core_def)
      ultimately show ?thesis
        using r Advance_inv [of ?s d "NowTicks_fn D d"] by (simp add: f OnIntervalElapsed_def)
    next
      case False
      then have "cb \<noteq> On_interval" "ready_state ?s (NowTicks_fn D d) (starts d) (finishes d)"
        using i r t by (auto simp: sched_inv_def ready_state_def)
      then show ?thesis
        using r StartFromCursor_inv [of ?s d] by (cases cb) (simp_all add: f OnDeferElapsed_def)
    qed
  qed
qed

lemma Start_inv:
  assumes "params_ok (params_of s)" and "starts d = []" and "finishes d = 0"
  shows "inv (sched_Start D n (s, d))"
  unfolding sched_Start_def fst_conv snd_conv
  by (rule StartFromCursor_inv) (use assms in \<open>simp add: ready_state_def\<close>)


text \<open>Progress: without a dialog in the way, each firing of the timer leaves less work.\<close>

definition shrinks :: "scheduler \<Rightarrow> scheduler \<times> 'd \<Rightarrow> bool" where
  "shrinks s y \<longleftrightarrow> \<not> running (fst y) \<or> quiet (snd y) \<and> work_left (fst y) < work_left s"

lemma Finish_shrinks: "shrinks s0 (Finish D (s, d))"
  by (simp add: shrinks_def Finish_def)

lemma StartFromCursor_shrinks:
  "quiet d \<Longrightarrow> \<not> waiting s \<Longrightarrow> shrinks s (StartFromCursor D (s, d))"
proof (induction "item_count s - sched_cursor s" arbitrary: s d rule: less_induct)
  case less
  show ?case
  proof (cases "running s \<and> sched_cursor s < item_count s")
    case False
    then show ?thesis using less.prems
      by (cases "running s") (simp_all add: StartFromCursor.simps [of D s d] Finish_shrinks,
          simp add: shrinks_def)
  next
    case cur: True
    obtain ok s' d' where b: "begin_item D (s, d) = (ok, s', d')" by (cases "begin_item D (s, d)")
    note fr = begin_item_frame [OF b] and laws = begin_item_laws [OF b]
    show ?thesis
    proof (cases ok)
      case True
      then show ?thesis
        using less.prems cur b fr laws quiet_defer
        by (subst StartFromCursor.simps) (simp add: Finish_shrinks, simp add: shrinks_def work_left_def)
    next
      case False
      let ?s = "s'\<lparr>waiting := False, last_start := last_start s, sched_cursor := sched_cursor s' + 1\<rparr>"
      have "StartFromCursor D (s, d) = StartFromCursor D (?s, d')"
        using less.prems cur b False quiet_defer by (subst StartFromCursor.simps) simp
      moreover have "shrinks ?s (StartFromCursor D (?s, d'))"
        by (rule less.hyps) (use fr cur laws less.prems in auto)
      moreover have "work_left ?s < work_left s"
        using fr conjunct2 [OF cur] less.prems by (simp add: work_left_def)
      ultimately show ?thesis by (auto simp: shrinks_def)
    qed
  qed
qed

lemma fire_shrinks:
  assumes i: "inv (s, d)" and q: "quiet d" and r: "running s"
    and t: "timer s = Some (due, cb)" "due \<le> NowTicks_fn D d"
  shows "shrinks s (fire_timer D (s, d))"
proof -
  let ?s = "s\<lparr>timer := None\<rparr>"
  have f: "fire_timer D (s, d) = run_callback D cb (?s, d)" using t by (simp add: fire_timer_def)
  show ?thesis
  proof (cases "waiting s")
    case False
    then have "cb \<noteq> On_interval" using i r t by (auto simp: sched_inv_def)
    then show ?thesis
      using StartFromCursor_shrinks [of d ?s] q r False
      by (cases cb) (simp_all add: f OnDeferElapsed_def shrinks_def work_left_def)
  next
    case True
    let ?s1 = "?s\<lparr>waiting := False, sched_cursor := sched_cursor s + 1\<rparr>"
    have cb: "cb = On_interval" "sched_cursor s < item_count s"
      using i r t True by (auto simp: sched_inv_def)
    have "shrinks ?s1 (StartFromCursor D (?s1, d))"
      by (rule StartFromCursor_shrinks) (simp_all add: q)
    moreover have "work_left ?s1 < work_left s" using True cb by (simp add: work_left_def)
    ultimately show ?thesis
      using cb r by (auto simp: f OnIntervalElapsed_def AdvanceAndScheduleNext_def Let_def
          Finish_shrinks) (auto simp: shrinks_def)
  qed
qed

end

lemma fire_stopped: "\<not> running s \<Longrightarrow> \<not> running (fst (fire_timer D (s, d)))"
proof (cases "timer s")
  case (Some tc)
  assume r: "\<not> running s"
  obtain due cb where "tc = (due, cb)" by (cases tc)
  then show ?thesis
    using r Some by (cases cb) (simp_all add: fire_timer_def OnDeferElapsed_def OnIntervalElapsed_def
        StartFromCursor.simps)
qed (simp add: fire_timer_def)

text \<open>A clock that can be moved forward, and the run that moves it to each due time.\<close>

fun drive :: "'d delegate \<Rightarrow> (time \<Rightarrow> 'd \<Rightarrow> 'd) \<Rightarrow> nat \<Rightarrow> scheduler \<times> 'd \<Rightarrow> scheduler \<times> 'd" where
  "drive D adv 0 x = x"
| "drive D adv (Suc k) x =
     drive D adv k (fire_timer D (fst x, case timer (fst x) of None \<Rightarrow> snd x | Some (due, _) \<Rightarrow> adv due (snd x)))"

lemma drive_Suc:
  "drive D adv (Suc k) (s, d) =
     drive D adv k (fire_timer D (s, case timer s of None \<Rightarrow> d | Some (due, _) \<Rightarrow> adv due d))"
  by (simp cong: option.case_cong)

locale ticking_pacing = pacing D starts finishes quiet
  for D :: "'d delegate" and starts finishes quiet +
  fixes advance_to :: "time \<Rightarrow> 'd \<Rightarrow> 'd"
  assumes advance_laws: "starts (advance_to t d) = starts d \<and> finishes (advance_to t d) = finishes d \<and>
      t \<le> NowTicks_fn D (advance_to t d) \<and> (quiet d \<longrightarrow> quiet (advance_to t d))"
begin

lemma drive_stopped: "\<not> running s \<Longrightarrow> \<not> running (fst (drive D advance_to k (s, d)))"
proof (induction k arbitrary: s d)
  case (Suc k)
  let ?d = "case timer s of None \<Rightarrow> d | Some (due, _) \<Rightarrow> advance_to due d"
  have "\<not> running (fst (fire_timer D (s, ?d)))" using Suc.prems by (rule fire_stopped)
  then show ?case using Suc.IH by (metis drive.simps(2) fst_conv snd_conv prod.collapse)
qed simp

lemma drive_inv: "inv (s, d) \<Longrightarrow> inv (drive D advance_to k (s, d))"
proof (induction k arbitrary: s d)
  case (Suc k)
  let ?d = "case timer s of None \<Rightarrow> d | Some (due, _) \<Rightarrow> advance_to due d"
  have "inv (s, ?d)" using Suc.prems advance_laws by (auto split: option.split)
  from fire_inv [OF this] have "inv (drive D advance_to k (fire_timer D (s, ?d)))"
    using Suc.IH by (cases "fire_timer D (s, ?d)") simp
  then show ?case by (simp only: drive_Suc)
qed simp

lemma drive_ends:
  "inv (s, d) \<Longrightarrow> quiet d \<Longrightarrow> work_left s \<le> k \<Longrightarrow> \<not> running (fst (drive D advance_to k (s, d)))"
proof (induction k arbitrary: s d)
  case 0
  then show ?case by (auto simp: sched_inv_def work_left_def)
next
  case (Suc k)
  show ?case
  proof (cases "running s")
    case True
    obtain due cb where t: "timer s = Some (due, cb)" using Suc.prems(1) True by (auto simp: sched_inv_def)
    let ?d = "advance_to due d"
    have i: "inv (s, ?d)" using Suc.prems(1) advance_laws [of due d] by (simp add: sched_inv_def)
    obtain s' d' where y: "fire_timer D (s, ?d) = (s', d')" by (cases "fire_timer D (s, ?d)")
    have i': "inv (s', d')" using fire_inv [OF i] y by simp
    have "shrinks s (s', d')"
      using fire_shrinks [OF i _ True t] advance_laws [of due d] Suc.prems(2) y by simp
    then have "\<not> running s' \<or> quiet d' \<and> work_left s' \<le> k"
      using Suc.prems(3) by (auto simp: shrinks_def)
    then have "\<not> running (fst (drive D advance_to k (s', d')))"
      using Suc.IH [OF i'] drive_stopped by blast
    then show ?thesis using t y by simp
  qed (rule drive_stopped)
qed

end

subsection \<open>Properties of the gate and of the parameters\<close>

lemma fold_started_in_call:
  "in_load_call g \<Longrightarrow> fold OnNavigationStarted ids g =
     g\<lparr>buffered_start_id := if ids = [] then buffered_start_id g else last ids\<rparr>"
  by (induction ids arbitrary: g) (simp_all add: OnNavigationStarted_def)

lemma fold_started_after:
  "\<not> in_load_call g \<Longrightarrow> navigation_id g \<noteq> 0 \<Longrightarrow> fold OnNavigationStarted ids g =
     g\<lparr>started := started g \<or> navigation_id g \<in> set ids\<rparr>"
  by (induction ids arbitrary: g) (auto simp: OnNavigationStarted_def)

text \<open>
  The settle gate. Whatever state it was in and whatever primary main-frame navigations start
  during the load call (\<open>before\<close>) and after it (\<open>after\<close>), a stop settles the attempt exactly when the
  load produced a navigation and that very navigation started: the last start of the call or one of
  the later ones; and a second stop settles nothing.
\<close>

theorem gate_settles_own_navigation:
  "let g = fold OnNavigationStarted after (AttemptIssued nid
             (fold OnNavigationStarted before (BeginAttempt g0)));
       (settled, g') = OnStopLoading g
   in settled = (nid \<noteq> 0 \<and> (before \<noteq> [] \<and> last before = nid \<or> nid \<in> set after)) \<and>
      \<not> fst (OnStopLoading g') \<and> \<not> fst (OnStopLoading (OnAttemptDiscarded g'))"
proof -
  have b: "fold OnNavigationStarted before (BeginAttempt g0) =
      (BeginAttempt g0)\<lparr>buffered_start_id := if before = [] then 0 else last before\<rparr>"
    by (subst fold_started_in_call) (simp_all add: BeginAttempt_def)
  have z: "fold OnNavigationStarted after g = g" if "\<not> in_load_call g" "navigation_id g = 0" for g
    using that by (induction after) (simp_all add: OnNavigationStarted_def)
  define i where "i = AttemptIssued nid (fold OnNavigationStarted before (BeginAttempt g0))"
  have i: "\<not> in_load_call i" "navigation_id i = nid"
    "started i \<longleftrightarrow> nid \<noteq> 0 \<and> before \<noteq> [] \<and> last before = nid"
    unfolding i_def b by (auto simp: AttemptIssued_def BeginAttempt_def Let_def)
  have "fold OnNavigationStarted after i = i\<lparr>started := started i \<or> nid \<noteq> 0 \<and> nid \<in> set after\<rparr>"
    using i z [of i] fold_started_after [of i after] by (cases "nid = 0") auto
  then show ?thesis
    using i unfolding i_def [symmetric]
    by (auto simp: Let_def OnStopLoading_def OnAttemptDiscarded_def split: prod.split)
qed

text \<open>
  Whatever the feature parameters are, the scheduler's parameters satisfy its constructor's
  checks (a positive floor no larger than the interval), so it is always built; in-range values are
  kept and an out-of-range one becomes the default, the floor being at most the interval.
\<close>

theorem params_always_accepted:
  "new_scheduler (FromMilliseconds i m) \<noteq> None \<and>
   interval (FromMilliseconds i m) = Milliseconds (if i \<in> {250..600000} then i else 5000) \<and>
   min_spacing (FromMilliseconds i m) =
     min (Milliseconds (if m \<in> {100..600000} then m else 750)) (interval (FromMilliseconds i m))"
  by (auto simp: new_scheduler_def FromMilliseconds_def Milliseconds_def kDefaultIntervalMs_def
      kDefaultMinSpacingMs_def kMinIntervalMs_def kMaxIntervalMs_def kMinMinSpacingMs_def
      kMaxMinSpacingMs_def Let_def min_def)

lemma params_ok_FromMilliseconds: "params_ok (FromMilliseconds i m)"
  by (auto simp: params_ok_def FromMilliseconds_def Milliseconds_def kDefaultIntervalMs_def
      kDefaultMinSpacingMs_def kMinIntervalMs_def kMaxIntervalMs_def kMinMinSpacingMs_def
      kMaxMinSpacingMs_def Let_def min_def)

end
