(* ===== verification/Initial_Url.thy ===== *)
theory Initial_Url
  imports Prelude
begin

text \<open>
  A tab's initial URL: \<open>roamux/browser/tabs/tab_initial_url_helper.cc\<close> (capture, lock, restore,
  persistence), \<open>session_tab_extra_data.cc\<close> (what a session rewrite serializes),
  \<open>reload_initial_url_command.cc\<close>, the edit of \<open>ui/tabs/edit_initial_url_dialog.cc\<close> and the commands of
  \<open>ui/tabs/initial_url_menu.cc\<close>.

  Chromium's parser is the argument \<open>parse\<close> (\<open>GURL(string)\<close>) and \<open>fixup\<close> (\<open>url_formatter::FixupURL\<close>).
  A \<open>WebContents\<close> is the record of what the code reads of it; the session service is the list of
  \<open>AddTabExtraData\<close> calls it received.
\<close>


definition kInitialUrlKey :: string where "kInitialUrlKey = ''roamux.initial_url''"

record url_helper =
  initial_url :: gurl
  captured :: bool
  user_locked :: bool
  pending_session_write :: bool

definition empty_url :: gurl where
  "empty_url = \<lparr>url_valid = False, url_spec = [], url_scheme = [], url_host = [], url_about_blank = False\<rparr>"

definition new_url_helper :: url_helper where
  "new_url_helper = \<lparr>initial_url = empty_url, captured = False, user_locked = False,
                     pending_session_write = False\<rparr>"

record url_contents =
  last_committed :: gurl
  can_persist :: bool
  url_data :: "url_helper option"

text \<open>\<open>can_persist\<close>: the profile is not off the record and has a session service.\<close>

record url_world =
  tabs :: "wc_id \<rightharpoonup> url_contents"
  session_writes :: "(wc_id \<times> string) list"
  loads :: "(wc_id \<times> gurl) list"

definition IsIgnorableStart :: "gurl \<Rightarrow> bool" where
  "IsIgnorableStart u \<longleftrightarrow>
     url_is_empty u \<or> url_about_blank u \<or> url_spec u = ''chrome://newtab/'' \<or>
     url_spec u = ''chrome://new-tab-page/'' \<or> url_spec u = ''chrome://new-tab-page-third-party/''"

definition IsAllowedInitialUrl :: "gurl \<Rightarrow> bool" where
  "IsAllowedInitialUrl u =
     (if \<not> url_valid u then False
      else if url_scheme u = ''http'' \<or> url_scheme u = ''https'' then True
      else url_spec u = ''about:blank'')"

definition EncodeExtraData :: "gurl \<Rightarrow> bool \<Rightarrow> string" where
  "EncodeExtraData u locked = (if locked then ''1'' else ''0'') @ url_spec u"

definition DecodeExtraData :: "(string \<Rightarrow> gurl) \<Rightarrow> string \<Rightarrow> (gurl \<times> bool) option" where
  "DecodeExtraData parse value =
     (if length value < 2 \<or> (value ! 0 \<noteq> CHR ''0'' \<and> value ! 0 \<noteq> CHR ''1'') then None
      else let parsed = parse (drop 1 value)
           in if \<not> url_valid parsed then None
              else if \<not> IsAllowedInitialUrl parsed then None
              else Some (parsed, value ! 0 = CHR ''1''))"

definition helper_of :: "url_world \<Rightarrow> wc_id \<Rightarrow> url_helper option" where
  "helper_of w wc = (case tabs w wc of None \<Rightarrow> None | Some c \<Rightarrow> url_data c)"

definition put_helper :: "wc_id \<Rightarrow> url_helper \<Rightarrow> url_world \<Rightarrow> url_world" where
  "put_helper wc h w =
     (case tabs w wc of None \<Rightarrow> w | Some c \<Rightarrow> w\<lparr>tabs := (tabs w)(wc \<mapsto> c\<lparr>url_data := Some h\<rparr>)\<rparr>)"

definition MaybeCreateForWebContents :: "bool \<Rightarrow> wc_id \<Rightarrow> url_world \<Rightarrow> url_world" where
  "MaybeCreateForWebContents feature wc w =
     (if \<not> feature \<or> tabs w wc = None \<or> helper_of w wc \<noteq> None then w
      else put_helper wc new_url_helper w)"

definition PersistToSession :: "wc_id \<Rightarrow> url_world \<Rightarrow> url_world" where
  "PersistToSession wc w =
     (case tabs w wc of
        None \<Rightarrow> w
      | Some c \<Rightarrow>
          if \<not> can_persist c then w
          else (case url_data c of
                  None \<Rightarrow> w
                | Some h \<Rightarrow> w\<lparr>session_writes := session_writes w @
                     [(wc, EncodeExtraData (initial_url h) (user_locked h))]\<rparr>))"

definition SetUserInitialUrl :: "wc_id \<Rightarrow> gurl \<Rightarrow> url_world \<Rightarrow> bool \<times> url_world" where
  "SetUserInitialUrl wc u w =
     (if \<not> IsAllowedInitialUrl u then (False, w)
      else case helper_of w wc of
             None \<Rightarrow> (False, w)
           | Some h \<Rightarrow> (True, PersistToSession wc
                 (put_helper wc (h\<lparr>initial_url := u, captured := True, user_locked := True\<rparr>) w)))"

definition SetRestoredInitialUrl :: "wc_id \<Rightarrow> gurl \<Rightarrow> bool \<Rightarrow> url_world \<Rightarrow> url_world" where
  "SetRestoredInitialUrl wc u locked w =
     (case helper_of w wc of
        None \<Rightarrow> w
      | Some h \<Rightarrow> put_helper wc (h\<lparr>initial_url := u, captured := True, user_locked := locked,
                                 pending_session_write := True\<rparr>) w)"

definition url_WillDiscardContents :: "bool \<Rightarrow> wc_id \<Rightarrow> wc_id \<Rightarrow> url_world \<Rightarrow> url_world" where
  "url_WillDiscardContents feature old_wc new_wc w =
     (case helper_of w old_wc of
        None \<Rightarrow> w
      | Some old \<Rightarrow>
          if tabs w new_wc = None then w
          else let w1 = MaybeCreateForWebContents feature new_wc w
               in (case helper_of w1 new_wc of
                     None \<Rightarrow> w1
                   | Some h \<Rightarrow> put_helper new_wc (h\<lparr>initial_url := initial_url old,
                        captured := captured old, user_locked := user_locked old\<rparr>) w1))"

definition url_PopulateExtraData :: "wc_id \<Rightarrow> url_world \<Rightarrow> (string \<rightharpoonup> string) \<Rightarrow> (string \<rightharpoonup> string)" where
  "url_PopulateExtraData wc w extra =
     (case helper_of w wc of
        None \<Rightarrow> extra
      | Some h \<Rightarrow> if captured h
                 then extra(kInitialUrlKey \<mapsto> EncodeExtraData (initial_url h) (user_locked h)) else extra)"

definition SetPendingRestoredInitialUrl ::
  "bool \<Rightarrow> (string \<Rightarrow> gurl) \<Rightarrow> wc_id \<Rightarrow> (string \<rightharpoonup> string) \<Rightarrow> url_world \<Rightarrow> url_world" where
  "SetPendingRestoredInitialUrl feature parse wc extra w =
     (case extra kInitialUrlKey of
        None \<Rightarrow> w
      | Some value \<Rightarrow>
          (case DecodeExtraData parse value of
             None \<Rightarrow> w
           | Some (u, locked) \<Rightarrow> SetRestoredInitialUrl wc u locked (MaybeCreateForWebContents feature wc w)))"

definition OnTabDuplicated :: "bool \<Rightarrow> wc_id \<Rightarrow> wc_id \<Rightarrow> url_world \<Rightarrow> url_world" where
  "OnTabDuplicated feature source_wc new_wc w =
     (case helper_of w source_wc of
        None \<Rightarrow> w
      | Some source \<Rightarrow>
          if \<not> captured source then w
          else let w1 = MaybeCreateForWebContents feature new_wc w
               in (case helper_of w1 new_wc of
                     None \<Rightarrow> w1
                   | Some h \<Rightarrow> PersistToSession new_wc (put_helper new_wc
                       (h\<lparr>initial_url := initial_url source, captured := captured source,
                          user_locked := user_locked source\<rparr>) w1)))"

subsection \<open>Capture\<close>

record navigation =
  nav_primary_main_frame :: bool
  nav_committed :: bool
  nav_same_document :: bool
  nav_from_bfcache :: bool
  nav_prerender_activation :: bool
  nav_transition :: "32 word"
  nav_renderer_initiated :: bool
  nav_entry_count :: int
  nav_last_entry_initial :: "bool option"
  nav_url :: gurl
  nav_redirect_chain :: "gurl list"

unbundle bit_operations_syntax

definition PAGE_TRANSITION_CLIENT_REDIRECT :: "32 word" where
  "PAGE_TRANSITION_CLIENT_REDIRECT = 0x40000000"

definition capture_head :: "navigation \<Rightarrow> gurl" where
  "capture_head n = (if nav_redirect_chain n = [] then nav_url n else hd (nav_redirect_chain n))"

definition captures :: "navigation \<Rightarrow> bool" where
  "captures n =
     (if \<not> nav_primary_main_frame n \<or> \<not> nav_committed n \<or> nav_same_document n then False
      else if nav_from_bfcache n \<or> nav_prerender_activation n then False
      else if nav_transition n AND PAGE_TRANSITION_CLIENT_REDIRECT \<noteq> 0 then False
      else if nav_renderer_initiated n \<and>
              (nav_entry_count n > 1 \<or> nav_last_entry_initial n = Some True) then False
      else if IsIgnorableStart (nav_url n) then False
      else \<not> IsIgnorableStart (capture_head n))"

definition DidFinishNavigation :: "wc_id \<Rightarrow> navigation \<Rightarrow> url_world \<Rightarrow> url_world" where
  "DidFinishNavigation wc n w =
     (case helper_of w wc of
        None \<Rightarrow> w
      | Some h \<Rightarrow>
          if captured h \<or> user_locked h then
            (if pending_session_write h \<and> nav_primary_main_frame n \<and> nav_committed n
             then PersistToSession wc (put_helper wc (h\<lparr>pending_session_write := False\<rparr>) w)
             else w)
          else if captures n then
            PersistToSession wc (put_helper wc (h\<lparr>initial_url := capture_head n, captured := True\<rparr>) w)
          else w)"

subsection \<open>Commands\<close>

definition CanReloadInitialUrlForContents :: "bool \<Rightarrow> wc_id option \<Rightarrow> url_world \<Rightarrow> bool" where
  "CanReloadInitialUrlForContents feature cont w =
     (if \<not> feature then False
      else case cont of
             None \<Rightarrow> False
           | Some wc \<Rightarrow> (case helper_of w wc of
                          None \<Rightarrow> False
                        | Some h \<Rightarrow> captured h \<and> url_valid (initial_url h)))"

text \<open>A browser is its tab strip's contents and the index of the active one, None for no browser.\<close>

type_synonym browser = "(wc_id list \<times> nat) option"

definition GetActiveWebContents :: "wc_id list \<times> nat \<Rightarrow> wc_id option" where
  "GetActiveWebContents b = (if snd b < length (fst b) then Some (fst b ! snd b) else None)"

definition CanReloadInitialUrl :: "bool \<Rightarrow> browser \<Rightarrow> url_world \<Rightarrow> bool" where
  "CanReloadInitialUrl feature b w =
     (case b of None \<Rightarrow> False
      | Some br \<Rightarrow> CanReloadInitialUrlForContents feature (GetActiveWebContents br) w)"

definition ActiveTabHelper :: "browser \<Rightarrow> url_world \<Rightarrow> url_helper option" where
  "ActiveTabHelper b w =
     (case b of None \<Rightarrow> None
      | Some br \<Rightarrow> (case GetActiveWebContents br of None \<Rightarrow> None | Some wc \<Rightarrow> helper_of w wc))"

definition ReloadInitialUrl :: "bool \<Rightarrow> browser \<Rightarrow> url_world \<Rightarrow> url_world" where
  "ReloadInitialUrl feature b w =
     (if \<not> CanReloadInitialUrl feature b w then w
      else case (b, ActiveTabHelper b w) of
             (Some br, Some h) \<Rightarrow>
               (case GetActiveWebContents br of
                  None \<Rightarrow> w
                | Some wc \<Rightarrow> w\<lparr>loads := loads w @ [(wc, initial_url h)]\<rparr>)
           | _ \<Rightarrow> w)"

definition kWhitespaceASCII :: "char set" where
  "kWhitespaceASCII = {CHR 0x09, CHR 0x0A, CHR 0x0B, CHR 0x0C, CHR 0x0D, CHR '' ''}"

definition TrimWhitespaceASCII :: "string \<Rightarrow> string" where
  "TrimWhitespaceASCII s =
     rev (dropWhile (\<lambda>c. c \<in> kWhitespaceASCII) (rev (dropWhile (\<lambda>c. c \<in> kWhitespaceASCII) s)))"

definition CommitEdit ::
  "bool \<Rightarrow> (string \<Rightarrow> gurl) \<Rightarrow> wc_id \<Rightarrow> string \<Rightarrow> url_world \<Rightarrow> bool \<times> url_world" where
  "CommitEdit feature fixup wc txt w =
     (let trimmed = TrimWhitespaceASCII txt
      in if trimmed = [] \<or> (\<exists>c \<in> set trimmed. c \<in> kWhitespaceASCII) then (False, w)
         else let u = fixup trimmed
              in if \<not> url_valid u then (False, w)
                 else let w1 = MaybeCreateForWebContents feature wc w
                      in if helper_of w1 wc = None then (False, w1)
                         else SetUserInitialUrl wc u w1)"

definition initial_text :: "wc_id \<Rightarrow> url_world \<Rightarrow> string" where
  "initial_text wc w =
     (case helper_of w wc of None \<Rightarrow> []
      | Some h \<Rightarrow> if captured h then url_spec (initial_url h) else [])"

definition CanSetToCurrentPage :: "wc_id \<Rightarrow> url_world \<Rightarrow> bool" where
  "CanSetToCurrentPage wc w =
     (case tabs w wc of None \<Rightarrow> False
      | Some c \<Rightarrow> let u = last_committed c
                 in url_valid u \<and> \<not> url_about_blank u \<and> url_spec u \<noteq> ''chrome://newtab/'')"

text \<open>\<open>BuildTabExtraDataCommands\<close>: the (key, value) pairs a session rewrite serializes for a tab.\<close>

definition BuildTabExtraDataCommands ::
  "url_helper option \<Rightarrow> uid option \<Rightarrow> bool \<Rightarrow> (string \<times> string) list" where
  "BuildTabExtraDataCommands url_h uid_h tab_id_valid =
     (if \<not> tab_id_valid then []
      else (case url_h of
              None \<Rightarrow> []
            | Some h \<Rightarrow> if captured h
                       then [(kInitialUrlKey, EncodeExtraData (initial_url h) (user_locked h))] else [])
         @ (case uid_h of
              None \<Rightarrow> []
            | Some u \<Rightarrow> if u \<noteq> [] then [(''roamux.tab_uid'', u)] else []))"

subsection \<open>Events and the scoped invariant\<close>

text \<open>What the browser and the user can do to the helpers, in any order.\<close>

datatype url_event =
    Opened wc_id gurl bool
  | Attached wc_id
  | Navigated wc_id navigation
  | Committed wc_id gurl
  | Edited wc_id string
  | Set_to_current wc_id
  | Restored wc_id "string \<rightharpoonup> string"
  | Discarded wc_id wc_id
  | Duplicated wc_id wc_id
  | Closed wc_id

fun url_event_step :: "bool \<Rightarrow> (string \<Rightarrow> gurl) \<Rightarrow> (string \<Rightarrow> gurl) \<Rightarrow> url_event \<Rightarrow> url_world \<Rightarrow> url_world" where
  "url_event_step f parse fixup (Opened wc u p) w =
     (if tabs w wc \<noteq> None then w
      else w\<lparr>tabs := (tabs w)(wc \<mapsto> \<lparr>last_committed = u, can_persist = p, url_data = None\<rparr>)\<rparr>)"
| "url_event_step f parse fixup (Attached wc) w = MaybeCreateForWebContents f wc w"
| "url_event_step f parse fixup (Navigated wc n) w = DidFinishNavigation wc n w"
| "url_event_step f parse fixup (Committed wc u) w =
     (case tabs w wc of None \<Rightarrow> w | Some c \<Rightarrow> w\<lparr>tabs := (tabs w)(wc \<mapsto> c\<lparr>last_committed := u\<rparr>)\<rparr>)"
| "url_event_step f parse fixup (Edited wc t) w = snd (CommitEdit f fixup wc t w)"
| "url_event_step f parse fixup (Set_to_current wc) w =
     (case tabs w wc of None \<Rightarrow> w
      | Some c \<Rightarrow> if CanSetToCurrentPage wc w
                 then snd (SetUserInitialUrl wc (last_committed c) (MaybeCreateForWebContents f wc w)) else w)"
| "url_event_step f parse fixup (Restored wc extra) w = SetPendingRestoredInitialUrl f parse wc extra w"
| "url_event_step f parse fixup (Discarded a b) w = url_WillDiscardContents f a b w"
| "url_event_step f parse fixup (Duplicated a b) w = OnTabDuplicated f a b w"
| "url_event_step f parse fixup (Closed wc) w = w\<lparr>tabs := (tabs w)(wc := None)\<rparr>"

definition no_tabs :: url_world where
  "no_tabs = \<lparr>tabs = Map.empty, session_writes = [], loads = []\<rparr>"

definition helper_ok :: "url_helper \<Rightarrow> bool" where
  "helper_ok h \<longleftrightarrow> (user_locked h \<longrightarrow> captured h \<and> IsAllowedInitialUrl (initial_url h))"

definition url_inv :: "url_world \<Rightarrow> bool" where
  "url_inv w \<longleftrightarrow> (\<forall>wc h. helper_of w wc = Some h \<longrightarrow> helper_ok h) \<and>
     (\<forall>(wc, v) \<in> set (session_writes w). \<exists>u l. v = EncodeExtraData u l \<and> (l \<longrightarrow> IsAllowedInitialUrl u))"

lemma helper_of_put:
  "helper_of (put_helper wc h w) b = (if b = wc \<and> tabs w wc \<noteq> None then Some h else helper_of w b)"
  by (auto simp: helper_of_def put_helper_def split: option.split)

lemma tabs_put:
  "tabs (put_helper wc h w) = (case tabs w wc of None \<Rightarrow> tabs w
     | Some c \<Rightarrow> (tabs w)(wc \<mapsto> c\<lparr>url_data := Some h\<rparr>))"
  by (simp add: put_helper_def split: option.split)

lemma writes_put [simp]: "session_writes (put_helper wc h w) = session_writes w"
  by (simp add: put_helper_def split: option.split)

lemma tabs_put_None [simp]: "tabs (put_helper wc h w) b = None \<longleftrightarrow> tabs w b = None"
  by (simp add: put_helper_def split: option.split)

lemma helper_of_Persist [simp]: "helper_of (PersistToSession wc w) b = helper_of w b"
  by (simp add: helper_of_def PersistToSession_def split: option.split)

lemma helper_of_Some_tabs: "helper_of w wc = Some h \<Longrightarrow> tabs w wc \<noteq> None"
  by (auto simp: helper_of_def split: option.splits)

lemma writes_Persist:
  "session_writes (PersistToSession wc w) = session_writes w \<or>
   (\<exists>h. helper_of w wc = Some h \<and> session_writes (PersistToSession wc w) =
      session_writes w @ [(wc, EncodeExtraData (initial_url h) (user_locked h))])"
  by (auto simp: PersistToSession_def helper_of_def split: option.split)

lemma put_inv [inv_intros]: "url_inv w \<Longrightarrow> helper_ok h \<Longrightarrow> url_inv (put_helper wc h w)"
  by (simp add: url_inv_def helper_of_put)

lemma Persist_inv [inv_intros]: "url_inv w \<Longrightarrow> url_inv (PersistToSession wc w)"
proof -
  assume inv: "url_inv w"
  show ?thesis
    using inv writes_Persist [of wc w] unfolding url_inv_def
    by (elim disjE exE conjE) (fastforce simp: helper_ok_def)+
qed

lemma new_helper_ok [simp]: "helper_ok new_url_helper"
  by (simp add: helper_ok_def new_url_helper_def)

lemma Create_inv [inv_intros]: "url_inv w \<Longrightarrow> url_inv (MaybeCreateForWebContents f wc w)"
  by (simp add: MaybeCreateForWebContents_def put_inv)

lemma url_invD: "url_inv w \<Longrightarrow> helper_of w wc = Some h \<Longrightarrow> helper_ok h"
  by (simp add: url_inv_def)

lemma SetUser_inv [inv_intros]: "url_inv w \<Longrightarrow> url_inv (snd (SetUserInitialUrl wc u w))"
  by (auto simp: SetUserInitialUrl_def helper_ok_def intro!: Persist_inv put_inv split: option.split)

lemma Decode_allowed: "DecodeExtraData parse v = Some (u, l) \<Longrightarrow> IsAllowedInitialUrl u"
  by (auto simp: DecodeExtraData_def Let_def split: if_splits)

lemma Restored_inv [inv_intros]: "url_inv w \<Longrightarrow> url_inv (SetPendingRestoredInitialUrl f parse wc extra w)"
  by (auto simp: SetPendingRestoredInitialUrl_def SetRestoredInitialUrl_def helper_ok_def
      intro!: put_inv Create_inv dest: Decode_allowed split: option.split)

lemma Discard_inv [inv_intros]: "url_inv w \<Longrightarrow> url_inv (url_WillDiscardContents f a b w)"
  by (auto simp: url_WillDiscardContents_def Let_def helper_ok_def intro!: put_inv Create_inv
      dest: url_invD split: option.split)

lemma Duplicate_inv [inv_intros]: "url_inv w \<Longrightarrow> url_inv (OnTabDuplicated f a b w)"
  by (auto simp: OnTabDuplicated_def Let_def helper_ok_def intro!: Persist_inv put_inv Create_inv
      dest: url_invD split: option.split)

lemma Navigation_inv [inv_intros]: "url_inv w \<Longrightarrow> url_inv (DidFinishNavigation wc n w)"
  by (auto simp: DidFinishNavigation_def helper_ok_def intro!: Persist_inv put_inv
      dest: url_invD split: option.split)

lemma Edit_inv [inv_intros]: "url_inv w \<Longrightarrow> url_inv (snd (CommitEdit f fixup wc t w))"
  by (simp add: CommitEdit_def Let_def SetUser_inv Create_inv)

lemma event_inv [inv_intros]: "url_inv w \<Longrightarrow> url_inv (url_event_step f parse fixup e w)"
proof (cases e)
  case (Opened wc u p)
  assume "url_inv w"
  then show ?thesis by (auto simp: Opened url_inv_def helper_of_def split: if_splits)
next
  case (Committed wc u)
  assume inv: "url_inv w"
  show ?thesis
  proof (cases "tabs w wc")
    case (Some c)
    have "helper_of (w\<lparr>tabs := (tabs w)(wc \<mapsto> c\<lparr>last_committed := u\<rparr>)\<rparr>) = helper_of w"
      using Some by (simp add: helper_of_def fun_eq_iff)
    then show ?thesis using inv Some by (simp add: Committed url_inv_def)
  qed (use inv Committed in simp)
next
  case (Closed wc)
  assume "url_inv w"
  then show ?thesis by (auto simp: Closed url_inv_def helper_of_def split: if_splits)
qed (simp_all add: Create_inv Navigation_inv Edit_inv SetUser_inv Restored_inv Discard_inv
     Duplicate_inv split: option.split)

definition run_url_events ::
  "bool \<Rightarrow> (string \<Rightarrow> gurl) \<Rightarrow> (string \<Rightarrow> gurl) \<Rightarrow> url_event list \<Rightarrow> url_world" where
  "run_url_events f parse fixup es = fold (url_event_step f parse fixup) es no_tabs"

lemma run_inv: "url_inv (run_url_events f parse fixup es)"
proof -
  have "url_inv (fold (url_event_step f parse fixup) es w)" if "url_inv w" for w
    using that
  proof (induction es arbitrary: w)
    case (Cons e es)
    from Cons.IH [OF event_inv [OF Cons.prems]] show ?case by simp
  qed simp
  moreover have "url_inv no_tabs" by (simp add: url_inv_def no_tabs_def helper_of_def)
  ultimately show ?thesis unfolding run_url_events_def by blast
qed

text \<open>
  What an event writes to the session is the value and lock of the tab's helper as the event leaves it. The
  operations write at their end, so an event adds at most the current value of one tab.
\<close>

definition writes_current :: "url_world \<Rightarrow> url_world \<Rightarrow> bool" where
  "writes_current w w' \<longleftrightarrow> session_writes w' = session_writes w \<or>
     (\<exists>wc h. helper_of w' wc = Some h \<and>
        session_writes w' = session_writes w @ [(wc, EncodeExtraData (initial_url h) (user_locked h))])"

lemma writes_current_same: "session_writes w' = session_writes w \<Longrightarrow> writes_current w w'"
  by (simp add: writes_current_def)

lemma writes_current_Persist: "session_writes w = session_writes w0 \<Longrightarrow> writes_current w0 (PersistToSession wc w)"
  using writes_Persist [of wc w] by (auto simp: writes_current_def)

lemma writes_Create [simp]: "session_writes (MaybeCreateForWebContents f wc w) = session_writes w"
  by (simp add: MaybeCreateForWebContents_def)

lemma writes_current_SetUser: "session_writes w = session_writes w0 \<Longrightarrow> writes_current w0 (snd (SetUserInitialUrl wc u w))"
  by (auto simp: SetUserInitialUrl_def writes_current_same intro!: writes_current_Persist split: option.split)

lemma event_writes_current: "writes_current w (url_event_step f parse fixup e w)"
  by (cases e)
    (auto simp: DidFinishNavigation_def CommitEdit_def SetPendingRestoredInitialUrl_def SetRestoredInitialUrl_def
      url_WillDiscardContents_def OnTabDuplicated_def Let_def
      intro!: writes_current_same writes_current_Persist writes_current_SetUser split: option.split)

lemma run_url_snoc: "run_url_events f parse fixup (es @ [e]) = url_event_step f parse fixup e (run_url_events f parse fixup es)"
  by (simp add: run_url_events_def)

lemma written_was_held:
  "(wc, v) \<in> set (session_writes (run_url_events f parse fixup es)) \<Longrightarrow>
   \<exists>k \<le> length es. \<exists>h. helper_of (run_url_events f parse fixup (take k es)) wc = Some h \<and>
     v = EncodeExtraData (initial_url h) (user_locked h)"
proof (induction es rule: rev_induct)
  case Nil
  then show ?case by (simp add: run_url_events_def no_tabs_def)
next
  case (snoc e es)
  let ?w = "run_url_events f parse fixup es" and ?w' = "run_url_events f parse fixup (es @ [e])"
  consider "(wc, v) \<in> set (session_writes ?w)"
    | h where "helper_of ?w' wc = Some h" "v = EncodeExtraData (initial_url h) (user_locked h)"
    using event_writes_current [of ?w f parse fixup e] snoc.prems
    unfolding writes_current_def run_url_snoc [symmetric] by auto
  then show ?case
  proof cases
    case 1
    from snoc.IH [OF this] obtain k h where "k \<le> length es" "helper_of (run_url_events f parse fixup (take k es)) wc = Some h"
      "v = EncodeExtraData (initial_url h) (user_locked h)" by blast
    then show ?thesis by (intro exI [of _ k]) simp
  next
    case 2
    then show ?thesis by (intro exI [of _ "length (es @ [e])"]) simp
  qed
qed

text \<open>
  C16: the scoped invariant. After any sequence of tab events, edits, restores, discards and
  duplications, whatever the parser and the fix-up return, a locked value is captured and is http(s)
  or exactly about:blank. Every value in the session is the encoding of what the tab's own helper held at some moment
  of the sequence, so one with a set lock bit is the spec of such a URL.
\<close>

theorem locked_values_are_allowed:
  "(\<forall>wc h. helper_of (run_url_events f parse fixup es) wc = Some h \<longrightarrow> user_locked h \<longrightarrow>
      captured h \<and> IsAllowedInitialUrl (initial_url h)) \<and>
   (\<forall>(wc, v) \<in> set (session_writes (run_url_events f parse fixup es)).
      \<exists>k \<le> length es. \<exists>h. helper_of (run_url_events f parse fixup (take k es)) wc = Some h \<and>
        v = (if user_locked h then ''1'' else ''0'') @ url_spec (initial_url h) \<and>
        (hd v = CHR ''1'' \<longrightarrow> IsAllowedInitialUrl (initial_url h)))"
proof -
  have held: "helper_of (run_url_events f parse fixup xs) wc = Some h \<Longrightarrow> user_locked h \<Longrightarrow> captured h \<and> IsAllowedInitialUrl (initial_url h)"
    for xs wc h
    using run_inv [of f parse fixup xs] by (auto simp: url_inv_def helper_ok_def)
  have "\<exists>k \<le> length es. \<exists>h. helper_of (run_url_events f parse fixup (take k es)) wc = Some h \<and>
        v = (if user_locked h then ''1'' else ''0'') @ url_spec (initial_url h) \<and>
        (hd v = CHR ''1'' \<longrightarrow> IsAllowedInitialUrl (initial_url h))"
    if v: "(wc, v) \<in> set (session_writes (run_url_events f parse fixup es))" for wc v
  proof -
    obtain k h where "k \<le> length es" "helper_of (run_url_events f parse fixup (take k es)) wc = Some h"
      "v = EncodeExtraData (initial_url h) (user_locked h)" using written_was_held [OF v] by blast
    then show ?thesis
      using held by (intro exI [of _ k] conjI exI [of _ h]) (auto simp: EncodeExtraData_def split: if_splits)
  qed
  then show ?thesis using held by blast
qed

definition toy_parse :: "string \<Rightarrow> gurl" where
  "toy_parse s = \<lparr>url_valid = s \<noteq> [], url_spec = s,
     url_scheme = (if take 5 s = ''http:'' then ''http'' else []), url_host = [],
     url_about_blank = (s = ''about:blank'')\<rparr>"

lemma locked_values_are_allowed_witness:
  "(let w = run_url_events True toy_parse toy_parse
          [Opened 0 (toy_parse ''http:a'') True, Attached 0, Set_to_current 0] in
    \<exists>h. helper_of w 0 = Some h \<and> user_locked h \<and> IsAllowedInitialUrl (initial_url h))"
proof -
  define w where "w = run_url_events True toy_parse toy_parse
          [Opened 0 (toy_parse ''http:a'') True, Attached 0, Set_to_current 0]"
  have "\<exists>h. helper_of w 0 = Some h \<and> user_locked h"
    by (simp add: w_def run_url_events_def no_tabs_def MaybeCreateForWebContents_def helper_of_def
        put_helper_def CanSetToCurrentPage_def toy_parse_def SetUserInitialUrl_def
        IsAllowedInitialUrl_def PersistToSession_def Let_def)
  then show ?thesis
    using locked_values_are_allowed [of True toy_parse toy_parse
          "[Opened 0 (toy_parse ''http:a'') True, Attached 0, Set_to_current 0]"]
    unfolding w_def [symmetric] Let_def by blast
qed

subsection \<open>Capture, restore and the session channel\<close>

lemma capture_head_list: "capture_head n = (case nav_redirect_chain n of [] \<Rightarrow> nav_url n | u # us \<Rightarrow> u)"
  by (simp add: capture_head_def split: list.split)

text \<open>A helper that holds a value keeps value, lock and hold over navigations.\<close>

definition holds :: "url_helper \<Rightarrow> bool" where "holds h \<longleftrightarrow> captured h \<or> user_locked h"

lemma navigation_keeps:
  assumes "helper_of v wc = Some g" and "holds g"
  shows "\<exists>g'. helper_of (DidFinishNavigation wc m v) wc = Some g' \<and> initial_url g' = initial_url g \<and>
      user_locked g' = user_locked g \<and> captured g' = captured g"
  using assms by (auto simp: holds_def DidFinishNavigation_def helper_of_put dest: helper_of_Some_tabs)

lemma navigations_keep:
  "helper_of v wc = Some g \<Longrightarrow> holds g \<Longrightarrow>
   \<exists>g'. helper_of (fold (DidFinishNavigation wc) ns v) wc = Some g' \<and> initial_url g' = initial_url g \<and>
      user_locked g' = user_locked g \<and> captured g' = captured g"
proof (induction ns arbitrary: v g)
  case (Cons m ns)
  from navigation_keeps [OF Cons.prems, of m] obtain g' where g': "helper_of (DidFinishNavigation wc m v) wc = Some g'"
    "initial_url g' = initial_url g" "user_locked g' = user_locked g" "captured g' = captured g" by blast
  then have "holds g'" using Cons.prems(2) by (simp add: holds_def)
  from Cons.IH [OF g'(1) this] show ?case by (simp add: g'(2-4))
qed auto

text \<open>A navigation that fails a gate does nothing at all to a helper without a value.\<close>

lemma navigation_refused: "helper_of v wc = Some g \<Longrightarrow> \<not> holds g \<Longrightarrow> \<not> captures n \<Longrightarrow> DidFinishNavigation wc n v = v"
  by (simp add: DidFinishNavigation_def holds_def)

lemma navigations_refused:
  "helper_of v wc = Some g \<Longrightarrow> \<not> holds g \<Longrightarrow> \<forall>n \<in> set ns. \<not> captures n \<Longrightarrow> fold (DidFinishNavigation wc) ns v = v"
  by (induction ns) (simp_all add: navigation_refused)

text \<open>
  C32: capture is exact and sticky. Take any sequence of finished navigations in a tab. A helper that holds a value keeps it, with
  its lock. One that holds none takes the head of the redirect chain of the first navigation that passes
  every gate, unlocked, and no later navigation changes that: the gates are a committed navigation of the primary main frame to another
  document, neither from the back-forward cache nor a prerender activation nor a client redirect, not started by
  the renderer unless it is the tab's first, and neither the target nor the head ignorable. If none passes them all,
  the world is unchanged.
\<close>

theorem capture_is_sticky:
  assumes "helper_of w wc = Some h"
    and passes: "\<forall>n :: navigation. passes n \<longleftrightarrow> nav_primary_main_frame n \<and> nav_committed n \<and> \<not> nav_same_document n \<and> \<not> nav_from_bfcache n \<and>
      \<not> nav_prerender_activation n \<and> nav_transition n AND 0x40000000 = 0 \<and>
      (nav_renderer_initiated n \<longrightarrow> nav_entry_count n \<le> 1 \<and> nav_last_entry_initial n \<noteq> Some True) \<and>
      \<not> IsIgnorableStart (nav_url n) \<and> \<not> IsIgnorableStart (case nav_redirect_chain n of [] \<Rightarrow> nav_url n | u # us \<Rightarrow> u)"
    and w': "w' = fold (DidFinishNavigation wc) ns w"
  shows "if captured h \<or> user_locked h
     then \<exists>g. helper_of w' wc = Some g \<and> initial_url g = initial_url h \<and> user_locked g = user_locked h \<and> captured g = captured h
     else (case find passes ns of
         None \<Rightarrow> w' = w
       | Some n \<Rightarrow> \<exists>g. helper_of w' wc = Some g \<and> captured g \<and> \<not> user_locked g \<and>
           initial_url g = (case nav_redirect_chain n of [] \<Rightarrow> nav_url n | u # us \<Rightarrow> u))"
proof -
  have gates: "passes n \<longleftrightarrow> captures n" for n
    unfolding spec [OF passes, of n] captures_def capture_head_list PAGE_TRANSITION_CLIENT_REDIRECT_def
    by (simp add: not_less [symmetric]) argo
  show ?thesis
  proof (cases "captured h \<or> user_locked h")
    case True
    then show ?thesis using navigations_keep [OF assms(1)] by (simp add: holds_def w')
  next
    case False
    show ?thesis
    proof (cases "find passes ns")
      case None
      then have "\<forall>n \<in> set ns. \<not> captures n" by (simp add: find_None_iff gates)
      then show ?thesis using navigations_refused [OF assms(1)] False None by (simp add: holds_def w')
    next
      case (Some n)
      then obtain i where i: "i < length ns" "captures (ns ! i)" "n = ns ! i" "\<forall>j < i. \<not> captures (ns ! j)"
        by (auto simp: find_Some_iff gates)
      let ?g = "h\<lparr>initial_url := capture_head n, captured := True\<rparr>"
      have "\<forall>m \<in> set (take i ns). \<not> captures m" using i(4) by (auto simp: in_set_conv_nth)
      then have before: "fold (DidFinishNavigation wc) (take i ns) w = w"
        using navigations_refused [OF assms(1)] False by (simp add: holds_def)
      have "helper_of (DidFinishNavigation wc n w) wc = Some ?g"
        using False assms(1) i(2,3) by (auto simp: DidFinishNavigation_def helper_of_put dest: helper_of_Some_tabs)
      from navigations_keep [OF this, of "drop (Suc i) ns"]
      have "\<exists>g. helper_of (fold (DidFinishNavigation wc) (drop (Suc i) ns) (DidFinishNavigation wc n w)) wc = Some g \<and>
          captured g \<and> \<not> user_locked g \<and> initial_url g = capture_head n" using False by (auto simp: holds_def)
      moreover have "w' = fold (DidFinishNavigation wc) (drop (Suc i) ns) (DidFinishNavigation wc n w)"
        unfolding w' by (subst id_take_nth_drop [OF i(1)]) (simp add: before i(3))
      ultimately show ?thesis using False Some by (auto simp: capture_head_def split: list.split)
    qed
  qed
qed

definition blank_tab :: url_world where
  "blank_tab = no_tabs\<lparr>tabs := [0 \<mapsto> \<lparr>last_committed = empty_url, can_persist = True,
                                       url_data = Some new_url_helper\<rparr>]\<rparr>"

definition typed_nav :: "gurl \<Rightarrow> gurl list \<Rightarrow> navigation" where
  "typed_nav u chain = \<lparr>nav_primary_main_frame = True, nav_committed = True, nav_same_document = False,
     nav_from_bfcache = False, nav_prerender_activation = False, nav_transition = 1,
     nav_renderer_initiated = False, nav_entry_count = 1, nav_last_entry_initial = Some False,
     nav_url = u, nav_redirect_chain = chain\<rparr>"

lemma capture_is_sticky_witness:
  "let n0 = (typed_nav (toy_parse ''http:x'') [])\<lparr>nav_same_document := True\<rparr>;
       n1 = typed_nav (toy_parse ''http:sso'') [toy_parse ''http:a'', toy_parse ''http:sso''];
       n2 = typed_nav (toy_parse ''http:b'') []
   in \<exists>h. helper_of (fold (DidFinishNavigation 0) [n0, n1, n2] blank_tab) 0 = Some h \<and> initial_url h = toy_parse ''http:a''"
proof -
  let ?n0 = "(typed_nav (toy_parse ''http:x'') [])\<lparr>nav_same_document := True\<rparr>"
  let ?n1 = "typed_nav (toy_parse ''http:sso'') [toy_parse ''http:a'', toy_parse ''http:sso'']"
  let ?n2 = "typed_nav (toy_parse ''http:b'') []"
  have h: "helper_of blank_tab 0 = Some new_url_helper" by (simp add: blank_tab_def helper_of_def)
  define passes :: "navigation \<Rightarrow> bool" where "passes n \<longleftrightarrow> nav_primary_main_frame n \<and> nav_committed n \<and> \<not> nav_same_document n \<and> \<not> nav_from_bfcache n \<and>
      \<not> nav_prerender_activation n \<and> nav_transition n AND 0x40000000 = 0 \<and>
      (nav_renderer_initiated n \<longrightarrow> nav_entry_count n \<le> 1 \<and> nav_last_entry_initial n \<noteq> Some True) \<and>
      \<not> IsIgnorableStart (nav_url n) \<and> \<not> IsIgnorableStart (case nav_redirect_chain n of [] \<Rightarrow> nav_url n | u # us \<Rightarrow> u)" for n
  have "find passes [?n0, ?n1, ?n2] = Some ?n1"
    by (simp add: passes_def typed_nav_def toy_parse_def IsIgnorableStart_def url_is_empty_def)
  then show ?thesis
    using capture_is_sticky [of blank_tab 0 new_url_helper passes _ "[?n0, ?n1, ?n2]", OF h _ refl]
    by (auto simp: passes_def new_url_helper_def typed_nav_def Let_def)
qed

text \<open>
  A stored value round-trips exactly when it is allowed. Decoding what encoding wrote gives back
  the URL and the lock bit if the URL is an allowed one, and refuses it otherwise (the parser reads a
  canonical spec back as the same URL).
\<close>

theorem decode_encode:
  assumes "parse (url_spec u) = u" and "url_spec u \<noteq> []"
  shows "DecodeExtraData parse (EncodeExtraData u locked) =
           (if IsAllowedInitialUrl u then Some (u, locked) else None)"
proof -
  have "1 \<le> length (url_spec u)" using assms(2) by (cases "url_spec u") auto
  then have "2 \<le> length (EncodeExtraData u locked)"
    and "EncodeExtraData u locked ! 0 = (if locked then CHR ''1'' else CHR ''0'')"
    and "drop 1 (EncodeExtraData u locked) = url_spec u"
    by (auto simp: EncodeExtraData_def)
  moreover have "IsAllowedInitialUrl u \<Longrightarrow> url_valid u" by (simp add: IsAllowedInitialUrl_def split: if_splits)
  ultimately show ?thesis using assms(1) by (auto simp: DecodeExtraData_def)
qed

lemma decode_encode_witness:
  "DecodeExtraData toy_parse (EncodeExtraData (toy_parse ''http:a'') True) = Some (toy_parse ''http:a'', True) \<and>
   DecodeExtraData toy_parse (EncodeExtraData (toy_parse ''javascript:x'') True) = None"
  using decode_encode [of toy_parse "toy_parse ''http:a''" True]
    decode_encode [of toy_parse "toy_parse ''javascript:x''" True]
  by (simp add: toy_parse_def IsAllowedInitialUrl_def)

definition committed_main :: "navigation \<Rightarrow> bool" where
  "committed_main n \<longleftrightarrow> nav_primary_main_frame n \<and> nav_committed n"

lemma no_more_writes:
  "helper_of v wc = Some g \<Longrightarrow> captured g \<Longrightarrow> \<not> pending_session_write g \<Longrightarrow>
   fold (DidFinishNavigation wc) ns v = v"
  by (induction ns) (simp_all add: DidFinishNavigation_def)

text \<open>
  A restored value reaches the session exactly once more. After a restore of a decodable value,
  the first committed primary main-frame navigation writes it to the session with its lock bit and
  further navigations write nothing.
\<close>

theorem restored_value_persists_once:
  assumes "tabs w wc = Some c" and "can_persist c" and "feature"
    and "extra kInitialUrlKey = Some v" and "DecodeExtraData parse v = Some (u, locked)"
    and "w1 = SetPendingRestoredInitialUrl feature parse wc extra w" and "committed_main n"
  shows "session_writes w1 = session_writes w \<and>
         session_writes (fold (DidFinishNavigation wc) (n # ns) w1) =
           session_writes w @ [(wc, EncodeExtraData u locked)]"
proof -
  define g where "g = (case helper_of w wc of None \<Rightarrow> new_url_helper | Some h \<Rightarrow> h)
      \<lparr>initial_url := u, captured := True, user_locked := locked, pending_session_write := True\<rparr>"
  have g: "helper_of w1 wc = Some g" and wr: "session_writes w1 = session_writes w"
    and tab: "\<exists>c'. tabs w1 wc = Some c' \<and> can_persist c'"
    unfolding assms(6) g_def using assms(1-5)
    by (auto simp: SetPendingRestoredInitialUrl_def SetRestoredInitialUrl_def helper_of_put
        MaybeCreateForWebContents_def tabs_put split: option.split)
  have gf: "captured g" "pending_session_write g" "initial_url g = u" "user_locked g = locked"
    by (simp_all add: g_def)
  let ?h = "g\<lparr>pending_session_write := False\<rparr>"
  have step: "DidFinishNavigation wc n w1 = PersistToSession wc (put_helper wc ?h w1)"
    using g gf assms(7) by (simp add: DidFinishNavigation_def committed_main_def)
  have h: "helper_of (DidFinishNavigation wc n w1) wc = Some ?h"
    using helper_of_Some_tabs [OF g] by (simp add: step helper_of_put)
  have "session_writes (DidFinishNavigation wc n w1) = session_writes w @ [(wc, EncodeExtraData u locked)]"
    using tab gf by (auto simp: step PersistToSession_def put_helper_def wr)
  then show ?thesis using wr no_more_writes [OF h] gf by simp
qed

lemma restored_value_persists_once_witness:
  "session_writes (DidFinishNavigation 0 (typed_nav (toy_parse ''http:z'') [])
     (SetPendingRestoredInitialUrl True toy_parse 0 [kInitialUrlKey \<mapsto> ''1http:a''] blank_tab)) =
   [(0, ''1http:a'')]"
  using restored_value_persists_once [of blank_tab 0 _ True "[kInitialUrlKey \<mapsto> ''1http:a'']" "''1http:a''"
      toy_parse "toy_parse ''http:a''" True _ "typed_nav (toy_parse ''http:z'') []" "[]", OF _ _ _ _ _ refl]
  by (simp add: blank_tab_def no_tabs_def DecodeExtraData_def toy_parse_def IsAllowedInitialUrl_def
      committed_main_def typed_nav_def EncodeExtraData_def)

text \<open>
  A discard before that first navigation drops the pending write. The replacement carries value
  and lock but not the pending flag, so however many navigations follow in it the restored value is
  never written to the session.
\<close>

theorem discard_drops_pending_write:
  assumes "helper_of w old_wc = Some old" and "captured old"
    and "tabs w new_wc = Some nc" and "url_data nc = None" and "feature"
    and "w1 = url_WillDiscardContents feature old_wc new_wc w"
  shows "(\<exists>h. helper_of w1 new_wc = Some h \<and> initial_url h = initial_url old \<and>
              captured h \<and> user_locked h = user_locked old \<and> \<not> pending_session_write h) \<and>
         session_writes (fold (DidFinishNavigation new_wc) ns w1) = session_writes w"
proof -
  have n: "helper_of w new_wc = None" using assms by (simp add: helper_of_def)
  define h where "h = new_url_helper\<lparr>initial_url := initial_url old, captured := captured old,
      user_locked := user_locked old\<rparr>"
  have h: "helper_of w1 new_wc = Some h" and wr: "session_writes w1 = session_writes w"
    unfolding assms(6) h_def using assms(1-5) n
    by (simp_all add: url_WillDiscardContents_def MaybeCreateForWebContents_def helper_of_put)
  have hf: "initial_url h = initial_url old" "captured h" "user_locked h = user_locked old"
      "\<not> pending_session_write h"
    using assms(2) by (simp_all add: h_def new_url_helper_def)
  then show ?thesis using h wr no_more_writes [OF h] by simp
qed

lemma discard_drops_pending_write_witness:
  "session_writes (fold (DidFinishNavigation 1) [typed_nav (toy_parse ''http:z'') []]
     (url_WillDiscardContents True 0 1
        ((SetPendingRestoredInitialUrl True toy_parse 0 [kInitialUrlKey \<mapsto> ''1http:a''] blank_tab)
           \<lparr>tabs := (tabs (SetPendingRestoredInitialUrl True toy_parse 0 [kInitialUrlKey \<mapsto> ''1http:a''] blank_tab))
              (1 \<mapsto> \<lparr>last_committed = empty_url, can_persist = True, url_data = None\<rparr>)\<rparr>))) = []"
proof -
  define v where "v = SetPendingRestoredInitialUrl True toy_parse 0 [kInitialUrlKey \<mapsto> ''1http:a''] blank_tab"
  define w where "w = v\<lparr>tabs := (tabs v)(1 \<mapsto> \<lparr>last_committed = empty_url, can_persist = True, url_data = None\<rparr>)\<rparr>"
  have h: "helper_of w 0 = Some \<lparr>initial_url = toy_parse ''http:a'', captured = True, user_locked = True,
      pending_session_write = True\<rparr>" and e: "session_writes w = []"
    by (simp_all add: w_def v_def SetPendingRestoredInitialUrl_def DecodeExtraData_def toy_parse_def
        IsAllowedInitialUrl_def SetRestoredInitialUrl_def MaybeCreateForWebContents_def helper_of_def
        blank_tab_def put_helper_def no_tabs_def new_url_helper_def)
  have t: "tabs w 1 = Some \<lparr>last_committed = empty_url, can_persist = True, url_data = None\<rparr>"
    by (simp add: w_def)
  show ?thesis
    unfolding v_def [symmetric] w_def [symmetric] e [symmetric]
    by (rule conjunct2, rule discard_drops_pending_write [OF h _ t _ _ refl]) simp_all
qed

text \<open>
  An edit writes only what the allowlist accepts. Text that is empty, contains inner white space,
  does not fix up to a valid URL or fixes up to a disallowed one leaves every helper's value and lock
  and the session untouched; otherwise the value is set, locked and persisted.
\<close>

theorem edit_refuses_or_locks:
  assumes "(ok, w') = CommitEdit feature fixup wc txt w"
  shows "if ok then (\<exists>h. helper_of w' wc = Some h \<and> initial_url h = fixup (TrimWhitespaceASCII txt) \<and>
                        captured h \<and> user_locked h \<and> IsAllowedInitialUrl (initial_url h))
         else session_writes w' = session_writes w \<and>
              (\<forall>b h. helper_of w b = Some h \<longrightarrow> helper_of w' b = Some h) \<and>
              (\<forall>b h. helper_of w' b = Some h \<longrightarrow> helper_of w b = Some h \<or> \<not> captured h)"
  using assms
  by (auto simp: CommitEdit_def SetUserInitialUrl_def Let_def helper_of_put MaybeCreateForWebContents_def
      new_url_helper_def dest: helper_of_Some_tabs split: if_splits option.splits)

lemma edit_refuses_or_locks_witness:
  "(\<exists>h. helper_of (snd (CommitEdit True toy_parse 0 '' http:x '' blank_tab)) 0 = Some h \<and> user_locked h) \<and>
   session_writes (snd (CommitEdit True toy_parse 0 ''a b'' blank_tab)) = []"
proof -
  have "fst (CommitEdit True toy_parse 0 '' http:x '' blank_tab)"
    and "\<not> fst (CommitEdit True toy_parse 0 ''a b'' blank_tab)"
    by (simp_all add: CommitEdit_def TrimWhitespaceASCII_def kWhitespaceASCII_def toy_parse_def Let_def
        MaybeCreateForWebContents_def helper_of_def blank_tab_def SetUserInitialUrl_def IsAllowedInitialUrl_def)
  then show ?thesis
    using edit_refuses_or_locks [of _ _ True toy_parse 0 "'' http:x ''" blank_tab, OF prod.collapse]
      edit_refuses_or_locks [of _ _ True toy_parse 0 "''a b''" blank_tab, OF prod.collapse]
    by (auto simp: blank_tab_def no_tabs_def)
qed

end
