(* ===== verification/Refresh_Run.thy ===== *)
theory Refresh_Run
  imports Refresh Initial_Url "HOL-Library.Multiset"
begin

text \<open>
  The chrome-facing half of the refresh: \<open>roamux/browser/tabs/initial_url_refresh_run.cc\<close> (the
  scheduler's delegate over a browser's tabs) and \<open>refresh_all_initial_urls_command.cc\<close> (the map of
  runs per browser).

  A tab handle resolves to the contents its tab has now; a page is what \<open>StartItem\<close> reads of the
  contents and what \<open>LoadURLWithParams\<close> does with it: the navigation id it returns (None for a null
  handle), the observer events it dispatches synchronously and the time it takes.
\<close>

type_synonym tab_handle = nat

datatype nav_event = Started_navigation bool int | Stopped_loading

record page =
  page_in_browser :: bool
  page_audible :: bool
  page_nav :: "int option"
  page_sync :: "nav_event list"
  page_delay :: nat

record refresh_run =
  handles :: "tab_handle \<rightharpoonup> wc_id option"
  pages :: "wc_id \<Rightarrow> page"
  urls :: url_world
  dialog_queue :: "bool option"
  clock :: time
  snapshot :: "tab_handle list"
  current_index :: nat
  observing :: "wc_id option"
  pending_handle :: "int option"
  settle_gate :: gate
  finished_callback :: bool
  started_items :: "(nat \<times> time) list"
  times_finished :: nat

text \<open>\<open>started_items\<close> and \<open>times_finished\<close> record the loads begun and the ends of the run.\<close>

definition SnapshotTabs :: "tab_handle list \<Rightarrow> int \<Rightarrow> tab_handle list" where
  "SnapshotTabs strip act =
     (let count = int (length strip)
      in (if act \<ge> 0 \<and> act < count then [strip ! nat act] else []) @
         map (\<lambda>i. strip ! i) (filter (\<lambda>i. int i \<noteq> act) [0..<length strip]))"

definition DidStartNavigation :: "bool \<Rightarrow> int \<Rightarrow> refresh_run \<Rightarrow> refresh_run" where
  "DidStartNavigation primary nid r =
     (if \<not> primary then r else r\<lparr>settle_gate := OnNavigationStarted nid (settle_gate r)\<rparr>)"

text \<open>\<open>DidStopLoading\<close> returns the index it passes to \<open>NotifyItemSettled\<close>, if it gets there.\<close>

definition DidStopLoading :: "refresh_run \<Rightarrow> nat list \<times> refresh_run" where
  "DidStopLoading r0 =
     (let r = (if pending_handle r0 = None
               then r0\<lparr>settle_gate := OnAttemptDiscarded (settle_gate r0)\<rparr> else r0);
          (settled, g) = OnStopLoading (settle_gate r)
      in if \<not> settled then ([], r\<lparr>settle_gate := g\<rparr>)
         else ([current_index r], r\<lparr>settle_gate := g, pending_handle := None, observing := None\<rparr>))"

fun dispatch :: "nav_event list \<Rightarrow> refresh_run \<Rightarrow> nat list \<times> refresh_run" where
  "dispatch [] r = ([], r)"
| "dispatch (Started_navigation primary nid # es) r = dispatch es (DidStartNavigation primary nid r)"
| "dispatch (Stopped_loading # es) r =
     (let (n1, r1) = DidStopLoading r; (n2, r2) = dispatch es r1 in (n1 @ n2, r2))"

definition run_StartItem :: "nat \<Rightarrow> refresh_run \<Rightarrow> bool \<times> nat list \<times> refresh_run" where
  "run_StartItem index r0 =
     (if index \<ge> length (snapshot r0) then (False, [], r0)
      else let r = r0\<lparr>current_index := index, observing := None, pending_handle := None,
                      settle_gate := gate_Reset (settle_gate r0)\<rparr>
           in case handles r (snapshot r ! index) of
                None \<Rightarrow> (False, [], r)
              | Some None \<Rightarrow> (False, [], r)
              | Some (Some wc) \<Rightarrow>
                  if \<not> page_in_browser (pages r wc) then (False, [], r)
                  else if page_audible (pages r wc) then (False, [], r)
                  else if \<not> CanReloadInitialUrlForContents True (Some wc) (urls r) then (False, [], r)
                  else let u = initial_url (the (helper_of (urls r) wc));
                           r1 = r\<lparr>observing := Some wc, settle_gate := BeginAttempt (settle_gate r)\<rparr>;
                           (ns, r2) = dispatch (page_sync (pages r wc)) r1;
                           r3 = r2\<lparr>clock := clock r2 + int (page_delay (pages r wc)),
                                   urls := (urls r2)\<lparr>loads := loads (urls r2) @ [(wc, u)]\<rparr>\<rparr>
                       in case page_nav (pages r wc) of
                            None \<Rightarrow> (False, ns, r3\<lparr>settle_gate := AttemptIssued 0 (settle_gate r3), observing := None\<rparr>)
                          | Some nid \<Rightarrow> (True, ns, r3\<lparr>pending_handle := Some nid,
                               settle_gate := AttemptIssued nid (settle_gate r3),
                               started_items := started_items r3 @ [(index, clock r0)]\<rparr>))"

definition run_ShouldDefer :: "refresh_run \<Rightarrow> bool" where
  "run_ShouldDefer r = (case dialog_queue r of None \<Rightarrow> False | Some has_active \<Rightarrow> has_active)"

definition run_OnRunFinished :: "refresh_run \<Rightarrow> refresh_run" where
  "run_OnRunFinished r = r\<lparr>observing := None, finished_callback := False, times_finished := Suc (times_finished r)\<rparr>"

definition run_delegate :: "refresh_run delegate" where
  "run_delegate = \<lparr>StartItem_fn = run_StartItem, ShouldDefer_fn = run_ShouldDefer,
                   OnRunFinished_fn = run_OnRunFinished, NowTicks_fn = clock\<rparr>"

type_synonym active_run = "scheduler \<times> refresh_run"

definition new_run ::
  "int \<Rightarrow> int \<Rightarrow> tab_handle list \<Rightarrow> int \<Rightarrow> refresh_run \<Rightarrow> active_run option" where
  "new_run interval_ms min_spacing_ms strip act env =
     (case new_scheduler (FromMilliseconds interval_ms min_spacing_ms) of
        None \<Rightarrow> None
      | Some s \<Rightarrow> Some (s, env\<lparr>snapshot := SnapshotTabs strip act, current_index := 0, observing := None,
            pending_handle := None, settle_gate := new_gate, finished_callback := True,
            started_items := [], times_finished := 0\<rparr>))"

definition run_Start :: "active_run \<Rightarrow> active_run" where
  "run_Start x = sched_Start run_delegate (length (snapshot (snd x))) x"

definition run_Cancel :: "active_run \<Rightarrow> active_run" where
  "run_Cancel x = sched_Cancel run_delegate x"

definition OnBrowserClosing :: "active_run \<Rightarrow> active_run" where
  "OnBrowserClosing x = sched_Cancel run_delegate (fst x, (snd x)\<lparr>observing := None\<rparr>)"

text \<open>An observer event reaches the run only while it observes the contents.\<close>

definition run_observe :: "wc_id \<Rightarrow> nav_event \<Rightarrow> active_run \<Rightarrow> active_run" where
  "run_observe wc e x =
     (if observing (snd x) \<noteq> Some wc then x
      else let (ns, r) = dispatch [e] (snd x) in (fold NotifyItemSettled ns (fst x), r))"

subsection \<open>The delegate keeps the scheduler's contract\<close>

lemma DidStopLoading_frame:
  "started_items (snd (DidStopLoading r)) = started_items r \<and> times_finished (snd (DidStopLoading r)) = times_finished r \<and>
   clock (snd (DidStopLoading r)) = clock r \<and> dialog_queue (snd (DidStopLoading r)) = dialog_queue r \<and>
   urls (snd (DidStopLoading r)) = urls r"
  by (simp add: DidStopLoading_def Let_def split: prod.split)

lemma dispatch_frame:
  "started_items (snd (dispatch es r)) = started_items r \<and> times_finished (snd (dispatch es r)) = times_finished r \<and>
   clock (snd (dispatch es r)) = clock r \<and> dialog_queue (snd (dispatch es r)) = dialog_queue r \<and>
   urls (snd (dispatch es r)) = urls r"
proof (induction es r rule: dispatch.induct)
  case (3 es r)
  obtain n1 r1 where d: "DidStopLoading r = (n1, r1)" by (cases "DidStopLoading r")
  then show ?case
    using 3 DidStopLoading_frame [of r] by (cases "dispatch es r1") simp
qed (simp_all add: DidStartNavigation_def)

lemma run_StartItem_laws:
  assumes "run_StartItem i r = (ok, ns, r')"
  shows "started_items r' = (if ok then started_items r @ [(i, clock r)] else started_items r) \<and>
     times_finished r' = times_finished r \<and> clock r \<le> clock r' \<and> dialog_queue r' = dialog_queue r"
proof -
  have df: "started_items b = started_items a \<and> times_finished b = times_finished a \<and> clock b = clock a \<and>
      dialog_queue b = dialog_queue a" if "dispatch es a = (ns, b)" for es a ns b
    using dispatch_frame [of es a] that by simp
  show ?thesis
    using assms
    by (auto simp: run_StartItem_def Let_def split: if_splits option.splits prod.splits dest!: df)
qed

definition no_dialog :: "refresh_run \<Rightarrow> bool" where
  "no_dialog r \<longleftrightarrow> dialog_queue r \<noteq> Some True"

definition move_clock :: "time \<Rightarrow> refresh_run \<Rightarrow> refresh_run" where
  "move_clock t r = r\<lparr>clock := max t (clock r)\<rparr>"

interpretation rr: ticking_pacing run_delegate started_items times_finished no_dialog move_clock
proof
  fix i d ok ns d'
  assume "StartItem_fn run_delegate i d = (ok, ns, d')"
  then have "run_StartItem i d = (ok, ns, d')" by (simp add: run_delegate_def)
  from run_StartItem_laws [OF this]
  show "started_items d' = (if ok then started_items d @ [(i, NowTicks_fn run_delegate d)] else started_items d) \<and>
      times_finished d' = times_finished d \<and> NowTicks_fn run_delegate d \<le> NowTicks_fn run_delegate d' \<and>
      (no_dialog d \<longrightarrow> no_dialog d')"
    by (simp add: run_delegate_def no_dialog_def)
qed (auto simp: run_delegate_def run_OnRunFinished_def no_dialog_def run_ShouldDefer_def move_clock_def
     split: option.splits)

subsection \<open>A run from its start\<close>

text \<open>
  What can happen to a run: its timer fires, a posted settle is delivered, the observed contents
  dispatch an event, the user cancels, the window closes, and the browser around it changes (tabs,
  pages, helpers, dialogs, the clock moving forward, the pending handle dying).
\<close>

inductive run_step :: "active_run \<Rightarrow> active_run \<Rightarrow> bool" where
  fires: "run_step x (fire_timer run_delegate x)"
| settles: "run_step x (deliver_settle run_delegate x)"
| observes: "run_step x (run_observe wc e x)"
| cancels: "run_step x (run_Cancel x)"
| closes: "run_step x (OnBrowserClosing x)"
| browser: "t \<ge> clock r \<Longrightarrow> run_step (s, r) (s, r\<lparr>handles := h, pages := p, urls := u, dialog_queue := q,
     clock := t, pending_handle := (if gone then None else pending_handle r)\<rparr>)"

definition run_reachable :: "active_run \<Rightarrow> active_run \<Rightarrow> bool" where
  "run_reachable x y \<longleftrightarrow> run_step\<^sup>*\<^sup>* (run_Start x) y"

lemma dispatch_snapshot: "snapshot (snd (dispatch es r)) = snapshot r"
proof (induction es r rule: dispatch.induct)
  case (3 es r)
  obtain n1 r1 where d: "DidStopLoading r = (n1, r1)" by (cases "DidStopLoading r")
  have "snapshot r1 = snapshot r"
    using d by (auto simp: DidStopLoading_def Let_def split: prod.splits if_splits)
  then show ?case using 3 d by (cases "dispatch es r1") simp
qed (simp_all add: DidStartNavigation_def)

lemma fold_notify_inv: "rr.inv (s, d) \<Longrightarrow> rr.inv (fold NotifyItemSettled ns s, d)"
  by (induction ns arbitrary: s) (simp_all add: rr.notify_inv [simplified])

lemma run_step_inv: "run_step x y \<Longrightarrow> rr.inv x \<Longrightarrow> rr.inv y"
proof (induction rule: run_step.induct)
  case (fires x)
  then show ?case using rr.fire_inv [of "fst x" "snd x"] by simp
next
  case (settles x)
  then show ?case using rr.deliver_inv [of "fst x" "snd x"] by simp
next
  case (observes x wc e)
  obtain ns r where d: "dispatch [e] (snd x) = (ns, r)" by (cases "dispatch [e] (snd x)")
  then show ?case
    using observes dispatch_frame [of "[e]" "snd x"] fold_notify_inv [of "fst x" r ns]
    by (simp add: run_observe_def)
next
  case (cancels x)
  then show ?case using rr.cancel_inv [of "fst x" "snd x"] by (simp add: run_Cancel_def)
next
  case (closes x)
  then show ?case
    using rr.cancel_inv [of "fst x" "(snd x)\<lparr>observing := None\<rparr>"] by (simp add: OnBrowserClosing_def)
qed simp

lemma new_run_inv: "new_run i m strip act env = Some x \<Longrightarrow> rr.inv (run_Start x)"
  using rr.Start_inv [of "fst x" "snd x"] params_ok_FromMilliseconds [of i m]
  by (auto simp: new_run_def new_scheduler_def run_Start_def split: if_splits)

lemma run_reachable_inv: "new_run i m strip act env = Some x \<Longrightarrow> run_reachable x y \<Longrightarrow> rr.inv y"
  unfolding run_reachable_def
  by (rotate_tac 1, induction rule: rtranclp_induct) (auto intro: new_run_inv run_step_inv)

lemma StartFromCursor_params [simp]:
  "params_of (fst (StartFromCursor D (s, d))) = params_of s"
proof (induction D "(s, d)" arbitrary: s d rule: StartFromCursor.induct)
  case (1 D s d)
  obtain ok s' d' where b: "begin_item D (s, d) = (ok, s', d')" by (cases "begin_item D (s, d)")
  show ?case
    using 1 [OF _ _ b [symmetric] refl] begin_item_frame [OF b] b
    by (subst StartFromCursor.simps) (simp add: Finish_def)
qed

lemma Advance_params [simp]: "params_of (fst (AdvanceAndScheduleNext D t x)) = params_of (fst x)"
  by (simp add: AdvanceAndScheduleNext_def Let_def Finish_def)

lemma callback_params [simp]: "params_of (fst (run_callback D cb x)) = params_of (fst x)"
  by (cases cb; cases x) (simp_all add: OnDeferElapsed_def OnIntervalElapsed_def)

lemma run_step_params: "run_step x y \<Longrightarrow> params_of (fst y) = params_of (fst x)"
  by (induction rule: run_step.induct)
     (auto simp: fire_timer_def deliver_settle_def OnSettled_def run_observe_def run_Cancel_def
      sched_Cancel_def OnBrowserClosing_def Finish_def Let_def split: option.split list.split prod.split)

text \<open>
  C10: the pacing rule. In every state a run can reach, whatever tabs, pages, dialogs and the user do,
  the loads it began are in strictly increasing snapshot order, each within the snapshot and each at
  least the spacing floor after the one before; and it reports its end exactly once, when it stops.
\<close>

theorem run_is_paced:
  assumes "new_run i m strip act env = Some x" and "run_reachable x (s, r)"
  shows "spaced (min_spacing (FromMilliseconds i m)) (started_items r) \<and>
         (\<forall>a \<in> set (started_items r). fst a < item_count s) \<and>
         times_finished r = (if running s then 0 else 1)"
proof -
  have "params_of (fst (run_Start x)) = FromMilliseconds i m"
    using assms(1) by (cases x)
      (auto simp: new_run_def new_scheduler_def run_Start_def sched_Start_def split: if_splits)
  moreover have "params_of (fst y) = params_of (fst x0)" if "run_step\<^sup>*\<^sup>* x0 y" for x0 y
    using that by induction (simp_all add: run_step_params)
  ultimately have "params_of s = FromMilliseconds i m"
    using assms(2) unfolding run_reachable_def by fastforce
  then show ?thesis
    using run_reachable_inv [OF assms] by (simp add: sched_inv_def)
qed

text \<open>
  C31: a run cannot be wedged. With no dialog on screen, and no tab ever reporting that it settled,
  the timers alone end the run after at most two firings per tab and one more, whatever each tab's
  load does; and its end is then reported exactly once.
\<close>

theorem run_ends_by_timers:
  assumes "new_run i m strip act env = Some x" and "no_dialog env"
    and "y = drive run_delegate move_clock (2 * length (snapshot (snd x)) + 1) (run_Start x)"
  shows "\<not> running (fst y) \<and> times_finished (snd y) = 1"
proof -
  let ?s = "(fst x)\<lparr>item_count := length (snapshot (snd x)), sched_cursor := 0, waiting := False,
                    running := True, last_start := 0\<rparr>"
  have st: "run_Start x = StartFromCursor run_delegate (?s, snd x)"
    by (simp add: run_Start_def sched_Start_def)
  have "no_dialog (snd x)" using assms(1,2) by (auto simp: new_run_def no_dialog_def split: option.splits)
  then have sh: "rr.shrinks ?s (run_Start x)" unfolding st by (rule rr.StartFromCursor_shrinks) simp
  have i: "rr.inv (run_Start x)" using assms(1) by (rule new_run_inv)
  have stopped: "\<not> running s \<Longrightarrow> \<not> running (fst (drive run_delegate move_clock k (s, d)))" for s d k
    by (rule rr.drive_stopped)
  have ends: "rr.inv (s, d) \<Longrightarrow> no_dialog d \<Longrightarrow> work_left s \<le> k \<Longrightarrow>
      \<not> running (fst (drive run_delegate move_clock k (s, d)))" for s d k
    by (rule rr.drive_ends)
  obtain s d where x: "run_Start x = (s, d)" by (cases "run_Start x")
  have "\<not> running s \<or> no_dialog d \<and> work_left s \<le> 2 * length (snapshot (snd x)) + 1"
    using sh by (auto simp: x rr.shrinks_def work_left_def)
  then have "\<not> running (fst y)"
    using stopped ends i unfolding assms(3) x by blast
  moreover have "rr.inv y"
    using rr.drive_inv [of s d] i unfolding assms(3) x by blast
  ultimately show ?thesis by (simp add: sched_inv_def)
qed

definition plain_page :: page where
  "plain_page = \<lparr>page_in_browser = True, page_audible = False, page_nav = Some 7,
                 page_sync = [Started_navigation True 7], page_delay = 3\<rparr>"

definition two_tab_env :: refresh_run where
  "two_tab_env = \<lparr>handles = [10 \<mapsto> Some 0, 11 \<mapsto> Some 1], pages = (\<lambda>_. plain_page),
     urls = \<lparr>tabs = [0 \<mapsto> \<lparr>last_committed = empty_url, can_persist = True,
                        url_data = Some \<lparr>initial_url = toy_parse ''http:a'', captured = True,
                                         user_locked = False, pending_session_write = False\<rparr>\<rparr>],
             session_writes = [], loads = []\<rparr>,
     dialog_queue = None, clock = 1000000, snapshot = [], current_index = 0, observing = None,
     pending_handle = None, settle_gate = new_gate, finished_callback = False, started_items = [],
     times_finished = 0\<rparr>"

definition two_tab_run :: active_run where
  "two_tab_run = the (new_run 5000 750 [10, 11] 0 two_tab_env)"

lemma two_tab_run: "new_run 5000 750 [10, 11] 0 two_tab_env = Some two_tab_run"
  using params_always_accepted [of 5000 750] by (auto simp: two_tab_run_def new_run_def)

lemma run_ends_by_timers_witness:
  "times_finished (snd (drive run_delegate move_clock
     (2 * length (snapshot (snd two_tab_run)) + 1) (run_Start two_tab_run))) = 1"
  using run_ends_by_timers [OF two_tab_run _ refl] by (simp add: no_dialog_def two_tab_env_def)

lemma run_is_paced_witness:
  "spaced 750000 (started_items (snd (fire_timer run_delegate (run_Start two_tab_run))))"
proof -
  obtain s r where y: "fire_timer run_delegate (run_Start two_tab_run) = (s, r)"
    by (cases "fire_timer run_delegate (run_Start two_tab_run)")
  have "run_reachable two_tab_run (s, r)"
    unfolding run_reachable_def y [symmetric] by (rule r_into_rtranclp) (rule run_step.fires)
  from run_is_paced [OF two_tab_run this] show ?thesis
    by (simp add: y FromMilliseconds_def Milliseconds_def kDefaultIntervalMs_def kDefaultMinSpacingMs_def
        kMinIntervalMs_def kMaxIntervalMs_def kMinMinSpacingMs_def kMaxMinSpacingMs_def)
qed

subsection \<open>What a run loads\<close>

lemma mset_SnapshotTabs_aux:
  "mset (map (\<lambda>i. xs ! i) (filter (\<lambda>i. i \<noteq> a) [0..<length xs])) + (if a < length xs then {#xs ! a#} else {#})
     = mset xs"
proof -
  have "mset xs = image_mset (\<lambda>i. xs ! i) (mset [0..<length xs])"
    by (metis map_nth mset_map)
  also have "mset [0..<length xs] = mset (filter (\<lambda>i. i \<noteq> a) [0..<length xs]) + (if a < length xs then {#a#} else {#})"
  proof -
    have "mset [0..<length xs] = filter_mset (\<lambda>i. i \<noteq> a) (mset [0..<length xs]) + filter_mset (\<lambda>i. \<not> i \<noteq> a) (mset [0..<length xs])"
      by (rule multiset_partition)
    also have "filter_mset (\<lambda>i. \<not> i \<noteq> a) (mset [0..<length xs]) = (if a < length xs then {#a#} else {#})"
      using distinct_count_atmost_1 [of "[0..<length xs]"] by (simp add: filter_eq_replicate_mset)
    finally show ?thesis by (simp only: mset_filter)
  qed
  finally show ?thesis by simp
qed

lemma SnapshotTabs_perm: "mset (SnapshotTabs strip act) = mset strip"
proof (cases "0 \<le> act \<and> act < int (length strip)")
  case True
  then obtain a where a: "act = int a" "a < length strip" by (metis nonneg_int_cases of_nat_less_iff)
  then show ?thesis using mset_SnapshotTabs_aux [of strip a] by (simp add: SnapshotTabs_def Let_def)
next
  case False
  then have "filter (\<lambda>i. int i \<noteq> act) [0..<length strip] = [0..<length strip]"
    by (auto simp: filter_id_conv)
  moreover have "map (\<lambda>i. strip ! i) [0..<length strip] = strip" by (rule map_nth)
  ultimately show ?thesis using False by (auto simp: SnapshotTabs_def Let_def)
qed

lemma SnapshotTabs_active_first:
  "a < length strip \<Longrightarrow> SnapshotTabs strip (int a) \<noteq> [] \<and> hd (SnapshotTabs strip (int a)) = strip ! a"
  by (simp add: SnapshotTabs_def Let_def)

lemma dispatch_env:
  "handles (snd (dispatch es r)) = handles r \<and> pages (snd (dispatch es r)) = pages r \<and>
   current_index (snd (dispatch es r)) = current_index r"
proof (induction es r rule: dispatch.induct)
  case (3 es r)
  obtain n1 r1 where d: "DidStopLoading r = (n1, r1)" by (cases "DidStopLoading r")
  have "handles r1 = handles r \<and> pages r1 = pages r \<and> current_index r1 = current_index r"
    using d by (auto simp: DidStopLoading_def Let_def split: prod.splits if_splits)
  then show ?case using 3 d by (cases "dispatch es r1") simp
qed (simp_all add: DidStartNavigation_def)

lemma in_call_dispatch:
  "in_load_call (settle_gate r) \<Longrightarrow>
   in_load_call (settle_gate (snd (dispatch es r))) \<and> fst (dispatch es r) = [] \<and>
   observing (snd (dispatch es r)) = observing r"
proof (induction es r rule: dispatch.induct)
  case (3 es r)
  have "fst (DidStopLoading r) = []" "in_load_call (settle_gate (snd (DidStopLoading r)))"
    "observing (snd (DidStopLoading r)) = observing r"
    using 3(2) by (auto simp: DidStopLoading_def OnStopLoading_def OnAttemptDiscarded_def Let_def)
  moreover obtain n1 r1 where d: "DidStopLoading r = (n1, r1)" by (cases "DidStopLoading r")
  ultimately show ?case using 3(1) [OF d [symmetric] refl] by (cases "dispatch es r1") simp
qed (simp_all add: DidStartNavigation_def OnNavigationStarted_def)

definition eligible :: "refresh_run \<Rightarrow> nat \<Rightarrow> wc_id \<Rightarrow> bool" where
  "eligible r index wc \<longleftrightarrow> index < length (snapshot r) \<and> handles r (snapshot r ! index) = Some (Some wc) \<and>
     page_in_browser (pages r wc) \<and> \<not> page_audible (pages r wc) \<and>
     (\<exists>h. helper_of (urls r) wc = Some h \<and> captured h \<and> url_valid (initial_url h))"
text \<open>
  What an item of a run does. It begins a load exactly when its tab still exists, has contents in
  this browser that are not audible and hold a valid initial URL, and the load produces a navigation;
  the load is that initial URL in those contents, which the run observes afterwards. Otherwise no
  observation is left behind. A stop seen during the load call settles nothing.
\<close>

theorem item_loads_its_initial_url:
  assumes "run_StartItem index r = (ok, ns, r')"
  shows "ns = [] \<and>
    (ok \<longleftrightarrow> (\<exists>wc. eligible r index wc \<and> page_nav (pages r wc) \<noteq> None)) \<and>
    (ok \<longrightarrow> (\<exists>wc h. eligible r index wc \<and> helper_of (urls r) wc = Some h \<and>
        loads (urls r') = loads (urls r) @ [(wc, initial_url h)] \<and> observing r' = Some wc \<and>
        current_index r' = index \<and> pending_handle r' = page_nav (pages r wc))) \<and>
    (\<not> ok \<longrightarrow> index < length (snapshot r) \<longrightarrow> observing r' = None)"
proof (cases "\<exists>wc. eligible r index wc")
  case False
  then show ?thesis
    using assms
    by (auto simp: run_StartItem_def eligible_def CanReloadInitialUrlForContents_def Let_def
        split: if_splits option.splits)
next
  case True
  then obtain wc h where e: "eligible r index wc" and h: "helper_of (urls r) wc = Some h" "captured h"
      "url_valid (initial_url h)" by (auto simp: eligible_def)
  have uniq: "eligible r index b \<longleftrightarrow> b = wc" for b using e by (auto simp: eligible_def)
  define r1 where "r1 = r\<lparr>current_index := index, pending_handle := None, observing := Some wc,
      settle_gate := BeginAttempt (gate_Reset (settle_gate r))\<rparr>"
  obtain ns2 r2 where d: "dispatch (page_sync (pages r wc)) r1 = (ns2, r2)"
    by (cases "dispatch (page_sync (pages r wc)) r1")
  have call: "ns2 = []" "observing r2 = Some wc"
    using in_call_dispatch [of r1 "page_sync (pages r wc)"] d by (simp_all add: r1_def BeginAttempt_def)
  have fr: "urls r2 = urls r" "current_index r2 = index"
    using dispatch_frame [of "page_sync (pages r wc)" r1] dispatch_env [of "page_sync (pages r wc)" r1] d
    by (simp_all add: r1_def)
  define r3 where "r3 = r2\<lparr>clock := clock r2 + int (page_delay (pages r wc)),
      urls := (urls r2)\<lparr>loads := loads (urls r2) @ [(wc, initial_url h)]\<rparr>\<rparr>"
  have res: "run_StartItem index r = (case page_nav (pages r wc) of
      None \<Rightarrow> (False, [], r3\<lparr>settle_gate := AttemptIssued 0 (settle_gate r3), observing := None\<rparr>)
    | Some nid \<Rightarrow> (True, [], r3\<lparr>pending_handle := Some nid, settle_gate := AttemptIssued nid (settle_gate r3),
        started_items := started_items r3 @ [(index, clock r)]\<rparr>))"
    using e h d call(1) unfolding eligible_def r1_def
    by (simp add: run_StartItem_def CanReloadInitialUrlForContents_def Let_def r3_def split: option.split)
  show ?thesis
  proof (cases "page_nav (pages r wc)")
    case None
    then show ?thesis using assms res uniq by auto
  next
    case (Some nid)
    then have "ok" "ns = []" "r' = r3\<lparr>pending_handle := Some nid, settle_gate := AttemptIssued nid (settle_gate r3),
        started_items := started_items r3 @ [(index, clock r)]\<rparr>"
      using assms res by auto
    then show ?thesis using Some h(1) uniq call(2) fr by (simp add: r3_def)
  qed
qed

lemma item_loads_its_initial_url_witness:
  "loads (urls (snd (snd (run_StartItem 0 (snd two_tab_run))))) = [(0, toy_parse ''http:a'')]"
proof -
  have r: "snd two_tab_run = two_tab_env\<lparr>snapshot := [10, 11], finished_callback := True\<rparr>"
  proof -
    obtain x where "two_tab_run = (x, two_tab_env\<lparr>snapshot := [10, 11], finished_callback := True\<rparr>)"
      using two_tab_run by (simp add: new_run_def two_tab_env_def SnapshotTabs_def split: option.splits) (metis)
    then show ?thesis by (metis snd_conv)
  qed
  have e: "eligible (snd two_tab_run) 0 wc \<longleftrightarrow> wc = 0" for wc
    by (auto simp: r eligible_def two_tab_env_def plain_page_def helper_of_def toy_parse_def)
  obtain ok ns r' where r': "run_StartItem 0 (snd two_tab_run) = (ok, ns, r')"
    by (cases "run_StartItem 0 (snd two_tab_run)")
  show ?thesis
    using item_loads_its_initial_url [OF r'] unfolding e unfolding r' snd_conv
    by (auto simp: r two_tab_env_def plain_page_def helper_of_def)
qed

subsection \<open>The command: one run per browser\<close>

text \<open>
  \<open>Runs()\<close> maps a browser to its run, here with the run's identity; \<open>doomed\<close> are the runs handed to
  \<open>DeleteSoon\<close>. A browser is its id, whether it is a normal window, and its strip.
\<close>

type_synonym browser_id = nat
type_synonym run_id = nat

record run_browser =
  br_id :: browser_id
  br_normal :: bool
  br_strip :: "tab_handle list"
  br_active :: int

record runs =
  run_map :: "browser_id \<rightharpoonup> run_id \<times> active_run"
  doomed :: "(run_id \<times> active_run) list"
  next_run :: run_id

definition no_runs :: runs where
  "no_runs = \<lparr>run_map = Map.empty, doomed = [], next_run = 0\<rparr>"

definition CanRefreshAllInitialUrls :: "bool \<Rightarrow> run_browser option \<Rightarrow> bool" where
  "CanRefreshAllInitialUrls feature b =
     (case b of None \<Rightarrow> False | Some br \<Rightarrow> if \<not> feature then False else br_normal br)"

definition RetireFinishedRun :: "browser_id \<Rightarrow> run_id \<Rightarrow> active_run \<Rightarrow> runs \<Rightarrow> runs" where
  "RetireFinishedRun b rid final m =
     (case run_map m b of
        None \<Rightarrow> m
      | Some (rid', _) \<Rightarrow>
          if rid' \<noteq> rid then m
          else m\<lparr>run_map := (run_map m)(b := None), doomed := doomed m @ [(rid, final)]\<rparr>)"

text \<open>
  Storing a run's state back after an operation on it; its finished callback, when the operation ran
  it, has retired the run.
\<close>

definition put_run :: "browser_id \<Rightarrow> run_id \<Rightarrow> active_run \<Rightarrow> active_run \<Rightarrow> runs \<Rightarrow> runs" where
  "put_run b rid before after m =
     (let m' = m\<lparr>run_map := (run_map m)(b \<mapsto> (rid, after))\<rparr>
      in if finished_callback (snd before) \<and> \<not> finished_callback (snd after)
         then RetireFinishedRun b rid after m' else m')"

definition RefreshAllInitialUrls ::
  "bool \<Rightarrow> int \<Rightarrow> int \<Rightarrow> run_browser option \<Rightarrow> refresh_run \<Rightarrow> runs \<Rightarrow> runs" where
  "RefreshAllInitialUrls feature interval_ms min_spacing_ms b env m =
     (if \<not> CanRefreshAllInitialUrls feature b then m
      else let br = the b
           in case run_map m (br_id br) of
                Some (rid, x) \<Rightarrow> put_run (br_id br) rid x (run_Cancel x) m
              | None \<Rightarrow>
                  (case new_run interval_ms min_spacing_ms (br_strip br) (br_active br) env of
                     None \<Rightarrow> m
                   | Some x \<Rightarrow> put_run (br_id br) (next_run m) x (run_Start x) (m\<lparr>next_run := Suc (next_run m)\<rparr>)))"

text \<open>Any step of a browser's run, through the map.\<close>

inductive runs_step :: "runs \<Rightarrow> runs \<Rightarrow> bool" where
  pressed: "runs_step m (RefreshAllInitialUrls feature i ms b env m)"
| runs: "run_map m b = Some (rid, x) \<Longrightarrow> run_step x y \<Longrightarrow> runs_step m (put_run b rid x y m)"
| deleted: "runs_step m (m\<lparr>doomed := tl (doomed m)\<rparr>)"

text \<open>A live run still holds its callback; the callback goes exactly when the run stops.\<close>

definition live_run :: "active_run \<Rightarrow> bool" where
  "live_run x \<longleftrightarrow> rr.inv x \<and> running (fst x) \<and> finished_callback (snd x)"

definition callback_ok :: "active_run \<Rightarrow> bool" where
  "callback_ok x \<longleftrightarrow> finished_callback (snd x) = running (fst x)"

lemma callback_Finish: "callback_ok (Finish run_delegate x)"
  by (simp add: callback_ok_def Finish_def run_delegate_def run_OnRunFinished_def)

lemma callback_dispatch: "finished_callback (snd (dispatch es r)) = finished_callback r"
proof (induction es r rule: dispatch.induct)
  case (3 es r)
  obtain n1 r1 where d: "DidStopLoading r = (n1, r1)" by (cases "DidStopLoading r")
  have "finished_callback r1 = finished_callback r"
    using d by (auto simp: DidStopLoading_def Let_def split: prod.splits if_splits)
  then show ?case using 3 d by (cases "dispatch es r1") simp
qed (simp_all add: DidStartNavigation_def)

lemma callback_StartItem: "run_StartItem i r = (ok, ns, r') \<Longrightarrow> finished_callback r' = finished_callback r"
proof -
  have df: "finished_callback b = finished_callback a" if "dispatch es a = (ns, b)" for es a ns b
    using callback_dispatch [of es a] that by simp
  show "run_StartItem i r = (ok, ns, r') \<Longrightarrow> finished_callback r' = finished_callback r"
    by (auto simp: run_StartItem_def Let_def split: if_splits option.splits prod.splits dest!: df)
qed

lemma callback_begin_item:
  assumes "begin_item run_delegate (s, r) = (ok, s', r')"
  shows "finished_callback r' = finished_callback r"
  using begin_item_frame(8) [OF assms] callback_StartItem by (auto simp: run_delegate_def)

lemma callback_StartFromCursor:
  "callback_ok (s, r) \<Longrightarrow> callback_ok (StartFromCursor run_delegate (s, r))"
proof (induction "item_count s - sched_cursor s" arbitrary: s r rule: less_induct)
  case less
  obtain ok s' r' where b: "begin_item run_delegate (s, r) = (ok, s', r')"
    by (cases "begin_item run_delegate (s, r)")
  note fr = begin_item_frame [OF b] callback_begin_item [OF b]
  let ?s = "s'\<lparr>waiting := False, last_start := last_start s, sched_cursor := sched_cursor s' + 1\<rparr>"
  have rec: "callback_ok (StartFromCursor run_delegate (?s, r'))" if "sched_cursor s < item_count s"
    by (rule less.hyps) (use that fr less.prems in \<open>auto simp: callback_ok_def\<close>)
  show ?case
    using rec less.prems fr
    by (subst StartFromCursor.simps) (simp add: b callback_Finish, simp add: callback_ok_def)
qed

lemma callback_Advance:
  "callback_ok (s, r) \<Longrightarrow> callback_ok (AdvanceAndScheduleNext run_delegate t (s, r))"
  using callback_StartFromCursor [of "s\<lparr>waiting := False, sched_cursor := sched_cursor s + 1\<rparr>" r]
  by (simp add: AdvanceAndScheduleNext_def Let_def callback_Finish) (simp add: callback_ok_def)

lemma callback_fold_notify: "callback_ok (fold NotifyItemSettled ns s, r) = callback_ok (s, r)"
  by (simp add: callback_ok_def)

lemma callback_run_callback:
  "callback_ok (s, r) \<Longrightarrow> callback_ok (run_callback run_delegate cb (s, r))"
  by (cases cb) (simp_all add: OnDeferElapsed_def OnIntervalElapsed_def callback_StartFromCursor callback_Advance)

lemma run_step_callback: "run_step x y \<Longrightarrow> callback_ok x \<Longrightarrow> callback_ok y"
proof (induction rule: run_step.induct)
  case (fires x)
  then show ?case
    using callback_run_callback [of "(fst x)\<lparr>timer := None\<rparr>" "snd x"]
    by (auto simp: fire_timer_def callback_ok_def split: option.split prod.split)
next
  case (settles x)
  then show ?case
    using callback_Advance by (auto simp: deliver_settle_def OnSettled_def Let_def callback_ok_def split: list.split)
next
  case (observes x wc e)
  then show ?case
    using callback_dispatch [of "[e]" "snd x"]
    by (auto simp: run_observe_def callback_ok_def split: prod.split)
next
  case (cancels x)
  then show ?case by (simp add: run_Cancel_def sched_Cancel_def callback_Finish)
next
  case (closes x)
  then show ?case by (simp add: OnBrowserClosing_def sched_Cancel_def callback_Finish) (simp add: callback_ok_def)
qed (simp add: callback_ok_def)

lemma run_map_put:
  "run_map (put_run b rid x y m) =
     (if finished_callback (snd x) \<and> \<not> finished_callback (snd y)
      then (run_map m)(b := None) else (run_map m)(b \<mapsto> (rid, y)))"
  by (simp add: put_run_def RetireFinishedRun_def Let_def)

lemma run_Start_ok: "new_run i m strip act env = Some x \<Longrightarrow> callback_ok (run_Start x)"
  unfolding run_Start_def sched_Start_def
  by (rule callback_StartFromCursor) (auto simp: new_run_def callback_ok_def split: option.splits)

lemma new_run_callback: "new_run i m strip act env = Some x \<Longrightarrow> finished_callback (snd x)"
  by (auto simp: new_run_def split: option.splits)

lemma live_run_step: "live_run x \<Longrightarrow> run_step x y \<Longrightarrow> callback_ok y \<and> rr.inv y"
  using run_step_inv run_step_callback by (auto simp: live_run_def callback_ok_def)

definition runs_inv :: "runs \<Rightarrow> bool" where
  "runs_inv m \<longleftrightarrow> (\<forall>b rid x. run_map m b = Some (rid, x) \<longrightarrow> live_run x \<and> rid < next_run m)"

lemma runs_invD: "runs_inv m \<Longrightarrow> run_map m b = Some (rid, x) \<Longrightarrow> live_run x \<and> rid < next_run m"
  unfolding runs_inv_def by blast

lemma put_live:
  assumes "runs_inv m" and "callback_ok y" and "rr.inv y" and "finished_callback (snd x)"
    and "rid < next_run m"
  shows "runs_inv (put_run b rid x y m)"
proof -
  have "next_run (put_run b rid x y m) = next_run m"
    by (simp add: put_run_def RetireFinishedRun_def Let_def)
  then show ?thesis
    using assms unfolding runs_inv_def run_map_put by (auto simp: live_run_def callback_ok_def)
qed

lemma press_inv: "runs_inv m \<Longrightarrow> runs_inv (RefreshAllInitialUrls feature i ms b env m)"
proof (cases "CanRefreshAllInitialUrls feature b")
  case True
  assume inv: "runs_inv m"
  show ?thesis
  proof (cases "run_map m (br_id (the b))")
    case None
    show ?thesis
    proof (cases "new_run i ms (br_strip (the b)) (br_active (the b)) env")
      case new: (Some x)
      have "runs_inv (m\<lparr>next_run := Suc (next_run m)\<rparr>)"
        using inv unfolding runs_inv_def
        by (simp del: split_paired_All split_paired_Ex) (blast intro: less_SucI)
      from put_live [OF this run_Start_ok [OF new] new_run_inv [OF new] new_run_callback [OF new]]
      show ?thesis using True None new by (simp add: RefreshAllInitialUrls_def Let_def)
    qed (use True None inv in \<open>simp add: RefreshAllInitialUrls_def Let_def\<close>)
  next
    case (Some rx)
    obtain rid x where rx: "rx = (rid, x)" by (cases rx)
    then have live: "live_run x" "rid < next_run m" using runs_invD [OF inv] Some by blast+
    have "callback_ok (run_Cancel x) \<and> rr.inv (run_Cancel x)"
      by (rule live_run_step [OF live(1) run_step.cancels])
    then show ?thesis
      using put_live [OF inv _ _ _ live(2), of "run_Cancel x" x] live(1) True Some rx
      by (simp add: RefreshAllInitialUrls_def Let_def live_run_def)
  qed
qed (simp add: RefreshAllInitialUrls_def)

lemma runs_step_inv: "runs_step m m' \<Longrightarrow> runs_inv m \<Longrightarrow> runs_inv m'"
proof (induction rule: runs_step.induct)
  case (pressed m feature i ms b env)
  then show ?case by (rule press_inv)
next
  case (runs m b rid x y)
  then have "live_run x" "rid < next_run m" using runs_invD by blast+
  then show ?case
    using live_run_step [OF _ runs(2)] put_live [OF runs(3)] by (simp add: live_run_def)
qed (simp add: runs_inv_def)

text \<open>
  The chord toggles. In every reachable state of the command the map holds only runs that are
  still going; pressing the chord while a run is live ends it and unlinks it at once, and pressing it
  with no live run starts a fresh one, which stays in the map exactly as long as it is running.
\<close>

theorem chord_toggles:
  assumes "runs_step\<^sup>*\<^sup>* no_runs m" and "CanRefreshAllInitialUrls feature (Some br)"
    and m': "m' = RefreshAllInitialUrls feature i ms (Some br) env m"
  shows "(\<forall>b rid x. run_map m b = Some (rid, x) \<longrightarrow> running (fst x)) \<and>
    (case run_map m (br_id br) of
       Some (rid, x) \<Rightarrow> run_map m' (br_id br) = None \<and>
         doomed m' = doomed m @ [(rid, run_Cancel x)] \<and> \<not> running (fst (run_Cancel x))
     | None \<Rightarrow> \<exists>x. new_run i ms (br_strip br) (br_active br) env = Some x \<and>
         run_map m' (br_id br) = (if running (fst (run_Start x)) then Some (next_run m, run_Start x) else None))"
proof -
  from assms(1) have inv: "runs_inv m"
    by induction (auto simp: runs_inv_def no_runs_def dest: runs_step_inv)
  show ?thesis
  proof (cases "run_map m (br_id br)")
    case None
    obtain x where x: "new_run i ms (br_strip br) (br_active br) env = Some x"
      using params_always_accepted [of i ms] by (auto simp: new_run_def)
    then have "run_map m' (br_id br) = (if running (fst (run_Start x)) then Some (next_run m, run_Start x) else None)"
      using assms(2) None run_Start_ok [OF x] new_run_callback [OF x]
      by (simp add: m' RefreshAllInitialUrls_def Let_def run_map_put callback_ok_def)
    then show ?thesis using None x inv by (auto simp: runs_inv_def live_run_def)
  next
    case (Some rx)
    obtain rid x where rx: "rx = (rid, x)" by (cases rx)
    have live: "live_run x" using runs_invD [OF inv] Some rx by blast
    then have c: "\<not> running (fst (run_Cancel x))" "\<not> finished_callback (snd (run_Cancel x))" "finished_callback (snd x)"
      by (simp_all add: live_run_def run_Cancel_def sched_Cancel_def Finish_def run_delegate_def
          run_OnRunFinished_def)
    then have "m' = m\<lparr>run_map := (run_map m)(br_id br := None), doomed := doomed m @ [(rid, run_Cancel x)]\<rparr>"
      using assms(2) Some rx
      by (simp add: m' RefreshAllInitialUrls_def Let_def put_run_def RetireFinishedRun_def)
    then show ?thesis using Some rx c inv by (auto simp: runs_inv_def live_run_def)
  qed
qed

lemma chord_toggles_witness:
  "let br = \<lparr>br_id = 0, br_normal = True, br_strip = [10, 11], br_active = 0\<rparr>;
       m = RefreshAllInitialUrls True 5000 750 (Some br) two_tab_env no_runs
   in run_map (RefreshAllInitialUrls True 5000 750 (Some br) two_tab_env m) 0 = None \<or> run_map m 0 = None"
proof -
  define br where "br = \<lparr>br_id = 0, br_normal = True, br_strip = [10, 11], br_active = 0\<rparr>"
  define m where "m = RefreshAllInitialUrls True 5000 750 (Some br) two_tab_env no_runs"
  have "runs_step\<^sup>*\<^sup>* no_runs m"
    unfolding m_def by (rule r_into_rtranclp) (rule runs_step.pressed)
  moreover have "CanRefreshAllInitialUrls True (Some br)"
    by (simp add: CanRefreshAllInitialUrls_def br_def)
  moreover have "br_id br = 0" by (simp add: br_def)
  ultimately show ?thesis
    unfolding br_def [symmetric] Let_def unfolding m_def [symmetric]
    using chord_toggles [of m True br _ 5000 750 two_tab_env, OF _ _ refl]
    by (cases "run_map m 0") auto
qed

end
