(* ===== verification/Shortcuts.thy ===== *)
theory Shortcuts
  imports Prelude
begin

unbundle bit_operations_syntax

text \<open>
  Roamux's rebindable shortcuts: \<open>roamux/browser/tabs/shortcut_registry.cc\<close> (table, stored chords,
  validation, dispatch), \<open>shortcut_registry_mac.mm\<close> (key events and the reserved set) and
  \<open>ui/webui/roamux_shortcuts_handler.cc\<close> (the settings page's handler).

  A \<open>base::DictValue\<close> is a map to \<open>dict_value\<close>; the pref \<open>roamux.shortcuts\<close> is such a map. The state of
  the feature list is a predicate on \<open>feature\<close>. AppKit's and \<open>ui/events\<close>' key tables are arguments.
\<close>

datatype dict_value = Bool_value bool | Int_value int | String_value string
  | Dict_value "string \<rightharpoonup> dict_value"

type_synonym dict = "string \<rightharpoonup> dict_value"

definition FindBool :: "dict \<Rightarrow> string \<Rightarrow> bool option" where
  "FindBool d k = (case d k of Some (Bool_value b) \<Rightarrow> Some b | _ \<Rightarrow> None)"

definition FindInt :: "dict \<Rightarrow> string \<Rightarrow> int option" where
  "FindInt d k = (case d k of Some (Int_value i) \<Rightarrow> Some i | _ \<Rightarrow> None)"

definition FindString :: "dict \<Rightarrow> string \<Rightarrow> string option" where
  "FindString d k = (case d k of Some (String_value s) \<Rightarrow> Some s | _ \<Rightarrow> None)"

definition FindDict :: "dict \<Rightarrow> string \<Rightarrow> dict option" where
  "FindDict d k = (case d k of Some (Dict_value m) \<Rightarrow> Some m | _ \<Rightarrow> None)"

datatype feature = kInitialUrl | kTabVisitNav | kTabStripToggleShortcut | kRefreshAllInitialUrls

record Chord =
  cmd :: bool
  shift :: bool
  ctrl :: bool
  opt :: bool
  keycode :: int

record RoamuxShortcut =
  command_id :: int
  pref_key :: string
  label :: string
  sc_feature :: feature
  default_chord :: Chord

datatype RebindResult = kOk | kInvalid | kConflictsReserved | kConflictsRoamux

definition kIdcReloadInitialUrl :: int where "kIdcReloadInitialUrl = 34059"
definition kIdcTabVisitBack :: int where "kIdcTabVisitBack = 33010"
definition kIdcTabVisitForward :: int where "kIdcTabVisitForward = 33011"
definition kIdcToggleTabStrip :: int where "kIdcToggleTabStrip = 33012"
definition kIdcRefreshAllInitialUrls :: int where "kIdcRefreshAllInitialUrls = 33013"
definition kVkAnsiR :: int where "kVkAnsiR = 0x0F"
definition kVkAnsiLeftBracket :: int where "kVkAnsiLeftBracket = 0x21"
definition kVkAnsiRightBracket :: int where "kVkAnsiRightBracket = 0x1E"
definition kVkAnsiT :: int where "kVkAnsiT = 0x11"

definition kShortcuts :: "RoamuxShortcut list" where
  "kShortcuts =
    [\<lparr>command_id = kIdcReloadInitialUrl, pref_key = ''reload_initial_url'',
      label = ''Reload initial URL'', sc_feature = kInitialUrl,
      default_chord = \<lparr>cmd = True, shift = False, ctrl = True, opt = False, keycode = kVkAnsiR\<rparr>\<rparr>,
     \<lparr>command_id = kIdcTabVisitBack, pref_key = ''tab_visit_back'',
      label = ''Tab visit back'', sc_feature = kTabVisitNav,
      default_chord = \<lparr>cmd = True, shift = False, ctrl = True, opt = False, keycode = kVkAnsiLeftBracket\<rparr>\<rparr>,
     \<lparr>command_id = kIdcTabVisitForward, pref_key = ''tab_visit_forward'',
      label = ''Tab visit forward'', sc_feature = kTabVisitNav,
      default_chord = \<lparr>cmd = True, shift = False, ctrl = True, opt = False, keycode = kVkAnsiRightBracket\<rparr>\<rparr>,
     \<lparr>command_id = kIdcToggleTabStrip, pref_key = ''toggle_tab_strip'',
      label = ''Toggle tab strip'', sc_feature = kTabStripToggleShortcut,
      default_chord = \<lparr>cmd = True, shift = False, ctrl = True, opt = False, keycode = kVkAnsiT\<rparr>\<rparr>,
     \<lparr>command_id = kIdcRefreshAllInitialUrls, pref_key = ''refresh_all_initial_urls'',
      label = ''Refresh all initial URLs'', sc_feature = kRefreshAllInitialUrls,
      default_chord = \<lparr>cmd = True, shift = False, ctrl = True, opt = True, keycode = kVkAnsiR\<rparr>\<rparr>]"

definition AllShortcuts :: "RoamuxShortcut list" where "AllShortcuts = kShortcuts"

definition ToDict :: "Chord \<Rightarrow> dict" where
  "ToDict c = [''cmd'' \<mapsto> Bool_value (cmd c), ''shift'' \<mapsto> Bool_value (shift c), ''ctrl'' \<mapsto> Bool_value (ctrl c),
               ''opt'' \<mapsto> Bool_value (opt c), ''keycode'' \<mapsto> Int_value (keycode c)]"

definition FromDict :: "dict \<Rightarrow> Chord option" where
  "FromDict d =
     (case (FindBool d ''cmd'', FindBool d ''shift'', FindBool d ''ctrl'', FindBool d ''opt'', FindInt d ''keycode'') of
        (Some a, Some b, Some c, Some e, Some k) \<Rightarrow>
          Some \<lparr>cmd = a, shift = b, ctrl = c, opt = e, keycode = k\<rparr>
      | _ \<Rightarrow> None)"

definition EnabledShortcuts :: "(feature \<Rightarrow> bool) \<Rightarrow> RoamuxShortcut list \<Rightarrow> RoamuxShortcut list" where
  "EnabledShortcuts feature_on table = filter (\<lambda>e. feature_on (sc_feature e)) table"

text \<open>The prefs argument is None for a null \<open>PrefService\<close>, else the \<open>roamux.shortcuts\<close> dictionary.\<close>

definition GetCurrentChord :: "dict option \<Rightarrow> RoamuxShortcut \<Rightarrow> Chord" where
  "GetCurrentChord prefs e =
     (case prefs of
        None \<Rightarrow> default_chord e
      | Some bindings \<Rightarrow>
          (case FindDict bindings (pref_key e) of
             None \<Rightarrow> default_chord e
           | Some stored \<Rightarrow> (case FromDict stored of Some c \<Rightarrow> c | None \<Rightarrow> default_chord e)))"

definition ValidateRebind ::
  "(feature \<Rightarrow> bool) \<Rightarrow> dict option \<Rightarrow> RoamuxShortcut list \<Rightarrow> RoamuxShortcut \<Rightarrow> Chord \<Rightarrow> Chord list \<Rightarrow> RebindResult" where
  "ValidateRebind feature_on prefs table entry chord reserved =
     (if keycode chord < 0 \<or> keycode chord > 0x7F \<or> \<not> (cmd chord \<or> ctrl chord \<or> opt chord) then kInvalid
      else if list_ex (\<lambda>taken. taken = chord) reserved then kConflictsReserved
      else if list_ex (\<lambda>other. command_id other \<noteq> command_id entry \<and> GetCurrentChord prefs other = chord)
                (EnabledShortcuts feature_on table) then kConflictsRoamux
      else kOk)"

definition StoreRebind :: "dict \<Rightarrow> RoamuxShortcut \<Rightarrow> Chord \<Rightarrow> dict" where
  "StoreRebind bindings entry chord = bindings(pref_key entry \<mapsto> Dict_value (ToDict chord))"

definition CommandForChord :: "(feature \<Rightarrow> bool) \<Rightarrow> dict option \<Rightarrow> RoamuxShortcut list \<Rightarrow> Chord \<Rightarrow> int" where
  "CommandForChord feature_on prefs table chord =
     (case List.find (\<lambda>e. GetCurrentChord prefs e = chord) (EnabledShortcuts feature_on table) of
        Some e \<Rightarrow> command_id e | None \<Rightarrow> -1)"

subsection \<open>Key events\<close>

definition NSEventModifierFlagShift :: "64 word" where "NSEventModifierFlagShift = push_bit 17 1"
definition NSEventModifierFlagControl :: "64 word" where "NSEventModifierFlagControl = push_bit 18 1"
definition NSEventModifierFlagOption :: "64 word" where "NSEventModifierFlagOption = push_bit 19 1"
definition NSEventModifierFlagCommand :: "64 word" where "NSEventModifierFlagCommand = push_bit 20 1"

definition chord_of_flags :: "64 word \<Rightarrow> int \<Rightarrow> Chord" where
  "chord_of_flags modifiers code =
     \<lparr>cmd = modifiers AND NSEventModifierFlagCommand \<noteq> 0,
      shift = modifiers AND NSEventModifierFlagShift \<noteq> 0,
      ctrl = modifiers AND NSEventModifierFlagControl \<noteq> 0,
      opt = modifiers AND NSEventModifierFlagOption \<noteq> 0,
      keycode = code\<rparr>"

text \<open>A browser window: its native window, its profile's bindings and the two availability tests.\<close>

record key_target =
  native_window :: nat
  target_bindings :: dict
  can_toggle_strip :: bool
  can_refresh_all :: bool

record key_event =
  ev_modifiers :: "64 word"
  ev_keycode :: int
  ev_window :: "nat option"

definition ChordFromEvent :: "key_event \<Rightarrow> Chord" where
  "ChordFromEvent e = chord_of_flags (ev_modifiers e) (ev_keycode e)"

definition BrowserForEventWindow :: "key_event \<Rightarrow> key_target list \<Rightarrow> key_target option" where
  "BrowserForEventWindow e browsers =
     (case ev_window e of None \<Rightarrow> None
      | Some w \<Rightarrow> List.find (\<lambda>b. native_window b = w) browsers)"

definition IsEventWindowResolved :: "int \<Rightarrow> bool" where
  "IsEventWindowResolved c \<longleftrightarrow> c = kIdcToggleTabStrip \<or> c = kIdcRefreshAllInitialUrls"

definition IsAvailableForTarget :: "int \<Rightarrow> key_target \<Rightarrow> bool" where
  "IsAvailableForTarget c t =
     (if c = kIdcToggleTabStrip then can_toggle_strip t
      else if c = kIdcRefreshAllInitialUrls then can_refresh_all t
      else True)"

definition CommandForKeyEventOverride ::
  "(feature \<Rightarrow> bool) \<Rightarrow> key_target list \<Rightarrow> key_target option \<Rightarrow> key_event \<Rightarrow> int" where
  "CommandForKeyEventOverride feature_on browsers last_active e =
     (let chord = ChordFromEvent e;
          from_last = (case last_active of
             None \<Rightarrow> -1
           | Some la \<Rightarrow>
               (let c = CommandForChord feature_on (Some (target_bindings la)) AllShortcuts chord
                in if IsEventWindowResolved c then -1 else c))
      in case BrowserForEventWindow e browsers of
           None \<Rightarrow> from_last
         | Some target \<Rightarrow>
             (let c = CommandForChord feature_on (Some (target_bindings target)) AllShortcuts chord
              in if IsEventWindowResolved c
                 then (if IsAvailableForTarget c target then c else -1) else from_last))"

text \<open>The main menu: items with key equivalents and submenus.\<close>

datatype menu_item = Menu_item (key_equivalent: string) (modifier_mask: "64 word") (submenu: "menu_item list option")

fun CollectMenuKeyEquivalents :: "(char \<Rightarrow> int) \<Rightarrow> menu_item list \<Rightarrow> Chord list" where
  "CollectMenuKeyEquivalents mac_code [] = []"
| "CollectMenuKeyEquivalents mac_code (Menu_item key mods sub # items) =
     (case key of [] \<Rightarrow> []
      | ch # _ \<Rightarrow> if mac_code ch \<ge> 0 then [chord_of_flags mods (mac_code ch)] else []) @
     (case sub of None \<Rightarrow> [] | Some its \<Rightarrow> CollectMenuKeyEquivalents mac_code its) @
     CollectMenuKeyEquivalents mac_code items"

record accelerator =
  acc_command :: int
  acc_chord :: Chord

text \<open>
  \<open>EnumerateReservedChords\<close>: the accelerator rows (with the Mac key code \<open>ui\<close> converts each to), the
  shortcuts outside the menu, and the menu's key equivalents.
\<close>

definition EnumerateReservedChords ::
  "accelerator list \<Rightarrow> Chord list \<Rightarrow> (char \<Rightarrow> int) \<Rightarrow> menu_item list option \<Rightarrow> int \<Rightarrow> Chord list" where
  "EnumerateReservedChords accs non_menu mac_code main_menu exclude =
     map acc_chord (filter (\<lambda>a. acc_command a \<noteq> exclude \<and> keycode (acc_chord a) \<ge> 0) accs) @
     non_menu @
     (case main_menu of None \<Rightarrow> [] | Some items \<Rightarrow> CollectMenuKeyEquivalents mac_code items)"

definition CarbonKeycodeFromDomCodeString :: "(string \<Rightarrow> nat option) \<Rightarrow> (nat \<Rightarrow> int) \<Rightarrow> string \<Rightarrow> int" where
  "CarbonKeycodeFromDomCodeString dom_code native code =
     (case dom_code code of None \<Rightarrow> -1 | Some d \<Rightarrow> native d)"

subsection \<open>The settings handler\<close>

definition ChordDisplayString :: "(int \<Rightarrow> string) \<Rightarrow> Chord \<Rightarrow> string" where
  "ChordDisplayString key_display c =
     (if ctrl c then map char_of [0xE2, 0x8C, 0x83 :: nat] else []) @
     (if opt c then map char_of [0xE2, 0x8C, 0xA5 :: nat] else []) @
     (if shift c then map char_of [0xE2, 0x87, 0xA7 :: nat] else []) @
     (if cmd c then map char_of [0xE2, 0x8C, 0x98 :: nat] else []) @
     key_display (keycode c)"

definition BuildShortcutList :: "(feature \<Rightarrow> bool) \<Rightarrow> (int \<Rightarrow> string) \<Rightarrow> dict \<Rightarrow> dict list" where
  "BuildShortcutList feature_on key_display bindings =
     map (\<lambda>e. [''key'' \<mapsto> String_value (pref_key e), ''label'' \<mapsto> String_value (label e),
               ''chordText'' \<mapsto> String_value (ChordDisplayString key_display (GetCurrentChord (Some bindings) e))])
       (EnabledShortcuts feature_on AllShortcuts)"

definition Rebind ::
  "(feature \<Rightarrow> bool) \<Rightarrow> (string \<Rightarrow> int) \<Rightarrow> (int \<Rightarrow> Chord list) \<Rightarrow> string \<Rightarrow> dict \<Rightarrow> dict \<Rightarrow> string \<times> dict" where
  "Rebind feature_on carbon reserved key chord_dict bindings =
     (case (FindString chord_dict ''code'', FindBool chord_dict ''cmd'', FindBool chord_dict ''shift'',
            FindBool chord_dict ''ctrl'', FindBool chord_dict ''opt'') of
        (Some code, Some a, Some b, Some c, Some e) \<Rightarrow>
          let chord = \<lparr>cmd = a, shift = b, ctrl = c, opt = e, keycode = carbon code\<rparr>
          in if keycode chord < 0 then (''invalid'', bindings)
             else (case List.find (\<lambda>s. pref_key s = key) (EnabledShortcuts feature_on AllShortcuts) of
                     None \<Rightarrow> (''invalid'', bindings)
                   | Some entry \<Rightarrow>
                       (case ValidateRebind feature_on (Some bindings) AllShortcuts entry chord
                               (reserved (command_id entry)) of
                          kOk \<Rightarrow> ([], StoreRebind bindings entry chord)
                        | kInvalid \<Rightarrow> (''invalid'', bindings)
                        | kConflictsReserved \<Rightarrow> (''reserved'', bindings)
                        | kConflictsRoamux \<Rightarrow> (''roamux'', bindings)))
      | _ \<Rightarrow> (''invalid'', bindings))"

text \<open>
  \<open>HandleRebindShortcut\<close>: the message's arguments, the callback's id, then a string and a dictionary
  when well typed. The page always sends three; the code's indexing stops the process on fewer.
\<close>

definition HandleRebindShortcut ::
  "(feature \<Rightarrow> bool) \<Rightarrow> (string \<Rightarrow> int) \<Rightarrow> (int \<Rightarrow> Chord list) \<Rightarrow> dict_value list \<Rightarrow> dict \<Rightarrow> string \<times> dict" where
  "HandleRebindShortcut feature_on carbon reserved args bindings =
     (case args of
        _ # String_value key # Dict_value d # _ \<Rightarrow> Rebind feature_on carbon reserved key d bindings
      | _ \<Rightarrow> (''invalid'', bindings))"

subsection \<open>Rebinding keeps dispatch unambiguous\<close>

lemma FromDict_ToDict [simp]: "FromDict (ToDict c) = Some c"
  by (simp add: FromDict_def ToDict_def FindBool_def FindInt_def)

lemma GetCurrentChord_Store:
  "GetCurrentChord (Some (StoreRebind b entry c)) e = (if pref_key e = pref_key entry then c else GetCurrentChord (Some b) e)"
  by (simp add: GetCurrentChord_def StoreRebind_def FindDict_def)

lemma distinct_table: "distinct (map pref_key kShortcuts)" "distinct (map command_id kShortcuts)"
  "distinct (map default_chord kShortcuts)"
  by (simp_all add: kShortcuts_def kIdcReloadInitialUrl_def kIdcTabVisitBack_def kIdcTabVisitForward_def
      kIdcToggleTabStrip_def kIdcRefreshAllInitialUrls_def kVkAnsiR_def kVkAnsiLeftBracket_def
      kVkAnsiRightBracket_def kVkAnsiT_def)

definition unambiguous :: "(feature \<Rightarrow> bool) \<Rightarrow> dict \<Rightarrow> bool" where
  "unambiguous feature_on b \<longleftrightarrow>
     distinct (map (GetCurrentChord (Some b)) (EnabledShortcuts feature_on AllShortcuts))"

lemma enabled_inj:
  "inj_on pref_key (set (EnabledShortcuts f AllShortcuts))" "inj_on command_id (set (EnabledShortcuts f AllShortcuts))"
  "distinct (EnabledShortcuts f AllShortcuts)"
proof -
  have "distinct (map pref_key (EnabledShortcuts f AllShortcuts))"
    "distinct (map command_id (EnabledShortcuts f AllShortcuts))"
    using distinct_table by (simp_all add: EnabledShortcuts_def AllShortcuts_def distinct_map_filter)
  then show "inj_on pref_key (set (EnabledShortcuts f AllShortcuts))"
    "inj_on command_id (set (EnabledShortcuts f AllShortcuts))" "distinct (EnabledShortcuts f AllShortcuts)"
    by (simp_all add: distinct_map)
qed

lemma unambiguous_default: "unambiguous f Map.empty"
proof -
  have "GetCurrentChord (Some Map.empty) = default_chord"
    by (simp add: fun_eq_iff GetCurrentChord_def FindDict_def)
  then show ?thesis
    using distinct_table(3) by (simp add: unambiguous_def EnabledShortcuts_def AllShortcuts_def distinct_map_filter)
qed


lemma find_enabled:
  "List.find (\<lambda>s. pref_key s = key) (EnabledShortcuts f AllShortcuts) = Some e \<Longrightarrow>
     e \<in> set (EnabledShortcuts f AllShortcuts) \<and> pref_key e = key"
  by (auto simp: find_Some_iff)

text \<open>A rebind either stores a valid, unreserved chord no other enabled shortcut has, or changes nothing.\<close>

lemma ValidateRebind_kOk:
  "ValidateRebind f prefs table e c reserved = kOk \<longleftrightarrow>
     0 \<le> keycode c \<and> keycode c \<le> 0x7F \<and> (cmd c \<or> ctrl c \<or> opt c) \<and> c \<notin> set reserved \<and>
     (\<forall>e' \<in> set (EnabledShortcuts f table). command_id e' \<noteq> command_id e \<longrightarrow> GetCurrentChord prefs e' \<noteq> c)"
  by (auto simp: ValidateRebind_def list_ex_iff)

lemma Rebind_outcome:
  "Rebind f carbon reserved key d b = (err, b') \<Longrightarrow> err \<noteq> [] \<and> b' = b \<or>
     (\<exists>e c. List.find (\<lambda>s. pref_key s = key) (EnabledShortcuts f AllShortcuts) = Some e \<and>
        ValidateRebind f (Some b) AllShortcuts e c (reserved (command_id e)) = kOk \<and>
        err = [] \<and> b' = StoreRebind b e c)"
  unfolding Rebind_def Let_def by (fastforce split: option.splits if_splits RebindResult.splits)

lemma Rebind_cases:
  assumes "Rebind f carbon reserved key d b = (err, b')"
  shows "err \<noteq> [] \<and> b' = b \<or>
    (\<exists>e c. err = [] \<and> e \<in> set (EnabledShortcuts f AllShortcuts) \<and> pref_key e = key \<and> b' = StoreRebind b e c \<and>
       (cmd c \<or> ctrl c \<or> opt c) \<and> 0 \<le> keycode c \<and> keycode c \<le> 0x7F \<and> c \<notin> set (reserved (command_id e)) \<and>
       (\<forall>e' \<in> set (EnabledShortcuts f AllShortcuts). e' \<noteq> e \<longrightarrow> GetCurrentChord (Some b) e' \<noteq> c))"
proof -
  have "command_id x \<noteq> command_id e" if "x \<in> set (EnabledShortcuts f AllShortcuts)"
      "e \<in> set (EnabledShortcuts f AllShortcuts)" "x \<noteq> e" for x e
    using that inj_onD [OF enabled_inj(2) [of f]] by blast
  then show ?thesis
    using Rebind_outcome [OF assms] unfolding ValidateRebind_kOk by (blast dest: find_enabled)
qed

lemma Rebind_unambiguous: "unambiguous f b \<Longrightarrow> unambiguous f (snd (Rebind f carbon reserved key d b))"
proof -
  assume u: "unambiguous f b"
  obtain err b' where r: "Rebind f carbon reserved key d b = (err, b')" by (cases "Rebind f carbon reserved key d b")
  show ?thesis
  proof (cases "b' = b")
    case True
    then show ?thesis using u r by simp
  next
    case False
    then obtain e c where e: "e \<in> set (EnabledShortcuts f AllShortcuts)" "b' = StoreRebind b e c"
      and c: "\<forall>e' \<in> set (EnabledShortcuts f AllShortcuts). e' \<noteq> e \<longrightarrow> GetCurrentChord (Some b) e' \<noteq> c"
      using Rebind_cases [OF r] by blast
    have "GetCurrentChord (Some b') x = (if x = e then c else GetCurrentChord (Some b) x)"
      if "x \<in> set (EnabledShortcuts f AllShortcuts)" for x
      using that e enabled_inj(1) [of f, THEN inj_onD] by (auto simp: GetCurrentChord_Store)
    then have "inj_on (GetCurrentChord (Some b')) (set (EnabledShortcuts f AllShortcuts))"
      using u c unfolding unambiguous_def distinct_map inj_on_def by auto
    then show ?thesis using r enabled_inj(3) by (simp add: unambiguous_def distinct_map)
  qed
qed

lemma unambiguous_dispatch:
  "unambiguous f b \<Longrightarrow> e \<in> set (EnabledShortcuts f AllShortcuts) \<Longrightarrow>
   CommandForChord f (Some b) AllShortcuts (GetCurrentChord (Some b) e) = command_id e"
proof -
  assume u: "unambiguous f b" and e: "e \<in> set (EnabledShortcuts f AllShortcuts)"
  have "List.find (\<lambda>x. GetCurrentChord (Some b) x = GetCurrentChord (Some b) e) (EnabledShortcuts f AllShortcuts) \<noteq> None"
    using e by (auto simp: find_None_iff)
  then obtain x where x: "List.find (\<lambda>x. GetCurrentChord (Some b) x = GetCurrentChord (Some b) e)
      (EnabledShortcuts f AllShortcuts) = Some x" by blast
  then have "x \<in> set (EnabledShortcuts f AllShortcuts)" "GetCurrentChord (Some b) x = GetCurrentChord (Some b) e"
    by (auto simp: find_Some_iff)
  then have "x = e" using u e by (auto simp: unambiguous_def distinct_map inj_on_def)
  then show ?thesis using x by (simp add: CommandForChord_def)
qed

type_synonym rebind_message = "(int \<Rightarrow> Chord list) \<times> dict_value list"

text \<open>The settings page's messages one after another, each with the reserved set it sees.\<close>

definition handle_all :: "(feature \<Rightarrow> bool) \<Rightarrow> (string \<Rightarrow> int) \<Rightarrow> rebind_message list \<Rightarrow> dict \<Rightarrow> dict" where
  "handle_all f carbon ms b = fold (\<lambda>(reserved, args) b. snd (HandleRebindShortcut f carbon reserved args b)) ms b"

lemma Handle_unambiguous: "unambiguous f b \<Longrightarrow> unambiguous f (snd (HandleRebindShortcut f carbon reserved args b))"
  by (auto simp: HandleRebindShortcut_def Rebind_unambiguous split: list.split dict_value.split)

text \<open>
  C18: no sequence of rebinds makes dispatch ambiguous. Whatever messages the settings page sends,
  well formed or not, and whatever chords are reserved meanwhile, the enabled shortcuts' chords stay
  pairwise different and each enabled shortcut's current chord dispatches to its own command.
\<close>

theorem rebinds_keep_dispatch:
  "let b = handle_all f carbon ms Map.empty in
     distinct (map (GetCurrentChord (Some b)) (EnabledShortcuts f AllShortcuts)) \<and>
     map (\<lambda>e. CommandForChord f (Some b) AllShortcuts (GetCurrentChord (Some b) e)) (EnabledShortcuts f AllShortcuts)
       = map command_id (EnabledShortcuts f AllShortcuts)"
proof -
  have "unambiguous f (handle_all f carbon ms b)" if "unambiguous f b" for b
    using that
  proof (induction ms arbitrary: b)
    case (Cons m ms)
    show ?case
      using Cons.IH [OF Handle_unambiguous [OF Cons.prems, of carbon "fst m" "snd m"]]
      by (simp add: handle_all_def case_prod_beta)
  qed (simp add: handle_all_def)
  then have u: "unambiguous f (handle_all f carbon ms Map.empty)" using unambiguous_default by blast
  show ?thesis using u unambiguous_dispatch [OF u] by (simp add: unambiguous_def Let_def)
qed

text \<open>
  A command that acts on a whole window is never sent to the wrong one. The override claims a key
  event for the strip toggle or the refresh of all tabs only when the event's own window resolves to a
  browser whose profile binds that chord to it and where it is available.
\<close>

theorem event_window_commands:
  assumes "c = CommandForKeyEventOverride f browsers last_active e" and "IsEventWindowResolved c"
  shows "\<exists>t. BrowserForEventWindow e browsers = Some t \<and> ev_window e = Some (native_window t) \<and>
     CommandForChord f (Some (target_bindings t)) AllShortcuts (ChordFromEvent e) = c \<and> IsAvailableForTarget c t"
proof -
  have neg: "\<not> IsEventWindowResolved (-1)"
    by (simp add: IsEventWindowResolved_def kIdcToggleTabStrip_def kIdcRefreshAllInitialUrls_def)
  have "\<exists>t. BrowserForEventWindow e browsers = Some t \<and>
     CommandForChord f (Some (target_bindings t)) AllShortcuts (ChordFromEvent e) = c \<and> IsAvailableForTarget c t"
    using assms neg unfolding CommandForKeyEventOverride_def Let_def by (auto split: option.splits if_splits)
  then show ?thesis
    by (auto simp: BrowserForEventWindow_def find_Some_iff split: option.splits)
qed

lemma event_window_commands_witness:
  "let t = \<lparr>native_window = 5, target_bindings = Map.empty, can_toggle_strip = True, can_refresh_all = False\<rparr>;
       e = \<lparr>ev_modifiers = NSEventModifierFlagCommand OR NSEventModifierFlagControl, ev_keycode = 0x11, ev_window = Some 5\<rparr>
   in CommandForKeyEventOverride (\<lambda>_. True) [t] None e = kIdcToggleTabStrip \<and> BrowserForEventWindow e [t] = Some t"
proof -
  define t where "t = \<lparr>native_window = 5, target_bindings = Map.empty :: dict, can_toggle_strip = True, can_refresh_all = False\<rparr>"
  define e where "e = \<lparr>ev_modifiers = NSEventModifierFlagCommand OR NSEventModifierFlagControl, ev_keycode = 0x11, ev_window = Some 5\<rparr>"
  have ch: "ChordFromEvent e = \<lparr>cmd = True, shift = False, ctrl = True, opt = False, keycode = 0x11\<rparr>"
    by (simp add: e_def ChordFromEvent_def chord_of_flags_def NSEventModifierFlagCommand_def
        NSEventModifierFlagControl_def NSEventModifierFlagShift_def NSEventModifierFlagOption_def)
  have w: "BrowserForEventWindow e [t] = Some t"
    by (simp add: BrowserForEventWindow_def e_def t_def)
  have c: "CommandForKeyEventOverride (\<lambda>_. True) [t] None e = kIdcToggleTabStrip"
    unfolding CommandForKeyEventOverride_def ch w
    by (simp add: Let_def t_def kIdcToggleTabStrip_def kIdcReloadInitialUrl_def kIdcTabVisitBack_def
        kIdcTabVisitForward_def kIdcRefreshAllInitialUrls_def
        CommandForChord_def EnabledShortcuts_def AllShortcuts_def kShortcuts_def GetCurrentChord_def FindDict_def
        kVkAnsiR_def kVkAnsiLeftBracket_def kVkAnsiRightBracket_def kVkAnsiT_def IsEventWindowResolved_def
        IsAvailableForTarget_def)
  moreover have "\<exists>x. BrowserForEventWindow e [t] = Some x \<and> ev_window e = Some (native_window x) \<and>
     CommandForChord (\<lambda>_. True) (Some (target_bindings x)) AllShortcuts (ChordFromEvent e) = kIdcToggleTabStrip \<and>
     IsAvailableForTarget kIdcToggleTabStrip x"
    by (rule event_window_commands [OF c [symmetric]]) (simp add: IsEventWindowResolved_def)
  ultimately show ?thesis
    unfolding t_def [symmetric] e_def [symmetric] Let_def
    by (auto simp: BrowserForEventWindow_def split: option.splits if_splits)
qed

end
