(* ===== verification/Initial_Url_Menu.thy ===== *)
theory Initial_Url_Menu
  imports Shortcuts Refresh_Run
begin

text \<open>
  The tab context menu's "Initial URL" submenu, \<open>roamux/browser/ui/tabs/initial_url_menu.cc\<close> and \<open>.h\<close>:
  its items, their enablement, the accelerator it advertises and what each command does. Chromium's
  key tables and the parser are arguments; a command's effect is on the tabs' helpers, on the map of
  runs, or the request to show the edit dialog.
\<close>

definition kInitialUrlSubMenuCommandId :: int where "kInitialUrlSubMenuCommandId = 2110"
definition kEditInitialUrlCommandId :: int where "kEditInitialUrlCommandId = 2111"
definition kSetInitialUrlToCurrentPageCommandId :: int where "kSetInitialUrlToCurrentPageCommandId = 2112"
definition kRefreshAllInitialUrlsCommandId :: int where "kRefreshAllInitialUrlsCommandId = 2113"

definition IsInitialUrlCommandId :: "int \<Rightarrow> bool" where
  "IsInitialUrlCommandId c \<longleftrightarrow> c \<ge> kInitialUrlSubMenuCommandId \<and> c \<le> kRefreshAllInitialUrlsCommandId"

text \<open>The submenu holds its contents weakly: None once the tab is gone. \<open>FindBrowserWithTab\<close> is the strip.\<close>

record menu_env =
  menu_urls :: url_world
  strip_of :: "wc_id \<Rightarrow> wc_id list option"
  feature_state :: "feature \<Rightarrow> bool"
  profile_bindings :: dict

definition InitialUrlMenuModel :: "(feature \<Rightarrow> bool) \<Rightarrow> int list" where
  "InitialUrlMenuModel on =
     [kEditInitialUrlCommandId, kSetInitialUrlToCurrentPageCommandId] @
     (if on kRefreshAllInitialUrls then [kRefreshAllInitialUrlsCommandId] else [])"

definition IsCommandIdEnabled :: "menu_env \<Rightarrow> wc_id option \<Rightarrow> int \<Rightarrow> bool" where
  "IsCommandIdEnabled m cont c =
     (case cont of
        None \<Rightarrow> False
      | Some wc \<Rightarrow>
          if c = kSetInitialUrlToCurrentPageCommandId then CanSetToCurrentPage wc (menu_urls m)
          else if c = kRefreshAllInitialUrlsCommandId then
            (case strip_of m wc of
               None \<Rightarrow> False
             | Some strip \<Rightarrow> list_ex (\<lambda>x. CanReloadInitialUrlForContents (feature_state m kInitialUrl) (Some x) (menu_urls m)) strip)
          else True)"

datatype ef_flag = EF_COMMAND_DOWN | EF_CONTROL_DOWN | EF_ALT_DOWN | EF_SHIFT_DOWN

definition GetAcceleratorForCommandId ::
  "(int \<Rightarrow> nat option) \<Rightarrow> (nat \<Rightarrow> nat option) \<Rightarrow> menu_env \<Rightarrow> wc_id option \<Rightarrow> int \<Rightarrow> (nat \<times> ef_flag set) option" where
  "GetAcceleratorForCommandId native_to_dom dom_to_key m cont c =
     (case cont of
        None \<Rightarrow> None
      | Some wc \<Rightarrow>
          if c \<noteq> kRefreshAllInitialUrlsCommandId then None
          else if strip_of m wc = None then None
          else (case List.find (\<lambda>e. command_id e = kIdcRefreshAllInitialUrls) AllShortcuts of
                  None \<Rightarrow> None
                | Some row \<Rightarrow>
                    let chord = GetCurrentChord (Some (profile_bindings m)) row;
                        modifiers = (if cmd chord then {EF_COMMAND_DOWN} else {}) \<union>
                                    (if ctrl chord then {EF_CONTROL_DOWN} else {}) \<union>
                                    (if opt chord then {EF_ALT_DOWN} else {}) \<union>
                                    (if shift chord then {EF_SHIFT_DOWN} else {})
                    in (case native_to_dom (keycode chord) of
                          None \<Rightarrow> None
                        | Some dom_code \<Rightarrow> (case dom_to_key dom_code of
                            None \<Rightarrow> None
                          | Some key \<Rightarrow> Some (key, modifiers)))))"

datatype menu_effect = Show_edit_dialog wc_id string | Refresh_all "wc_id list"

definition menu_ExecuteCommand ::
  "menu_env \<Rightarrow> wc_id option \<Rightarrow> int \<Rightarrow> menu_effect list \<times> menu_env" where
  "menu_ExecuteCommand m cont c =
     (case cont of
        None \<Rightarrow> ([], m)
      | Some wc \<Rightarrow>
          let w = MaybeCreateForWebContents (feature_state m kInitialUrl) wc (menu_urls m);
              m1 = m\<lparr>menu_urls := w\<rparr>
          in if helper_of w wc = None then ([], m1)
             else if c = kEditInitialUrlCommandId then ([Show_edit_dialog wc (initial_text wc w)], m1)
             else if c = kSetInitialUrlToCurrentPageCommandId then
               (if CanSetToCurrentPage wc w
                then ([], m1\<lparr>menu_urls := snd (SetUserInitialUrl wc (last_committed (the (tabs w wc))) w)\<rparr>)
                else ([], m1))
             else if c = kRefreshAllInitialUrlsCommandId then
               (case strip_of m wc of None \<Rightarrow> ([], m1) | Some strip \<Rightarrow> ([Refresh_all strip], m1))
             else ([], m1))"

definition MaybeAppendInitialUrlSubMenu :: "(feature \<Rightarrow> bool) \<Rightarrow> wc_id option \<Rightarrow> int list option" where
  "MaybeAppendInitialUrlSubMenu on cont =
     (if cont = None \<or> \<not> on kInitialUrl then None else Some (InitialUrlMenuModel on))"

lemma menu_items_guarded: "c \<in> set (InitialUrlMenuModel on) \<Longrightarrow> IsInitialUrlCommandId c"
  by (auto simp: InitialUrlMenuModel_def IsInitialUrlCommandId_def kEditInitialUrlCommandId_def
      kSetInitialUrlToCurrentPageCommandId_def kRefreshAllInitialUrlsCommandId_def
      kInitialUrlSubMenuCommandId_def split: if_splits)

lemma menu_keeps_url_inv: "url_inv (menu_urls m) \<Longrightarrow> url_inv (menu_urls (snd (menu_ExecuteCommand m cont c)))"
  by (auto simp: menu_ExecuteCommand_def Let_def Create_inv SetUser_inv split: option.split)

lemma menu_accelerator_is_current:
  assumes "GetAcceleratorForCommandId n k m cont c = Some (key, mods)"
  shows "\<exists>row chord. row \<in> set AllShortcuts \<and> command_id row = kIdcRefreshAllInitialUrls \<and>
     chord = GetCurrentChord (Some (profile_bindings m)) row \<and>
     (EF_COMMAND_DOWN \<in> mods) = cmd chord \<and> (EF_CONTROL_DOWN \<in> mods) = ctrl chord \<and>
     (EF_ALT_DOWN \<in> mods) = opt chord \<and> (EF_SHIFT_DOWN \<in> mods) = shift chord"
  using assms
  by (auto simp: GetAcceleratorForCommandId_def Let_def find_Some_iff split: option.splits if_splits)
     (metis nth_mem)+

end
