(* ===== verification/Group_Click.thy ===== *)
theory Group_Click
  imports Prelude
begin

text \<open>
  Double-clicking a tab group's header collapses or expands every group of the window:
  \<open>roamux/browser/tabs/group_header_double_click.cc\<close> and \<open>.h\<close>. The header's gesture state, the target
  rule, the bulk pass and the snapshot of the strip. A \<open>TabGroupId\<close> is an opaque token (a number); the
  pass's \<open>snapshot\<close> and \<open>toggle\<close> callbacks are functions on the window's state, \<open>toggle\<close> also seeing
  \<open>g_pass_running\<close>, as an observer that re-enters the pass does.
\<close>

type_synonym group_id = nat

record GroupState =
  gid :: group_id
  collapsed :: bool
  contains_active_tab :: bool

type_synonym Snapshot = "GroupState list"

definition FindGroup :: "Snapshot \<Rightarrow> group_id \<Rightarrow> GroupState option" where
  "FindGroup groups i = List.find (\<lambda>g. gid g = i) groups"

definition EqualExceptClickedFlipped :: "Snapshot \<Rightarrow> Snapshot \<Rightarrow> group_id \<Rightarrow> bool" where
  "EqualExceptClickedFlipped before now clicked \<longleftrightarrow>
     length before = length now \<and>
     list_all (\<lambda>b. case FindGroup now (gid b) of
         None \<Rightarrow> False
       | Some n \<Rightarrow> collapsed n = (if gid b = clicked then \<not> collapsed b else collapsed b)) before"

record Plan =
  target_collapsed :: bool
  to_toggle :: "group_id list"

text \<open>The plan's loop: ids to toggle in order, and the id held back for the end (\<open>active_last\<close>).\<close>

fun plan_scan :: "bool \<Rightarrow> Snapshot \<Rightarrow> group_id list \<Rightarrow> group_id option \<Rightarrow> group_id list \<times> group_id option" where
  "plan_scan target [] acc act = (acc, act)"
| "plan_scan target (g # gs) acc act =
     (if collapsed g = target then plan_scan target gs acc act
      else if target \<and> contains_active_tab g then plan_scan target gs acc (Some (gid g))
      else plan_scan target gs (acc @ [gid g]) act)"

definition PlanDoubleClickAll :: "Snapshot \<Rightarrow> group_id \<Rightarrow> bool \<Rightarrow> Plan" where
  "PlanDoubleClickAll groups clicked clicked_pre_collapsed =
     (let all_expanded_before =
            \<not> list_ex (\<lambda>g. if gid g = clicked then clicked_pre_collapsed else collapsed g) groups;
          (ids, active_last) = plan_scan all_expanded_before groups [] None
      in \<lparr>target_collapsed = all_expanded_before,
          to_toggle = ids @ (case active_last of None \<Rightarrow> [] | Some i \<Rightarrow> [i])\<rparr>)"

datatype PassResult = kCompleted | kStopped | kIgnoredNested

type_synonym 'w toggle = "group_id \<Rightarrow> bool \<times> 'w \<Rightarrow> bool \<times> bool \<times> 'w"

fun pass_loop ::
  "bool \<Rightarrow> ('w \<Rightarrow> Snapshot option) \<Rightarrow> 'w toggle \<Rightarrow> group_id list \<Rightarrow> bool \<times> 'w \<Rightarrow> PassResult \<times> bool \<times> 'w" where
  "pass_loop target snap toggle [] st = (kCompleted, st)"
| "pass_loop target snap toggle (i # ids) st =
     (case snap (snd st) of
        None \<Rightarrow> (kStopped, st)
      | Some now \<Rightarrow>
          (case FindGroup now i of
             None \<Rightarrow> pass_loop target snap toggle ids st
           | Some g \<Rightarrow>
               if collapsed g = target then pass_loop target snap toggle ids st
               else let (ok, st') = toggle i st
                    in if ok then pass_loop target snap toggle ids st' else (kStopped, st')))"

text \<open>The state is \<open>g_pass_running\<close> and the window; \<open>AutoReset\<close> puts the flag back on every return.\<close>

definition RunDoubleClickAll ::
  "group_id \<Rightarrow> bool \<Rightarrow> ('w \<Rightarrow> Snapshot option) \<Rightarrow> 'w toggle \<Rightarrow> bool \<times> 'w \<Rightarrow> PassResult \<times> bool \<times> 'w" where
  "RunDoubleClickAll clicked pre snap toggle st =
     (let (pass_running, w) = st
      in if pass_running then (kIgnoredNested, st)
         else (case snap w of
                 None \<Rightarrow> (kStopped, False, w)
               | Some groups \<Rightarrow>
                   let plan = PlanDoubleClickAll groups clicked pre;
                       (result, _, w') = pass_loop (target_collapsed plan) snap toggle (to_toggle plan) (True, w)
                   in (result, False, w')))"

text \<open>A \<open>TabStripModel\<close>: the active tab's group (if there is an active tab), and the group model, if any.\<close>

record strip_model =
  closing_all :: bool
  active_tab_group :: "group_id option option"
  group_list :: "group_id list option"
  group_collapsed :: "group_id \<Rightarrow> bool option"

definition SnapshotFromModel :: "strip_model option \<Rightarrow> Snapshot option" where
  "SnapshotFromModel model =
     (case model of
        None \<Rightarrow> None
      | Some m \<Rightarrow>
          if closing_all m then None
          else (case group_list m of
                  None \<Rightarrow> None
                | Some ids \<Rightarrow>
                    let active_group = (case active_tab_group m of None \<Rightarrow> None | Some g \<Rightarrow> g)
                    in Some (List.map_filter (\<lambda>i. case group_collapsed m i of
                           None \<Rightarrow> None
                         | Some c \<Rightarrow> Some \<lparr>gid = i, collapsed = c, contains_active_tab = (active_group = Some i)\<rparr>) ids)))"

subsection \<open>The gesture\<close>

datatype Phase = kIdle | kRecorded | kLatched

record GestureState =
  phase :: Phase
  clicked_group :: "group_id option"
  clicked_pre_collapsed :: bool
  before_toggle :: Snapshot
  release_time :: time

definition gesture_Reset :: GestureState where
  "gesture_Reset = \<lparr>phase = kIdle, clicked_group = None, clicked_pre_collapsed = False,
                    before_toggle = [], release_time = 0\<rparr>"

definition OnLeftPress :: "bool \<Rightarrow> time \<Rightarrow> time \<Rightarrow> Snapshot option \<Rightarrow> GestureState \<Rightarrow> GestureState" where
  "OnLeftPress double_click_flag press_time max_age groups s =
     (if phase s = kRecorded \<and> double_click_flag \<and> groups \<noteq> None \<and>
         press_time - release_time s \<le> max_age \<and>
         EqualExceptClickedFlipped (before_toggle s) (the groups) (the (clicked_group s))
      then s\<lparr>phase := kLatched\<rparr> else gesture_Reset)"

definition RecordSingleToggle :: "group_id \<Rightarrow> Snapshot option \<Rightarrow> time \<Rightarrow> GestureState" where
  "RecordSingleToggle clicked before t =
     (case before of
        None \<Rightarrow> gesture_Reset
      | Some b \<Rightarrow>
          (case FindGroup b clicked of
             None \<Rightarrow> gesture_Reset
           | Some g \<Rightarrow> \<lparr>phase = kRecorded, clicked_group = Some clicked,
                         clicked_pre_collapsed = collapsed g, before_toggle = b, release_time = t\<rparr>))"

definition ConsumeOnDoubleClickRelease ::
  "group_id \<Rightarrow> Snapshot option \<Rightarrow> GestureState \<Rightarrow> bool option \<times> GestureState" where
  "ConsumeOnDoubleClickRelease clicked groups s =
     (let run = (phase s = kLatched \<and> clicked_group s = Some clicked \<and> groups \<noteq> None \<and>
                 EqualExceptClickedFlipped (before_toggle s) (the groups) clicked);
          pre = clicked_pre_collapsed s
      in (if run then Some pre else None, gesture_Reset))"

subsection \<open>What a completed pass achieves\<close>

text \<open>The collapsed state a snapshot shows for an id.\<close>

definition state_of :: "Snapshot \<Rightarrow> group_id \<Rightarrow> bool option" where
  "state_of s i = map_option collapsed (FindGroup s i)"

text \<open>What the group model guarantees of a snapshot: ids are distinct, one group holds the active tab.\<close>

definition snapshot_ok :: "Snapshot \<Rightarrow> bool" where
  "snapshot_ok s \<longleftrightarrow> distinct (map gid s) \<and> length (filter contains_active_tab s) \<le> 1"

lemma FindGroup_Some: "FindGroup s i = Some g \<Longrightarrow> g \<in> set s \<and> gid g = i"
  by (auto simp: FindGroup_def find_Some_iff)

lemma FindGroup_None: "FindGroup s i = None \<longleftrightarrow> i \<notin> gid ` set s"
  by (auto simp: FindGroup_def find_None_iff)

lemma FindGroup_mem: "distinct (map gid s) \<Longrightarrow> g \<in> set s \<Longrightarrow> FindGroup s (gid g) = Some g"
proof (induction s)
  case (Cons a s)
  then show ?case by (cases "a = g") (auto simp: FindGroup_def)
qed simp

lemma state_of_mem: "distinct (map gid s) \<Longrightarrow> g \<in> set s \<Longrightarrow> state_of s (gid g) = Some (collapsed g)"
  by (simp add: state_of_def FindGroup_mem)

lemma state_of_Some: "state_of s i = Some c \<Longrightarrow> \<exists>g \<in> set s. gid g = i \<and> collapsed g = c"
  using FindGroup_Some by (fastforce simp: state_of_def)

lemma plan_scan_ids:
  "plan_scan t gs acc act = (acc @ map gid (filter (\<lambda>g. collapsed g \<noteq> t \<and> \<not> (t \<and> contains_active_tab g)) gs),
     if t then (case rev (filter (\<lambda>g. \<not> collapsed g \<and> contains_active_tab g) gs) of [] \<Rightarrow> act | g # _ \<Rightarrow> Some (gid g))
     else act)"
  by (induction t gs acc act rule: plan_scan.induct) (auto split: list.splits)

lemma PlanDoubleClickAll_target:
  "target_collapsed (PlanDoubleClickAll gs c pre) =
     (\<forall>g \<in> set gs. \<not> (if gid g = c then pre else collapsed g))"
  by (auto simp: PlanDoubleClickAll_def Let_def list_ex_iff split: prod.split)

lemma at_most_one_Cons: "length (filter P xs) \<le> 1 \<Longrightarrow> filter P xs = y # ys \<Longrightarrow> ys = []"
  by (cases ys) auto

lemma to_toggle_exact:
  assumes "snapshot_ok gs" and p: "p = PlanDoubleClickAll gs c pre"
  shows "set (to_toggle p) = {gid g |g. g \<in> set gs \<and> collapsed g \<noteq> target_collapsed p}"
    and "distinct (to_toggle p)"
proof -
  define t where "t = target_collapsed p"
  define A where "A = filter (\<lambda>g. collapsed g \<noteq> t \<and> \<not> (t \<and> contains_active_tab g)) gs"
  define B where "B = filter (\<lambda>g. \<not> collapsed g \<and> contains_active_tab g) gs"
  have one: "length B \<le> 1"
  proof -
    have "B = filter (\<lambda>g. \<not> collapsed g) (filter contains_active_tab gs)"
      by (auto simp: B_def intro: filter_cong)
    moreover have "length (filter contains_active_tab gs) \<le> 1" using assms(1) by (simp add: snapshot_ok_def)
    ultimately show ?thesis by (metis le_trans length_filter_le)
  qed
  have tt: "to_toggle p = map gid A @ (if t then map gid B else [])"
  proof -
    have "\<not> list_ex (\<lambda>g. if gid g = c then pre else collapsed g) gs = t"
      unfolding t_def p PlanDoubleClickAll_target by (simp add: list_ex_iff)
    then have "to_toggle p = map gid A @ (if t then (case rev B of [] \<Rightarrow> [] | g # _ \<Rightarrow> [gid g]) else [])"
      by (simp add: p PlanDoubleClickAll_def plan_scan_ids A_def B_def Let_def split: list.split)
    moreover have "(case rev B of [] \<Rightarrow> [] | g # _ \<Rightarrow> [gid g]) = map gid B"
      using one by (cases B; cases "tl B") auto
    ultimately show ?thesis by simp
  qed
  show "set (to_toggle p) = {gid g |g. g \<in> set gs \<and> collapsed g \<noteq> target_collapsed p}"
    unfolding tt t_def [symmetric] by (auto simp: A_def B_def)
  have d: "distinct (map gid gs)" using assms(1) by (simp add: snapshot_ok_def)
  have "distinct (map gid A)" "distinct (map gid B)" unfolding A_def B_def by (simp_all add: d distinct_map_filter)
  moreover have "set (map gid A) \<inter> set (map gid B) = {}" if t
    using that d by (auto simp: A_def B_def distinct_map inj_on_def)
  ultimately show "distinct (to_toggle p)" unfolding tt by simp
qed

text \<open>
  The strip's contract as the pass relies on it: a toggle that reports success flips its own group
  and changes the state of no other; groups may go away meanwhile, none comes.
\<close>

definition toggle_flips :: "('w \<Rightarrow> Snapshot option) \<Rightarrow> 'w toggle \<Rightarrow> bool" where
  "toggle_flips snap toggle \<longleftrightarrow>
     (\<forall>i r w s c r' w' s'. snap w = Some s \<longrightarrow> state_of s i = Some c \<longrightarrow> toggle i (r, w) = (True, r', w') \<longrightarrow>
        snap w' = Some s' \<longrightarrow>
        (state_of s' i = None \<or> state_of s' i = Some (\<not> c)) \<and>
        (\<forall>j. j \<noteq> i \<longrightarrow> state_of s' j = None \<or> state_of s' j = state_of s j))"

lemma toggle_flipsD:
  assumes "toggle_flips snap toggle" "snap w = Some s" "state_of s i = Some c" "toggle i (r, w) = (True, r', w')"
    and "snap w' = Some s'"
  shows "state_of s' i = None \<or> state_of s' i = Some (\<not> c)"
    and "j \<noteq> i \<Longrightarrow> state_of s' j = None \<or> state_of s' j = state_of s j"
  using assms unfolding toggle_flips_def by blast+

lemma pass_loop_done:
  assumes flips: "toggle_flips snap toggle"
  shows "snap w = Some s \<Longrightarrow>
    \<forall>j c. state_of s j = Some c \<longrightarrow> j \<notin> set ids \<longrightarrow> c = t \<Longrightarrow>
    pass_loop t snap toggle ids (r, w) = (kCompleted, r', w') \<Longrightarrow> snap w' = Some s' \<Longrightarrow>
    state_of s' j = Some c \<Longrightarrow> c = t"
proof (induction ids arbitrary: r w s)
  case Nil
  then show ?case by auto
next
  case (Cons i ids)
  have rest: "\<forall>j c. state_of s j = Some c \<longrightarrow> j \<notin> set ids \<longrightarrow> j \<noteq> i \<longrightarrow> c = t"
    using Cons.prems(2) by simp
  show ?case
  proof (cases "state_of s i = None \<or> state_of s i = Some t")
    case True
    then have "pass_loop t snap toggle ids (r, w) = (kCompleted, r', w')"
      using Cons.prems(1,3) by (auto simp: state_of_def)
    moreover have "\<forall>j c. state_of s j = Some c \<longrightarrow> j \<notin> set ids \<longrightarrow> c = t"
      using rest True by (metis option.distinct(1) option.inject)
    ultimately show ?thesis using Cons.IH Cons.prems by blast
  next
    case False
    then obtain g where g: "FindGroup s i = Some g" "collapsed g = (\<not> t)" by (auto simp: state_of_def)
    obtain ok r1 w1 where tog: "toggle i (r, w) = (ok, r1, w1)" by (cases "toggle i (r, w)") auto
    then have ok: ok and run: "pass_loop t snap toggle ids (r1, w1) = (kCompleted, r', w')"
      using Cons.prems(1,3) g by (auto split: if_splits)
    have s1: "\<exists>s1. snap w1 = Some s1"
      using run Cons.prems(4) by (cases ids) (auto split: option.splits)
    then obtain s1 where s1: "snap w1 = Some s1" by blast
    have gi: "state_of s i = Some (\<not> t)" using g by (simp add: state_of_def)
    have "\<forall>j c. state_of s1 j = Some c \<longrightarrow> j \<notin> set ids \<longrightarrow> c = t"
      using toggle_flipsD [OF flips Cons.prems(1) gi tog [simplified ok] s1] rest
      by (metis option.distinct(1) option.inject)
    then show ?thesis using Cons.IH [OF s1 _ run Cons.prems(4,5)] by blast
  qed
qed

lemma pass_loop_completes:
  assumes "\<And>i st. fst (toggle i st)" and "\<And>w. snap w \<noteq> None"
  shows "fst (pass_loop t snap toggle ids st) = kCompleted"
proof (induction ids arbitrary: st)
  case (Cons i ids)
  obtain s where s: "snap (snd st) = Some s" using assms(2) by blast
  obtain ok st' where tog: "toggle i st = (ok, st')" by (cases "toggle i st")
  then have ok using assms(1) [of i st] by simp
  then show ?case using Cons.IH tog s by (auto split: option.split)
qed simp

text \<open>
  C33: a completed bulk pass leaves every group of the window in one state. When no pass is running
  and toggles do what the strip promises, a pass that completes leaves each group collapsed exactly
  if all groups were expanded before the gesture; it completes whenever the strip stays alive; it
  clears the running flag however it ends; and a pass begun inside a pass does nothing.
\<close>

theorem bulk_pass_reaches_target:
  assumes "toggle_flips snap toggle" and "snap w = Some s" and "snapshot_ok s"
    and run: "RunDoubleClickAll clicked pre snap toggle (False, w) = (res, f, w')"
    and target: "target = (\<forall>g \<in> set s. \<not> (if gid g = clicked then pre else collapsed g))"
  shows "(res = kCompleted \<longrightarrow> (\<forall>s'. snap w' = Some s' \<longrightarrow> (\<forall>j c. state_of s' j = Some c \<longrightarrow> c = target))) \<and>
    ((\<forall>i st. fst (toggle i st)) \<and> (\<forall>x. snap x \<noteq> None) \<longrightarrow> res = kCompleted) \<and>
    \<not> f \<and> RunDoubleClickAll clicked pre snap toggle (True, w) = (kIgnoredNested, True, w)"
proof -
  define p where "p = PlanDoubleClickAll s clicked pre"
  have t: "target_collapsed p = target" by (simp add: p_def PlanDoubleClickAll_target target)
  obtain f' where loop: "pass_loop target snap toggle (to_toggle p) (True, w) = (res, f', w')" and "\<not> f"
    using run assms(2) t by (auto simp: RunDoubleClickAll_def Let_def p_def split: prod.splits)
  have "\<forall>j c. state_of s j = Some c \<longrightarrow> j \<notin> set (to_toggle p) \<longrightarrow> c = target"
    using state_of_Some to_toggle_exact(1) [OF assms(3) p_def] unfolding t by fastforce
  then have "snap w' = Some s' \<Longrightarrow> res = kCompleted \<Longrightarrow> state_of s' j = Some c \<Longrightarrow> c = target" for s' j c
    using pass_loop_done [OF assms(1,2) _ loop [THEN trans]] by blast
  moreover have "(\<forall>i st. fst (toggle i st)) \<and> (\<forall>x. snap x \<noteq> None) \<longrightarrow> res = kCompleted"
    using pass_loop_completes [of toggle snap target "to_toggle p" "(True, w)"] loop by auto
  ultimately show ?thesis using \<open>\<not> f\<close> by (simp add: RunDoubleClickAll_def)
qed

text \<open>A strip of two groups and the controller's toggle, for the witnesses.\<close>

definition flip_group :: "strip_model toggle" where
  "flip_group i st = (True, fst st, (snd st)\<lparr>group_collapsed :=
     (group_collapsed (snd st))(i := map_option Not (group_collapsed (snd st) i))\<rparr>)"

definition two_groups :: "bool \<Rightarrow> bool \<Rightarrow> strip_model" where
  "two_groups a b = \<lparr>closing_all = False, active_tab_group = Some (Some 1), group_list = Some [1, 2],
     group_collapsed = [1 \<mapsto> a, 2 \<mapsto> b]\<rparr>"

lemma state_of_model:
  "SnapshotFromModel (Some m) = Some s \<Longrightarrow>
   state_of s j = (if j \<in> set (the (group_list m)) then group_collapsed m j else None)"
proof -
  assume a: "SnapshotFromModel (Some m) = Some s"
  then obtain ids where ids: "group_list m = Some ids" by (auto simp: SnapshotFromModel_def split: if_splits option.splits)
  define act where "act = (case active_tab_group m of None \<Rightarrow> None | Some g \<Rightarrow> g)"
  define f where "f = (\<lambda>i. case group_collapsed m i of None \<Rightarrow> None
     | Some c \<Rightarrow> Some \<lparr>gid = i, collapsed = c, contains_active_tab = (act = Some i)\<rparr>)"
  have s: "s = List.map_filter f ids"
    using a ids unfolding SnapshotFromModel_def f_def act_def by (simp add: Let_def split: if_splits)
  have f_gid: "f i = Some g \<Longrightarrow> gid g = i" "map_option collapsed (f i) = group_collapsed m i" for i g
    by (auto simp: f_def split: option.splits)
  have "state_of (List.map_filter f xs) j = (if j \<in> set xs then group_collapsed m j else None)" for xs
  proof (induction xs)
    case (Cons a xs)
    show ?case
    proof (cases "f a")
      case None
      then have "group_collapsed m a = None" using f_gid(2) [of a] by simp
      then show ?thesis using None Cons.IH by (auto simp: map_filter_simps)
    next
      case (Some g)
      then have "gid g = a" "group_collapsed m a = Some (collapsed g)"
        using f_gid(1) [OF Some] f_gid(2) [of a] by simp_all
      then show ?thesis using Some Cons.IH by (auto simp: map_filter_simps state_of_def FindGroup_def)
    qed
  qed (simp add: state_of_def FindGroup_def map_filter_simps)
  then show ?thesis using s ids by simp
qed

lemma flip_group_flips: "toggle_flips (\<lambda>m. SnapshotFromModel (Some m)) flip_group"
  unfolding toggle_flips_def flip_group_def by (auto simp: state_of_model split: if_splits)

lemma snapshot_two_groups:
  "SnapshotFromModel (Some (two_groups a b)) =
     Some [\<lparr>gid = 1, collapsed = a, contains_active_tab = True\<rparr>, \<lparr>gid = 2, collapsed = b, contains_active_tab = False\<rparr>]"
  by (simp add: SnapshotFromModel_def two_groups_def map_filter_simps)

lemma bulk_pass_reaches_target_witness:
  "let (res, f, m) = RunDoubleClickAll 1 False (\<lambda>m. SnapshotFromModel (Some m)) flip_group (False, two_groups True False)
   in (res = kCompleted \<longrightarrow> (\<forall>s'. SnapshotFromModel (Some m) = Some s' \<longrightarrow>
          (\<forall>j c. state_of s' j = Some c \<longrightarrow> c))) \<and> \<not> f"
proof -
  obtain res f m where r: "RunDoubleClickAll 1 False (\<lambda>m. SnapshotFromModel (Some m)) flip_group
      (False, two_groups True False) = (res, f, m)" by (metis prod_cases3)
  show ?thesis
    using bulk_pass_reaches_target [OF flip_group_flips snapshot_two_groups _ r, of True] unfolding r
    by (auto simp: snapshot_ok_def)
qed

subsection \<open>The gesture and its target\<close>

lemma EqualExcept_ids:
  assumes "EqualExceptClickedFlipped b n c" and "distinct (map gid b)" and "distinct (map gid n)"
  shows "gid ` set b = gid ` set n"
proof (rule card_subset_eq)
  show "gid ` set b \<subseteq> gid ` set n"
    using assms(1) FindGroup_None by (fastforce simp: EqualExceptClickedFlipped_def list_all_iff split: option.splits)
  have "length b = length n" using assms(1) by (simp add: EqualExceptClickedFlipped_def)
  then show "card (gid ` set b) = card (gid ` set n)"
    using assms(2,3) by (metis distinct_card length_map set_map)
qed simp

lemma EqualExcept_state:
  assumes "EqualExceptClickedFlipped b n c" and "distinct (map gid b)" and "g \<in> set b"
  shows "state_of n (gid g) = Some (if gid g = c then \<not> collapsed g else collapsed g)"
  using assms(1,3) by (auto simp: EqualExceptClickedFlipped_def list_all_iff state_of_def split: option.splits if_splits)

text \<open>
  The double click's target is the window as it was before the gesture. When a recorded click is
  followed by a latching press and a double-click release that asks for the bulk pass, the press came
  within the allowed age of the recorded release, and the pass's target is "collapse" exactly if every
  group was expanded before the first click, although that click has already toggled its own group;
  the gesture is consumed, so the next release is an ordinary one.
\<close>

theorem double_click_target:
  assumes "distinct (map gid before)" and "distinct (map gid now)"
    and g1: "g1 = OnLeftPress flag press max_age mid (RecordSingleToggle clicked (Some before) release)"
    and consume: "ConsumeOnDoubleClickRelease clicked' (Some now) g1 = (Some pre, g2)"
  shows "target_collapsed (PlanDoubleClickAll now clicked' pre) = (\<forall>b \<in> set before. \<not> collapsed b) \<and>
    clicked' = clicked \<and> flag \<and> press - release \<le> max_age \<and>
    state_of before clicked = Some pre \<and> state_of now clicked = Some (\<not> pre) \<and>
    fst (ConsumeOnDoubleClickRelease clicked' (Some now) g2) = None"
proof -
  have lat: "phase g1 = kLatched" "clicked_group g1 = Some clicked'" "EqualExceptClickedFlipped (before_toggle g1) now clicked'"
    "clicked_pre_collapsed g1 = pre" "g2 = gesture_Reset"
    using consume by (auto simp: ConsumeOnDoubleClickRelease_def Let_def split: if_splits)
  define g0 where "g0 = RecordSingleToggle clicked (Some before) release"
  have press: "phase g0 = kRecorded" "flag" "press - release_time g0 \<le> max_age" "g1 = g0\<lparr>phase := kLatched\<rparr>"
    using lat(1) unfolding g1 g0_def [symmetric] OnLeftPress_def by (auto simp: gesture_Reset_def split: if_splits)
  then obtain gr where gr: "FindGroup before clicked = Some gr"
    and g0': "g0 = \<lparr>phase = kRecorded, clicked_group = Some clicked, clicked_pre_collapsed = collapsed gr,
                before_toggle = before, release_time = release\<rparr>"
    unfolding g0_def RecordSingleToggle_def by (auto simp: gesture_Reset_def split: option.splits)
  have c: "clicked' = clicked" "pre = collapsed gr" and eq: "EqualExceptClickedFlipped before now clicked"
    using lat press(4) g0' by auto
  have gr': "gr \<in> set before" "gid gr = clicked" using FindGroup_Some [OF gr] by auto
  have st: "state_of now (gid b) = Some (if gid b = clicked then \<not> collapsed b else collapsed b)"
    if "b \<in> set before" for b
    using EqualExcept_state [OF eq assms(1) that] .
  have "(\<forall>n \<in> set now. \<not> (if gid n = clicked then pre else collapsed n)) = (\<forall>b \<in> set before. \<not> collapsed b)"
  proof
    assume n: "\<forall>n \<in> set now. \<not> (if gid n = clicked then pre else collapsed n)"
    have "\<not> collapsed b" if b: "b \<in> set before" for b
    proof (cases "gid b = clicked")
      case True
      then have "b = gr" using b gr' assms(1) by (auto simp: distinct_map inj_on_def)
      moreover have "\<exists>n \<in> set now. gid n = clicked"
        using EqualExcept_ids [OF eq assms(1,2)] b True by (metis image_eqI imageE)
      ultimately show ?thesis using n c(2) by auto
    next
      case False
      then show ?thesis using st [OF b] state_of_Some n by fastforce
    qed
    then show "\<forall>b \<in> set before. \<not> collapsed b" by blast
  next
    assume b: "\<forall>b \<in> set before. \<not> collapsed b"
    show "\<forall>n \<in> set now. \<not> (if gid n = clicked then pre else collapsed n)"
    proof
      fix n assume n: "n \<in> set now"
      then obtain x where x: "x \<in> set before" "gid x = gid n"
        using EqualExcept_ids [OF eq assms(1,2)] by (metis image_eqI imageE)
      then show "\<not> (if gid n = clicked then pre else collapsed n)"
        using st [OF x(1)] state_of_mem [OF assms(2) n] b gr' c(2) by auto
    qed
  qed
  then have "target_collapsed (PlanDoubleClickAll now clicked' pre) = (\<forall>b \<in> set before. \<not> collapsed b)"
    by (simp only: PlanDoubleClickAll_target c(1))
  then show ?thesis
    using c press g0' lat(5) st [OF gr'(1)] gr gr'(2)
    by (simp add: state_of_def ConsumeOnDoubleClickRelease_def gesture_Reset_def Let_def)
qed

lemma double_click_target_witness:
  "let b = [\<lparr>gid = 1, collapsed = False, contains_active_tab = True\<rparr>, \<lparr>gid = 2, collapsed = False, contains_active_tab = False\<rparr>];
       n = [\<lparr>gid = 1, collapsed = True, contains_active_tab = False\<rparr>, \<lparr>gid = 2, collapsed = False, contains_active_tab = True\<rparr>];
       g1 = OnLeftPress True 30 500 (Some n) (RecordSingleToggle 1 (Some b) 10)
   in fst (ConsumeOnDoubleClickRelease 1 (Some n) g1) = Some False \<and> target_collapsed (PlanDoubleClickAll n 1 False)"
proof -
  define b where "b = [\<lparr>gid = 1, collapsed = False, contains_active_tab = True\<rparr>, \<lparr>gid = 2, collapsed = False, contains_active_tab = False\<rparr>]"
  define n where "n = [\<lparr>gid = 1, collapsed = True, contains_active_tab = False\<rparr>, \<lparr>gid = 2, collapsed = False, contains_active_tab = True\<rparr>]"
  define g1 where "g1 = OnLeftPress True 30 500 (Some n) (RecordSingleToggle 1 (Some b) 10)"
  have c: "ConsumeOnDoubleClickRelease 1 (Some n) g1 = (Some False, gesture_Reset)"
    by (simp add: g1_def b_def n_def ConsumeOnDoubleClickRelease_def OnLeftPress_def RecordSingleToggle_def
        FindGroup_def EqualExceptClickedFlipped_def)
  have "distinct (map gid b)" "distinct (map gid n)" "\<forall>x \<in> set b. \<not> collapsed x" by (simp_all add: b_def n_def)
  then have "target_collapsed (PlanDoubleClickAll n 1 False)"
    using double_click_target [OF _ _ g1_def c] by blast
  then show ?thesis using c unfolding b_def [symmetric] n_def [symmetric] g1_def [symmetric] Let_def by simp
qed

end
