(* ===== verification/Placement.thy ===== *)
theory Placement
  imports Prelude
begin

text \<open>
  Where the tab strip is and where a new tab goes: \<open>roamux/common/tab_strip_placement.cc\<close>,
  \<open>new_tab_position.cc\<close>, \<open>roamux_prefs.cc\<close>, \<open>roamux/browser/tabs/new_tab_placement.cc\<close> and the submenu
  \<open>roamux/browser/ui/tabs/tab_strip_position_menu.cc\<close>.

  A \<open>PrefService\<close> holds the registered integer and boolean preferences by path. A preference has a
  user value, a policy's value and a default, and reads as the first of policy, user, default that is
  set (dictionaries are only registered
  here; theory Shortcuts has their contents). Reading or writing an unregistered path stops the process; a read that can do so is an option.
  A null service is None. Feature flags are booleans.
\<close>

record 'a preference =
  managed_value :: "'a option"
  user_value :: "'a option"
  default_value :: 'a

definition pref_value :: "'a preference \<Rightarrow> 'a" where
  "pref_value p = (case managed_value p of Some v \<Rightarrow> v
     | None \<Rightarrow> (case user_value p of Some v \<Rightarrow> v | None \<Rightarrow> default_value p))"

definition IsManaged :: "'a preference \<Rightarrow> bool" where "IsManaged p \<longleftrightarrow> managed_value p \<noteq> None"

record pref_service =
  int_prefs :: "string \<Rightarrow> int preference option"
  bool_prefs :: "string \<Rightarrow> bool preference option"
  string_prefs :: "string \<Rightarrow> string preference option"
  dict_prefs :: "string set"

definition kTabStripPosition :: string where "kTabStripPosition = ''roamux.tabs.strip_position''"
definition kNewTabPosition :: string where "kNewTabPosition = ''roamux.tabs.new_tab_position''"
definition kReopenClosed :: string where "kReopenClosed = ''roamux.tabs.visit_nav.reopen_closed''"
definition kSigninOptionalEntryPoint :: string where
  "kSigninOptionalEntryPoint = ''roamux.signin.optional_entry_point_enabled''"
definition kUpstreamVerticalTabsEnabled :: string where
  "kUpstreamVerticalTabsEnabled = ''vertical_tabs.enabled''"
definition kShortcutBindings :: string where "kShortcutBindings = ''roamux.shortcuts''"
definition kExternalOpenMode :: string where "kExternalOpenMode = ''roamux.profiles.external_open_mode''"
definition kExternalOpenProfile :: string where "kExternalOpenProfile = ''roamux.profiles.external_open_profile''"

definition new_pref :: "'a \<Rightarrow> 'a preference" where
  "new_pref d = \<lparr>managed_value = None, user_value = None, default_value = d\<rparr>"

definition set_int :: "string \<Rightarrow> int \<Rightarrow> pref_service \<Rightarrow> pref_service" where
  "set_int k v p = p\<lparr>int_prefs := (int_prefs p)(k := map_option (user_value_update (\<lambda>_. Some v)) (int_prefs p k))\<rparr>"

definition set_bool :: "string \<Rightarrow> bool \<Rightarrow> pref_service \<Rightarrow> pref_service" where
  "set_bool k v p = p\<lparr>bool_prefs := (bool_prefs p)(k := map_option (user_value_update (\<lambda>_. Some v)) (bool_prefs p k))\<rparr>"

definition RegisterProfilePrefs :: "pref_service \<Rightarrow> pref_service" where
  "RegisterProfilePrefs p =
     p\<lparr>int_prefs := (int_prefs p)(kTabStripPosition \<mapsto> new_pref 0, kNewTabPosition \<mapsto> new_pref 1),
       bool_prefs := (bool_prefs p)(kReopenClosed \<mapsto> new_pref False, kSigninOptionalEntryPoint \<mapsto> new_pref False),
       dict_prefs := insert kShortcutBindings (dict_prefs p)\<rparr>"

definition RegisterLocalStatePrefs :: "pref_service \<Rightarrow> pref_service" where
  "RegisterLocalStatePrefs p =
     p\<lparr>int_prefs := (int_prefs p)(kExternalOpenMode \<mapsto> new_pref 0),
       string_prefs := (string_prefs p)(kExternalOpenProfile \<mapsto> new_pref [])\<rparr>"

datatype TabStripPlacement = kTop | kBottom | kLeft | kRight

fun placement_int :: "TabStripPlacement \<Rightarrow> int" where
  "placement_int kTop = 0" | "placement_int kBottom = 1" | "placement_int kLeft = 2" | "placement_int kRight = 3"

definition placement_of_int :: "int \<Rightarrow> TabStripPlacement" where
  "placement_of_int i = (if i = 1 then kBottom else if i = 2 then kLeft else if i = 3 then kRight else kTop)"

definition GetTabStripPlacement :: "bool \<Rightarrow> pref_service option \<Rightarrow> TabStripPlacement" where
  "GetTabStripPlacement feature ps =
     (case ps of
        None \<Rightarrow> kTop
      | Some p \<Rightarrow>
          if \<not> feature then kTop
          else (case int_prefs p kTabStripPosition of
                  None \<Rightarrow> kTop
                | Some pref \<Rightarrow>
                    let stored = pref_value pref
                    in if stored < placement_int kTop \<or> stored > placement_int kRight then kTop
                       else placement_of_int stored))"

text \<open>The argument is the enumerator's integer: the menu casts an arbitrary one to the enumeration.\<close>

definition SetTabStripPlacement :: "int \<Rightarrow> pref_service \<Rightarrow> pref_service" where
  "SetTabStripPlacement placement p =
     (if int_prefs p kTabStripPosition = None then p else set_int kTabStripPosition placement p)"

definition ShouldDisplayVerticalTabsForPlacement :: "bool \<Rightarrow> pref_service option \<Rightarrow> bool" where
  "ShouldDisplayVerticalTabsForPlacement feature ps =
     (let placement = GetTabStripPlacement feature ps in placement = kLeft \<or> placement = kRight)"

definition IsVerticalTabStripEffectivelyEnabled :: "bool \<Rightarrow> pref_service option \<Rightarrow> bool option" where
  "IsVerticalTabStripEffectivelyEnabled feature ps =
     (case ps of
        None \<Rightarrow> Some False
      | Some p \<Rightarrow>
          if feature then Some (ShouldDisplayVerticalTabsForPlacement feature ps)
          else map_option pref_value (bool_prefs p kUpstreamVerticalTabsEnabled))"

definition ShouldDockVerticalTabStripRight :: "bool \<Rightarrow> pref_service option \<Rightarrow> bool" where
  "ShouldDockVerticalTabStripRight feature ps \<longleftrightarrow> GetTabStripPlacement feature ps = kRight"

definition ShouldDockVerticalTabStripLeft :: "bool \<Rightarrow> pref_service option \<Rightarrow> bool" where
  "ShouldDockVerticalTabStripLeft feature ps \<longleftrightarrow> GetTabStripPlacement feature ps = kLeft"

definition IsVerticalTabStripOnLogicalTrailingEdge :: "bool \<Rightarrow> pref_service option \<Rightarrow> bool \<Rightarrow> bool" where
  "IsVerticalTabStripOnLogicalTrailingEdge feature ps is_rtl =
     (let physical_right = ShouldDockVerticalTabStripRight feature ps;
          physical_left = ShouldDockVerticalTabStripLeft feature ps
      in if \<not> physical_right \<and> \<not> physical_left then False else physical_right \<noteq> is_rtl)"

record rect =
  rect_x :: int
  rect_y :: int
  rect_width :: int
  rect_height :: int

definition rect_bottom :: "rect \<Rightarrow> int" where "rect_bottom r = rect_y r + rect_height r"

definition ComputeBottomStripLayout :: "rect \<Rightarrow> int \<Rightarrow> rect \<times> rect" where
  "ComputeBottomStripLayout client_area strip_height =
     (let height = max 0 (min strip_height (rect_height client_area))
      in (\<lparr>rect_x = rect_x client_area, rect_y = rect_bottom client_area - height,
            rect_width = rect_width client_area, rect_height = height\<rparr>,
          \<lparr>rect_x = rect_x client_area, rect_y = rect_y client_area,
            rect_width = rect_width client_area, rect_height = rect_height client_area - height\<rparr>))"

definition MigrateProfilePrefs :: "bool \<Rightarrow> pref_service option \<Rightarrow> pref_service option" where
  "MigrateProfilePrefs feature ps =
     (case ps of
        None \<Rightarrow> None
      | Some p \<Rightarrow>
          if \<not> feature then ps
          else (case bool_prefs p kUpstreamVerticalTabsEnabled of
                  None \<Rightarrow> ps
                | Some upstream \<Rightarrow>
                    if IsManaged upstream \<or>
                       (case int_prefs p kTabStripPosition of None \<Rightarrow> False | Some pl \<Rightarrow> IsManaged pl) \<or>
                       \<not> pref_value upstream then ps
                    else let placement = GetTabStripPlacement feature ps;
                             p1 = (if placement \<noteq> kLeft \<and> placement \<noteq> kRight
                                   then SetTabStripPlacement (placement_int kLeft) p else p)
                         in Some (set_bool kUpstreamVerticalTabsEnabled False p1)))"

subsection \<open>The new tab's place\<close>

datatype NewTabPosition = kEndOfStrip | kEndOfActiveGroup | kAfterActiveTab

fun position_int :: "NewTabPosition \<Rightarrow> int" where
  "position_int kEndOfStrip = 0" | "position_int kEndOfActiveGroup = 1" | "position_int kAfterActiveTab = 2"

definition GetNewTabPosition :: "pref_service option \<Rightarrow> NewTabPosition" where
  "GetNewTabPosition ps =
     (case ps of
        None \<Rightarrow> kEndOfActiveGroup
      | Some p \<Rightarrow>
          (case int_prefs p kNewTabPosition of
             None \<Rightarrow> kEndOfActiveGroup
           | Some pref \<Rightarrow>
               let stored = pref_value pref
               in if stored < position_int kEndOfStrip \<or> stored > position_int kAfterActiveTab then kEndOfActiveGroup
                  else if stored = 0 then kEndOfStrip else if stored = 1 then kEndOfActiveGroup else kAfterActiveTab))"

definition SetNewTabPosition :: "NewTabPosition \<Rightarrow> pref_service \<Rightarrow> pref_service" where
  "SetNewTabPosition position p =
     (if int_prefs p kNewTabPosition = None then p else set_int kNewTabPosition (position_int position) p)"

record NewTabPlacement =
  nt_index :: int
  nt_group :: "nat option"

definition ComputeNewTabPlacement ::
  "NewTabPosition \<Rightarrow> int \<Rightarrow> int \<Rightarrow> nat option \<Rightarrow> bool \<Rightarrow> NewTabPlacement" where
  "ComputeNewTabPlacement mode tab_count active_index active_group upstream_adds_to_group =
     (let append = \<lparr>nt_index = -1, nt_group = None\<rparr>
      in if active_index < 0 \<or> active_index \<ge> tab_count then append
         else (case mode of
                 kEndOfStrip \<Rightarrow> append
               | kEndOfActiveGroup \<Rightarrow>
                   if upstream_adds_to_group then append\<lparr>nt_group := active_group\<rparr> else append
               | kAfterActiveTab \<Rightarrow> \<lparr>nt_index = active_index + 1, nt_group = active_group\<rparr>))"

subsection \<open>The submenu\<close>

definition kTabStripPositionSubMenuCommandId :: int where "kTabStripPositionSubMenuCommandId = 2101"
definition kTabStripPositionFirstItemCommandId :: int where "kTabStripPositionFirstItemCommandId = 2102"

definition IsTabStripPositionCommandId :: "int \<Rightarrow> bool" where
  "IsTabStripPositionCommandId c \<longleftrightarrow>
     c \<ge> kTabStripPositionSubMenuCommandId \<and> c \<le> kTabStripPositionFirstItemCommandId + 3"

definition TabStripPositionMenuModel :: "(int \<times> string) list" where
  "TabStripPositionMenuModel =
     map (\<lambda>(i, l). (kTabStripPositionFirstItemCommandId + int i, l))
       (List.enumerate 0 [''Top'', ''Bottom'', ''Left'', ''Right''])"

definition position_IsCommandIdChecked :: "bool \<Rightarrow> pref_service option \<Rightarrow> int \<Rightarrow> bool" where
  "position_IsCommandIdChecked feature ps c \<longleftrightarrow>
     placement_int (GetTabStripPlacement feature ps) = c - kTabStripPositionFirstItemCommandId"

definition position_ExecuteCommand :: "int \<Rightarrow> pref_service \<Rightarrow> pref_service" where
  "position_ExecuteCommand c p = SetTabStripPlacement (c - kTabStripPositionFirstItemCommandId) p"

definition MaybeAppendTabStripPositionSubMenu :: "bool \<Rightarrow> bool \<Rightarrow> pref_service option \<Rightarrow> (int \<times> string) list option" where
  "MaybeAppendTabStripPositionSubMenu feature parent ps =
     (if \<not> parent \<or> ps = None \<or> \<not> feature then None else Some TabStripPositionMenuModel)"

subsection \<open>The migration, the menu and the layout\<close>

definition unmanaged :: "pref_service \<Rightarrow> bool" where
  "unmanaged p \<longleftrightarrow> (\<exists>pl up. int_prefs p kTabStripPosition = Some pl \<and> managed_value pl = None \<and>
     bool_prefs p kUpstreamVerticalTabsEnabled = Some up \<and> managed_value up = None)"

lemma placement_of_int_inverse [simp]: "placement_of_int (placement_int x) = x"
  by (cases x) (auto simp: placement_of_int_def)

lemma Get_Set_placement:
  assumes "int_prefs p kTabStripPosition = Some pl" and "managed_value pl = None"
  shows "GetTabStripPlacement True (Some (SetTabStripPlacement (placement_int x) p)) = x"
  using assms by (cases x) (auto simp: GetTabStripPlacement_def SetTabStripPlacement_def set_int_def pref_value_def placement_of_int_def)

lemma Get_set_bool [simp]:
  "GetTabStripPlacement f (Some (set_bool k v p)) = GetTabStripPlacement f (Some p)"
  by (simp add: GetTabStripPlacement_def set_bool_def)

lemma bool_prefs_SetTab [simp]: "bool_prefs (SetTabStripPlacement i p) = bool_prefs p"
  by (simp add: SetTabStripPlacement_def set_int_def)

lemma effective_set_bool:
  assumes "bool_prefs p kUpstreamVerticalTabsEnabled = Some up" and "managed_value up = None"
  shows "IsVerticalTabStripEffectivelyEnabled False (Some (set_bool kUpstreamVerticalTabsEnabled v p)) = Some v"
  using assms by (simp add: IsVerticalTabStripEffectivelyEnabled_def set_bool_def pref_value_def)

lemma migrate_total: "\<exists>q. MigrateProfilePrefs f (Some p) = Some q"
  by (cases "bool_prefs p kUpstreamVerticalTabsEnabled") (auto simp: MigrateProfilePrefs_def Let_def)

text \<open>
  C34: the migration keeps what the user sees and leaves one authority. With neither preference under
  policy, a profile whose strip was vertical by the upstream preference stays vertical by the
  placement, at the side it already had or else on the left, and the upstream preference then reads
  false; a horizontal one is untouched; a second migration changes nothing; and with either
  preference under policy nothing changes at all.
\<close>

theorem migration_keeps_the_strip:
  assumes "unmanaged p" and "MigrateProfilePrefs True (Some p) = Some p'"
  shows "(if IsVerticalTabStripEffectivelyEnabled False (Some p) = Some True
      then IsVerticalTabStripEffectivelyEnabled True (Some p') = Some True \<and>
           IsVerticalTabStripEffectivelyEnabled False (Some p') = Some False \<and>
           GetTabStripPlacement True (Some p') =
             (if ShouldDisplayVerticalTabsForPlacement True (Some p) then GetTabStripPlacement True (Some p) else kLeft)
      else p' = p) \<and>
    MigrateProfilePrefs True (Some p') = Some p' \<and>
    (\<forall>q. (case int_prefs q kTabStripPosition of None \<Rightarrow> False | Some pl \<Rightarrow> IsManaged pl) \<or>
         (case bool_prefs q kUpstreamVerticalTabsEnabled of None \<Rightarrow> True | Some up \<Rightarrow> IsManaged up) \<longrightarrow>
         MigrateProfilePrefs True (Some q) = Some q)"
proof -
  obtain pl up where pl: "int_prefs p kTabStripPosition = Some pl" "managed_value pl = None"
    and up: "bool_prefs p kUpstreamVerticalTabsEnabled = Some up" "managed_value up = None"
    using assms(1) unfolding unmanaged_def by blast
  have managed: "MigrateProfilePrefs True (Some q) = Some q"
    if "(case int_prefs q kTabStripPosition of None \<Rightarrow> False | Some pl \<Rightarrow> IsManaged pl) \<or>
        (case bool_prefs q kUpstreamVerticalTabsEnabled of None \<Rightarrow> True | Some up \<Rightarrow> IsManaged up)" for q
    using that by (auto simp: MigrateProfilePrefs_def split: option.splits)
  show ?thesis
  proof (cases "pref_value up")
    case False
    then have "p' = p" using assms(2) up by (simp add: MigrateProfilePrefs_def)
    then show ?thesis using False managed assms(2) up by (simp add: IsVerticalTabStripEffectivelyEnabled_def)
  next
    case True
    define p1 where "p1 = (if ShouldDisplayVerticalTabsForPlacement True (Some p) then p
        else SetTabStripPlacement (placement_int kLeft) p)"
    have p': "p' = set_bool kUpstreamVerticalTabsEnabled False p1"
      using assms(2) True up pl
      by (auto simp: MigrateProfilePrefs_def IsManaged_def p1_def ShouldDisplayVerticalTabsForPlacement_def Let_def
          simp del: placement_int.simps)
    have up1: "bool_prefs p1 kUpstreamVerticalTabsEnabled = Some up" using up by (simp add: p1_def)
    have g: "GetTabStripPlacement True (Some p') =
        (if ShouldDisplayVerticalTabsForPlacement True (Some p) then GetTabStripPlacement True (Some p) else kLeft)"
      unfolding p' using Get_Set_placement [OF pl] by (simp add: p1_def del: placement_int.simps)
    then have "ShouldDisplayVerticalTabsForPlacement True (Some p')"
      by (auto simp: ShouldDisplayVerticalTabsForPlacement_def Let_def)
    moreover have off: "IsVerticalTabStripEffectivelyEnabled False (Some p') = Some False"
      unfolding p' by (rule effective_set_bool [OF up1 up(2)])
    moreover have "MigrateProfilePrefs True (Some p') = Some p'"
      using off by (auto simp: MigrateProfilePrefs_def IsVerticalTabStripEffectivelyEnabled_def split: option.splits)
    ultimately show ?thesis
      using g managed True up by (simp add: IsVerticalTabStripEffectivelyEnabled_def)
  qed
qed

definition fresh_profile :: pref_service where
  "fresh_profile = RegisterProfilePrefs \<lparr>int_prefs = Map.empty,
     bool_prefs = [kUpstreamVerticalTabsEnabled \<mapsto> \<lparr>managed_value = None, user_value = Some True, default_value = False\<rparr>],
     string_prefs = Map.empty, dict_prefs = {}\<rparr>"

lemma fresh_profile_unmanaged: "unmanaged fresh_profile"
  by (simp add: unmanaged_def fresh_profile_def RegisterProfilePrefs_def new_pref_def kTabStripPosition_def
      kNewTabPosition_def kReopenClosed_def kSigninOptionalEntryPoint_def kUpstreamVerticalTabsEnabled_def)

lemma migration_keeps_the_strip_witness:
  "\<exists>p'. MigrateProfilePrefs True (Some fresh_profile) = Some p' \<and> MigrateProfilePrefs True (Some p') = Some p'"
proof -
  obtain p' where p': "MigrateProfilePrefs True (Some fresh_profile) = Some p'"
    using migrate_total [of True fresh_profile] by blast
  show ?thesis using migration_keeps_the_strip [OF fresh_profile_unmanaged p'] p' by blast
qed

text \<open>
  The submenu is a radio group. After choosing any of its four items exactly that item is checked,
  the strip is vertical exactly for the last two, and the guard of the parent menu covers the anchor
  and the items and nothing else.
\<close>

theorem position_menu_is_radio:
  assumes "unmanaged p" and "c \<in> fst ` set TabStripPositionMenuModel"
  shows "position_IsCommandIdChecked True (Some (position_ExecuteCommand c p)) c' = (c' = c) \<and>
    ShouldDisplayVerticalTabsForPlacement True (Some (position_ExecuteCommand c p)) = (c \<in> {2104, 2105}) \<and>
    {x. IsTabStripPositionCommandId x} = insert kTabStripPositionSubMenuCommandId (fst ` set TabStripPositionMenuModel)"
proof -
  obtain pl where pl: "int_prefs p kTabStripPosition = Some pl" "managed_value pl = None"
    using assms(1) unfolding unmanaged_def by blast
  have items: "fst ` set TabStripPositionMenuModel = {2102, 2103, 2104, 2105}"
    by (simp add: TabStripPositionMenuModel_def kTabStripPositionFirstItemCommandId_def)
  have "\<exists>x. placement_int x = c - 2102 \<and> (x \<in> {kLeft, kRight}) = (c \<in> {2104, 2105})"
    using assms(2) unfolding items
    by (auto intro: exI [of _ kTop] exI [of _ kBottom] exI [of _ kLeft] exI [of _ kRight])
  then obtain x where x: "placement_int x = c - 2102" "(x \<in> {kLeft, kRight}) = (c \<in> {2104, 2105})" by blast
  then have g: "GetTabStripPlacement True (Some (position_ExecuteCommand c p)) = x"
    using Get_Set_placement [OF pl, of x]
    by (simp add: position_ExecuteCommand_def kTabStripPositionFirstItemCommandId_def)
  have "position_IsCommandIdChecked True (Some (position_ExecuteCommand c p)) c' = (c' = c)"
    unfolding position_IsCommandIdChecked_def g x(1) by (auto simp: kTabStripPositionFirstItemCommandId_def)
  moreover have "ShouldDisplayVerticalTabsForPlacement True (Some (position_ExecuteCommand c p)) = (c \<in> {2104, 2105})"
    unfolding ShouldDisplayVerticalTabsForPlacement_def g using x(2) by simp
  moreover have "{y. IsTabStripPositionCommandId y} = {2101..2105}"
    by (auto simp: kTabStripPositionFirstItemCommandId_def kTabStripPositionSubMenuCommandId_def IsTabStripPositionCommandId_def)
  moreover have "{2101..2105} = {2101, 2102, 2103, 2104, 2105::int}" by (simp add: simp_from_to)
  ultimately show ?thesis unfolding items by (simp add: kTabStripPositionSubMenuCommandId_def)
qed

lemma position_menu_is_radio_witness:
  "position_IsCommandIdChecked True (Some (position_ExecuteCommand 2105 fresh_profile)) 2105"
  using position_menu_is_radio [OF fresh_profile_unmanaged, of 2105 2105]
  by (simp add: TabStripPositionMenuModel_def kTabStripPositionFirstItemCommandId_def)

definition inside :: "int \<times> int \<Rightarrow> rect \<Rightarrow> bool" where
  "inside pt r \<longleftrightarrow> rect_x r \<le> fst pt \<and> fst pt < rect_x r + rect_width r \<and> rect_y r \<le> snd pt \<and> snd pt < rect_bottom r"

lemma bottom_strip_tiles:
  assumes "0 \<le> rect_height area" and "ComputeBottomStripLayout area h = (strip, remaining)"
  shows "inside pt area = (inside pt strip \<noteq> inside pt remaining)"
    and "rect_height strip = max 0 (min h (rect_height area))" and "rect_bottom strip = rect_bottom area"
proof -
  define k where "k = max 0 (min h (rect_height area))"
  have k: "0 \<le> k" "k \<le> rect_height area" using assms(1) by (simp_all add: k_def)
  have s: "strip = \<lparr>rect_x = rect_x area, rect_y = rect_y area + rect_height area - k,
      rect_width = rect_width area, rect_height = k\<rparr>"
    and r: "remaining = \<lparr>rect_x = rect_x area, rect_y = rect_y area,
      rect_width = rect_width area, rect_height = rect_height area - k\<rparr>"
    using assms(2) by (simp_all add: ComputeBottomStripLayout_def rect_bottom_def Let_def k_def)
  show "inside pt area = (inside pt strip \<noteq> inside pt remaining)"
    unfolding inside_def rect_bottom_def s r using k by simp arith
  show "rect_height strip = max 0 (min h (rect_height area))" by (simp add: s k_def)
  show "rect_bottom strip = rect_bottom area" by (simp add: s rect_bottom_def)
qed

lemma new_tab_request_in_range:
  "r = ComputeNewTabPlacement m n a g u \<Longrightarrow>
   (nt_index r = -1 \<or> (0 < nt_index r \<and> nt_index r \<le> n)) \<and> (nt_group r = None \<or> nt_group r = g)"
  by (auto simp: ComputeNewTabPlacement_def Let_def split: NewTabPosition.splits)

end
