(* ===== verification/Pin_Controller.thy ===== *)
theory Pin_Controller
  imports Placement
begin

text \<open>
  The pin/peek toggle of the vertical tab strip: the core \<open>tab_strip_pin_controller.cc\<close>, its views glue
  \<open>tab_strip_pin_controller_views.cc\<close> and the command registry \<open>tab_strip_toggle_command.cc\<close>, all under
  \<open>roamux/browser/ui/views/tabs/\<close>.

  The core and the glue are one state: the core's three flags, the glue's locks and handlers, and the
  region view as the glue sees it. A lock's registration and its release report the region's keep-open
  count to the glue before anything else happens (patch 0054), so releasing a lock re-enters the core;
  the two operations are mutually recursive as in the code. Focus requests are recorded as effects:
  the moves they cause arrive later as events.
\<close>

datatype Mode = kPinPeek | kPlainToggle | kDisabled

datatype pin_effect = Focus_strip | Focus_contents | Request_collapse bool

record strip_world =
  region_view :: bool
  has_widget :: bool
  has_focus_manager :: bool
  mouse_hovered :: bool
  focus_in_region :: bool
  other_keep_locks :: nat
  hover_pref :: bool
  strip_prefs :: pref_service
  toggle_feature :: bool
  vertical_feature :: bool
  position_feature :: bool
  keep_expanded_lock :: bool
  force_collapse_lock :: bool
  total_keep_open_locks :: int
  pinned_handlers_installed :: bool
  fullscreen_observed :: bool
  pinned :: bool
  armed :: bool
  suppressing :: bool
  handler_set :: bool
  hooks_set :: bool
  strip_expanded :: "bool option"
  command_enabled :: bool
  pin_effects :: "pin_effect list"

subsection \<open>The glue's queries and handlers\<close>

definition ExternalKeepOpenLockCount :: "strip_world \<Rightarrow> int" where
  "ExternalKeepOpenLockCount w = total_keep_open_locks w - (if keep_expanded_lock w then 1 else 0)"

definition IsPointerInsideStrip :: "strip_world \<Rightarrow> bool" where
  "IsPointerInsideStrip w \<longleftrightarrow> region_view w \<and> mouse_hovered w"

definition IsFocusInsideStrip :: "strip_world \<Rightarrow> bool" where
  "IsFocusInsideStrip w = (if \<not> region_view w \<or> \<not> has_focus_manager w then False else focus_in_region w)"

definition FocusStrip :: "strip_world \<Rightarrow> strip_world" where
  "FocusStrip w = (if region_view w then w\<lparr>pin_effects := pin_effects w @ [Focus_strip]\<rparr> else w)"

definition ForceCollapseNow :: "strip_world \<Rightarrow> strip_world" where
  "ForceCollapseNow w = w\<lparr>pin_effects := pin_effects w @ [Focus_contents]\<rparr>"

definition ToggleCollapseViaButtonSemantics :: "strip_world \<Rightarrow> strip_world" where
  "ToggleCollapseViaButtonSemantics w =
     (case strip_expanded w of
        None \<Rightarrow> w
      | Some expanded \<Rightarrow> w\<lparr>strip_expanded := Some (\<not> expanded), pin_effects := pin_effects w @ [Request_collapse expanded]\<rparr>)"

definition InstallPinnedHandlers :: "strip_world \<Rightarrow> strip_world" where
  "InstallPinnedHandlers w =
     (if pinned_handlers_installed w \<or> \<not> region_view w \<or> \<not> has_widget w then w
      else w\<lparr>pinned_handlers_installed := True, fullscreen_observed := True\<rparr>)"

definition RemovePinnedHandlers :: "strip_world \<Rightarrow> strip_world" where
  "RemovePinnedHandlers w =
     (if \<not> pinned_handlers_installed w then w
      else w\<lparr>pinned_handlers_installed := False, fullscreen_observed := False\<rparr>)"

text \<open>
  Registering the keep-expanded lock reports the count with it, not released; the glue's pointer is
  set afterwards.
\<close>

definition AcquireKeepExpanded :: "strip_world \<Rightarrow> strip_world" where
  "AcquireKeepExpanded w =
     InstallPinnedHandlers
       (if region_view w \<and> \<not> keep_expanded_lock w
        then w\<lparr>keep_expanded_lock := True, total_keep_open_locks := int (other_keep_locks w) + 1\<rparr> else w)"

definition AcquireForceCollapse :: "strip_world \<Rightarrow> strip_world" where
  "AcquireForceCollapse w =
     (if region_view w \<and> \<not> force_collapse_lock w
      then w\<lparr>force_collapse_lock := True,
             total_keep_open_locks := int (other_keep_locks w) + (if keep_expanded_lock w then 1 else 0)\<rparr>
      else w)"

subsection \<open>The predicate and the release that re-enters it\<close>

text \<open>
  \<open>lock.reset()\<close> clears the pointer first; the region then reports the new count as a release, which
  evaluates the predicate again.
\<close>

function (sequential) MaybeUnpin :: "strip_world \<Rightarrow> strip_world"
  and ReleaseKeepExpanded :: "strip_world \<Rightarrow> strip_world" where
  "MaybeUnpin w =
     (if \<not> pinned w \<or> \<not> armed w then w
      else if IsPointerInsideStrip w \<or> IsFocusInsideStrip w \<or> ExternalKeepOpenLockCount w > 0 then w
      else (ReleaseKeepExpanded w)\<lparr>pinned := False, armed := False\<rparr>)"
| "ReleaseKeepExpanded w =
     RemovePinnedHandlers
       (if keep_expanded_lock w then
          (if region_view w
           then MaybeUnpin (w\<lparr>keep_expanded_lock := False, total_keep_open_locks := int (other_keep_locks w)\<rparr>)
           else w\<lparr>keep_expanded_lock := False\<rparr>)
        else w)"
  by pat_completeness auto

termination
  by (relation "measure (\<lambda>x. case x of Inl w \<Rightarrow> 2 * of_bool (keep_expanded_lock w) + 1
        | Inr w \<Rightarrow> 2 * of_bool (keep_expanded_lock w))") auto

declare MaybeUnpin.simps [simp del] ReleaseKeepExpanded.simps [simp del]

definition OnExternalLockReleased :: "strip_world \<Rightarrow> strip_world" where
  "OnExternalLockReleased w = MaybeUnpin w"

definition OnRoamuxKeepOpenLocksChanged :: "int \<Rightarrow> bool \<Rightarrow> strip_world \<Rightarrow> strip_world" where
  "OnRoamuxKeepOpenLocksChanged count released w =
     (let w1 = w\<lparr>total_keep_open_locks := count\<rparr> in if released then OnExternalLockReleased w1 else w1)"

definition ReleaseForceCollapse :: "strip_world \<Rightarrow> strip_world" where
  "ReleaseForceCollapse w =
     (if force_collapse_lock w then
        let w0 = w\<lparr>force_collapse_lock := False\<rparr>
        in if region_view w
           then OnRoamuxKeepOpenLocksChanged (int (other_keep_locks w) + (if keep_expanded_lock w then 1 else 0)) True w0
           else w0
      else w)"

subsection \<open>The core's inputs\<close>

definition ExplicitUnpin :: "strip_world \<Rightarrow> strip_world" where
  "ExplicitUnpin w =
     (let w1 = (ReleaseKeepExpanded w)\<lparr>pinned := False, armed := False\<rparr>;
          w2 = (if IsPointerInsideStrip w1 then AcquireForceCollapse (w1\<lparr>suppressing := True\<rparr>) else w1)
      in ForceCollapseNow w2)"

definition OnShortcut :: "Mode \<Rightarrow> strip_world \<Rightarrow> strip_world" where
  "OnShortcut mode w =
     (case mode of
        kPinPeek \<Rightarrow>
          if \<not> pinned w then
            let w1 = (if suppressing w then ReleaseForceCollapse (w\<lparr>suppressing := False\<rparr>) else w)
            in FocusStrip (AcquireKeepExpanded (w1\<lparr>pinned := True, armed := False\<rparr>))
          else ExplicitUnpin w
      | kPlainToggle \<Rightarrow> ToggleCollapseViaButtonSemantics w
      | kDisabled \<Rightarrow> w)"

definition OnEscInStrip :: "strip_world \<Rightarrow> strip_world" where
  "OnEscInStrip w = (if pinned w then ExplicitUnpin w else w)"

definition OnCompletedInteraction :: "strip_world \<Rightarrow> strip_world" where
  "OnCompletedInteraction w = (if \<not> pinned w then w else MaybeUnpin (w\<lparr>armed := True\<rparr>))"

definition OnPointerExit :: "strip_world \<Rightarrow> strip_world" where
  "OnPointerExit w =
     MaybeUnpin (if suppressing w then ReleaseForceCollapse (w\<lparr>suppressing := False\<rparr>) else w)"

definition OnFocusChanged :: "strip_world \<Rightarrow> strip_world" where
  "OnFocusChanged w = MaybeUnpin w"

definition OnLifecycleReset :: "strip_world \<Rightarrow> strip_world" where
  "OnLifecycleReset w =
     (let w1 = (if pinned w then ReleaseKeepExpanded w else w);
          w2 = (if suppressing w1 then ReleaseForceCollapse w1 else w1)
      in w2\<lparr>pinned := False, armed := False, suppressing := False\<rparr>)"

definition OnRegionDetached :: "strip_world \<Rightarrow> strip_world" where
  "OnRegionDetached w = OnLifecycleReset w"

subsection \<open>Command plumbing and the region's life\<close>

definition CanToggleTabStrip :: "strip_world option \<Rightarrow> bool" where
  "CanToggleTabStrip browser =
     (case browser of
        None \<Rightarrow> False
      | Some w \<Rightarrow>
          if \<not> toggle_feature w \<or> \<not> vertical_feature w then False
          else let placement = GetTabStripPlacement (position_feature w) (Some (strip_prefs w))
               in placement = kLeft \<or> placement = kRight)"

definition UpdateCommandEnablement :: "strip_world \<Rightarrow> strip_world" where
  "UpdateCommandEnablement w = w\<lparr>command_enabled := CanToggleTabStrip (Some w)\<rparr>"

definition OnToggleCommand :: "strip_world \<Rightarrow> strip_world" where
  "OnToggleCommand w =
     (if \<not> CanToggleTabStrip (Some w) \<or> \<not> region_view w then w
      else OnShortcut (if hover_pref w then kPinPeek else kPlainToggle) w)"

text \<open>The registry entry of this browser runs the glue's handler when there is one.\<close>

definition ToggleTabStrip :: "strip_world \<Rightarrow> strip_world" where
  "ToggleTabStrip w = (if handler_set w then OnToggleCommand w else w)"

definition OnModeRelevantPrefChanged :: "strip_world \<Rightarrow> strip_world" where
  "OnModeRelevantPrefChanged w =
     (let w1 = (if IsFocusInsideStrip w then OnFocusChanged (w\<lparr>focus_in_region := False\<rparr>) else w)
      in UpdateCommandEnablement (OnLifecycleReset w1))"

definition AttachRegionView :: "strip_world \<Rightarrow> strip_world" where
  "AttachRegionView w = UpdateCommandEnablement (w\<lparr>region_view := True\<rparr>)"

definition DetachRegionView :: "strip_world \<Rightarrow> strip_world" where
  "DetachRegionView w =
     (if \<not> region_view w then w
      else (OnRegionDetached (RemovePinnedHandlers w))\<lparr>region_view := False\<rparr>)"

definition OnKeyEvent :: "bool \<Rightarrow> bool \<Rightarrow> strip_world \<Rightarrow> bool \<times> strip_world" where
  "OnKeyEvent key_pressed is_escape w =
     (if \<not> pinned w \<or> \<not> key_pressed then (False, w)
      else if is_escape \<and> IsFocusInsideStrip w then (True, OnEscInStrip w) else (False, w))"

definition AcceleratorPressed :: "strip_world \<Rightarrow> bool \<times> strip_world" where
  "AcceleratorPressed w = (if pinned w \<and> IsFocusInsideStrip w then (True, OnEscInStrip w) else (False, w))"

definition CanHandleAccelerators :: "strip_world \<Rightarrow> bool" where
  "CanHandleAccelerators w = pinned w"

definition OnFullscreenStateChanged :: "strip_world \<Rightarrow> strip_world" where
  "OnFullscreenStateChanged w = OnLifecycleReset w"

text \<open>The glue's construction for a window and its destruction.\<close>

definition new_glue :: "strip_world \<Rightarrow> strip_world" where
  "new_glue w = w\<lparr>region_view := False, keep_expanded_lock := False, force_collapse_lock := False,
     total_keep_open_locks := 0, pinned_handlers_installed := False, fullscreen_observed := False,
     pinned := False, armed := False, suppressing := False, handler_set := True, hooks_set := True\<rparr>"

definition destroy_glue :: "strip_world \<Rightarrow> strip_world" where
  "destroy_glue w = (DetachRegionView w)\<lparr>hooks_set := False, handler_set := False\<rparr>"

text \<open>The free functions the patched views call, through the window's hooks.\<close>

definition OnVerticalTabStripRegionViewCreated :: "strip_world \<Rightarrow> strip_world" where
  "OnVerticalTabStripRegionViewCreated w = (if hooks_set w then AttachRegionView w else w)"

definition OnVerticalTabStripRegionViewDestroyed :: "strip_world \<Rightarrow> strip_world" where
  "OnVerticalTabStripRegionViewDestroyed w = (if hooks_set w then DetachRegionView w else w)"

definition OnVerticalTabStripMenuCommandExecuted :: "strip_world \<Rightarrow> strip_world" where
  "OnVerticalTabStripMenuCommandExecuted w = (if hooks_set w then OnCompletedInteraction w else w)"

definition OnVerticalTabStripUserActivation :: "strip_world \<Rightarrow> strip_world" where
  "OnVerticalTabStripUserActivation w = (if hooks_set w then OnCompletedInteraction w else w)"

subsection \<open>Everything that can happen to a window's strip\<close>

datatype strip_event = Toggle_command | Pointer_enters | Pointer_exits | Focus_moves bool
  | Lock_acquired | Lock_released | Menu_executed | Strip_menu_executed | Control_activated | User_activation
  | Key_event bool bool | Escape_accelerator | Fullscreen_changed | Prefs_changed bool pref_service
  | Region_created bool bool bool bool | Region_destroyed | Browser_did_close

text \<open>
  Each event with its change of the outside state and the call it makes. Pointer, focus and lock
  changes are reported while the region is attached (patch 0054); a new region view is built only
  after the old one is gone, and a lock is released only if one is held.
\<close>

definition possible :: "strip_event \<Rightarrow> strip_world \<Rightarrow> bool" where
  "possible e w = (case e of
      Lock_released \<Rightarrow> region_view w \<and> 0 < other_keep_locks w
    | Lock_acquired \<Rightarrow> region_view w
    | Region_created _ _ _ _ \<Rightarrow> \<not> region_view w
    | _ \<Rightarrow> True)"

definition observed :: "(strip_world \<Rightarrow> strip_world) \<Rightarrow> strip_world \<Rightarrow> strip_world" where
  "observed f w = (if region_view w then f w else w)"

definition on_event :: "strip_event \<Rightarrow> strip_world \<Rightarrow> strip_world" where
  "on_event e w = (case e of
      Toggle_command \<Rightarrow> ToggleTabStrip w
    | Pointer_enters \<Rightarrow> w\<lparr>mouse_hovered := True\<rparr>
    | Pointer_exits \<Rightarrow> observed OnPointerExit (w\<lparr>mouse_hovered := False\<rparr>)
    | Focus_moves within \<Rightarrow> observed OnFocusChanged (w\<lparr>focus_in_region := within\<rparr>)
    | Lock_acquired \<Rightarrow> OnRoamuxKeepOpenLocksChanged
          (int (other_keep_locks w) + 1 + (if keep_expanded_lock w then 1 else 0)) False
          (w\<lparr>other_keep_locks := other_keep_locks w + 1\<rparr>)
    | Lock_released \<Rightarrow> OnRoamuxKeepOpenLocksChanged
          (int (other_keep_locks w) - 1 + (if keep_expanded_lock w then 1 else 0)) True
          (w\<lparr>other_keep_locks := other_keep_locks w - 1\<rparr>)
    | Menu_executed \<Rightarrow> OnVerticalTabStripMenuCommandExecuted w
    | Strip_menu_executed \<Rightarrow> observed OnCompletedInteraction w
    | Control_activated \<Rightarrow> observed OnCompletedInteraction w
    | User_activation \<Rightarrow> OnVerticalTabStripUserActivation w
    | Key_event pressed esc \<Rightarrow> if pinned_handlers_installed w then snd (OnKeyEvent pressed esc w) else w
    | Escape_accelerator \<Rightarrow>
        if pinned_handlers_installed w \<and> CanHandleAccelerators w then snd (AcceleratorPressed w) else w
    | Fullscreen_changed \<Rightarrow> if fullscreen_observed w then OnFullscreenStateChanged w else w
    | Prefs_changed hover prefs \<Rightarrow> OnModeRelevantPrefChanged (w\<lparr>hover_pref := hover, strip_prefs := prefs\<rparr>)
    | Region_created widget fm hovered focused \<Rightarrow> OnVerticalTabStripRegionViewCreated
          (w\<lparr>has_widget := widget, has_focus_manager := fm, mouse_hovered := hovered, focus_in_region := focused,
             other_keep_locks := 0\<rparr>)
    | Region_destroyed \<Rightarrow> OnVerticalTabStripRegionViewDestroyed w
    | Browser_did_close \<Rightarrow> DetachRegionView w)"

inductive strip_reachable :: "strip_world \<Rightarrow> strip_world \<Rightarrow> bool" for w0 where
  created: "strip_reachable w0 (new_glue w0)"
| event: "strip_reachable w0 w \<Longrightarrow> possible e w \<Longrightarrow> strip_reachable w0 (on_event e w)"

text \<open>
  The invariant: each flag is mirrored by its lock, the two never hold together, the handlers live
  exactly while pinned, and while pinned the region's count is known exactly.
\<close>

definition pin_inv :: "strip_world \<Rightarrow> bool" where
  "pin_inv w \<longleftrightarrow> (armed w \<longrightarrow> pinned w) \<and> \<not> (pinned w \<and> suppressing w) \<and>
     (pinned w \<or> suppressing w \<longrightarrow> region_view w) \<and>
     keep_expanded_lock w = pinned w \<and> force_collapse_lock w = suppressing w \<and>
     pinned_handlers_installed w = (pinned w \<and> has_widget w) \<and>
     fullscreen_observed w = pinned_handlers_installed w \<and>
     (pinned w \<longrightarrow> total_keep_open_locks w = int (other_keep_locks w) + 1)"

text \<open>The predicate that dissolves an armed pin.\<close>

definition abandoned :: "strip_world \<Rightarrow> bool" where
  "abandoned w \<longleftrightarrow> \<not> IsPointerInsideStrip w \<and> \<not> IsFocusInsideStrip w \<and> other_keep_locks w = 0"

definition pin_ok :: "strip_world \<Rightarrow> bool" where
  "pin_ok w \<longleftrightarrow> pin_inv w \<and> \<not> (armed w \<and> abandoned w)"

definition unpin :: "strip_world \<Rightarrow> strip_world" where
  "unpin w = w\<lparr>keep_expanded_lock := False, total_keep_open_locks := int (other_keep_locks w),
     pinned_handlers_installed := False, fullscreen_observed := False, pinned := False, armed := False\<rparr>"

lemmas pin_queries = IsPointerInsideStrip_def IsFocusInsideStrip_def ExternalKeepOpenLockCount_def

lemma RemovePinnedHandlers_eq:
  "fullscreen_observed w = pinned_handlers_installed w \<Longrightarrow>
   RemovePinnedHandlers w = w\<lparr>pinned_handlers_installed := False, fullscreen_observed := False\<rparr>"
  by (cases w) (simp add: RemovePinnedHandlers_def)

lemma Release_without_lock: "\<not> keep_expanded_lock w \<Longrightarrow> ReleaseKeepExpanded w = RemovePinnedHandlers w"
  by (simp add: ReleaseKeepExpanded.simps [of w])

lemma Maybe_unpinned [simp]: "\<not> pinned w \<or> \<not> armed w \<Longrightarrow> MaybeUnpin w = w"
  by (simp add: MaybeUnpin.simps [of w])

text \<open>However the release re-enters the predicate, a caller that goes on to unpin ends in the same state.\<close>

lemma Release_then_unpin:
  assumes "keep_expanded_lock w" and "region_view w" and f: "fullscreen_observed w = pinned_handlers_installed w"
  shows "(ReleaseKeepExpanded w)\<lparr>pinned := False, armed := False\<rparr> = unpin w"
proof -
  define w0 where "w0 = w\<lparr>keep_expanded_lock := False, total_keep_open_locks := int (other_keep_locks w)\<rparr>"
  have r: "ReleaseKeepExpanded w = RemovePinnedHandlers (MaybeUnpin w0)"
    using assms by (simp add: ReleaseKeepExpanded.simps [of w] w0_def)
  have n0: "\<not> keep_expanded_lock w0" by (simp add: w0_def)
  have m: "MaybeUnpin w0 = w0 \<or> MaybeUnpin w0 = (RemovePinnedHandlers w0)\<lparr>pinned := False, armed := False\<rparr>"
    using Release_without_lock [of w0] by (simp add: MaybeUnpin.simps [of w0] n0)
  have f0: "fullscreen_observed w0 = pinned_handlers_installed w0" using f by (simp add: w0_def)
  show ?thesis
    using m unfolding r
    by (elim disjE) (simp_all add: RemovePinnedHandlers_eq f0 w0_def unpin_def f)
qed

lemma pin_invD:
  assumes "pin_inv w"
  shows "armed w \<Longrightarrow> pinned w" and "keep_expanded_lock w = pinned w" and "force_collapse_lock w = suppressing w"
    and "pinned_handlers_installed w = (pinned w \<and> has_widget w)" and "fullscreen_observed w = (pinned w \<and> has_widget w)"
    and "pinned w \<Longrightarrow> region_view w" and "suppressing w \<Longrightarrow> region_view w" and "pinned w \<Longrightarrow> \<not> suppressing w"
    and "pinned w \<Longrightarrow> total_keep_open_locks w = int (other_keep_locks w) + 1"
  using assms by (auto simp: pin_inv_def)

text \<open>The predicate's closed form in a state whose flags and locks agree.\<close>

lemma MaybeUnpin_eq:
  assumes "pin_inv w"
  shows "MaybeUnpin w = (if armed w \<and> abandoned w then unpin w else w)"
proof (cases "armed w")
  case True
  then have p: "pinned w" "keep_expanded_lock w" "region_view w" using pin_invD [OF assms] by blast+
  have "ExternalKeepOpenLockCount w = int (other_keep_locks w)"
    using p pin_invD(9) [OF assms] by (simp add: ExternalKeepOpenLockCount_def)
  then show ?thesis
    using True p Release_then_unpin [OF p(2,3)] pin_invD(4,5) [OF assms]
    by (simp add: MaybeUnpin.simps [of w] abandoned_def)
qed simp

lemma unpin_ok: "pin_inv w \<Longrightarrow> \<not> suppressing w \<or> \<not> pinned w \<Longrightarrow> pin_ok (unpin w)"
  by (auto simp: pin_ok_def pin_inv_def unpin_def)

lemma MaybeUnpin_ok [inv_intros]: "pin_inv w \<Longrightarrow> pin_ok (MaybeUnpin w)"
  by (auto simp: MaybeUnpin_eq pin_ok_def [of w] intro: unpin_ok dest: pin_invD)

lemma ReleaseForce_unpinned:
  assumes "\<not> pinned w"
  shows "ReleaseForceCollapse w =
    (if force_collapse_lock w then
       (if region_view w then w\<lparr>force_collapse_lock := False,
          total_keep_open_locks := int (other_keep_locks w) + (if keep_expanded_lock w then 1 else 0)\<rparr>
        else w\<lparr>force_collapse_lock := False\<rparr>)
     else w)"
  using assms
  by (simp add: ReleaseForceCollapse_def Let_def OnRoamuxKeepOpenLocksChanged_def OnExternalLockReleased_def)

lemma ExplicitUnpin_eq:
  assumes "pin_inv w" and "pinned w"
  shows "ExplicitUnpin w = ForceCollapseNow
     (if IsPointerInsideStrip w then (unpin w)\<lparr>suppressing := True, force_collapse_lock := True\<rparr> else unpin w)"
proof -
  have p: "keep_expanded_lock w" "region_view w" "fullscreen_observed w = pinned_handlers_installed w"
      "\<not> force_collapse_lock w" "\<not> suppressing w"
    using pin_invD [OF assms(1)] assms(2) by auto
  have r: "(ReleaseKeepExpanded w)\<lparr>pinned := False, armed := False\<rparr> = unpin w"
    by (rule Release_then_unpin [OF p(1-3)])
  show ?thesis
    unfolding ExplicitUnpin_def Let_def r using p
    by (cases w) (simp add: AcquireForceCollapse_def unpin_def IsPointerInsideStrip_def)
qed

lemma pin_ok_inv: "pin_ok w \<Longrightarrow> pin_inv w" by (simp add: pin_ok_def)

lemma pin_ok_unarmed: "pin_inv w \<Longrightarrow> \<not> armed w \<Longrightarrow> pin_ok w" by (simp add: pin_ok_def)

lemma ExplicitUnpin_ok: "pin_inv w \<Longrightarrow> pinned w \<Longrightarrow> pin_ok (ExplicitUnpin w)"
  by (rule pin_ok_unarmed)
     (auto simp: ExplicitUnpin_eq ForceCollapseNow_def pin_inv_def unpin_def IsPointerInsideStrip_def)

lemma drop_suppression:
  assumes "pin_inv w" and "suppressing w"
  shows "ReleaseForceCollapse (w\<lparr>suppressing := False\<rparr>) =
      w\<lparr>suppressing := False, force_collapse_lock := False, total_keep_open_locks := int (other_keep_locks w)\<rparr>"
    and "\<not> pinned w" and "region_view w"
  using pin_invD [OF assms(1)] assms(2) by (auto simp: ReleaseForce_unpinned)

lemma pin_eq:
  assumes "pin_inv w" and "\<not> pinned w" and "region_view w"
  shows "OnShortcut kPinPeek w = FocusStrip (w\<lparr>suppressing := False, force_collapse_lock := False,
     keep_expanded_lock := True, total_keep_open_locks := int (other_keep_locks w) + 1,
     pinned_handlers_installed := has_widget w, fullscreen_observed := has_widget w,
     pinned := True, armed := False\<rparr>)"
proof -
  have l: "\<not> keep_expanded_lock w" "\<not> pinned_handlers_installed w" "\<not> fullscreen_observed w"
      "force_collapse_lock w = suppressing w"
    using pin_invD [OF assms(1)] assms(2) by auto
  define w1 where "w1 = (if suppressing w then ReleaseForceCollapse (w\<lparr>suppressing := False\<rparr>) else w)"
  have w1: "w1\<lparr>total_keep_open_locks := t\<rparr> = w\<lparr>suppressing := False, force_collapse_lock := False, total_keep_open_locks := t\<rparr>" for t
    using drop_suppression(1) [OF assms(1)] l by (cases w) (simp add: w1_def)
  have "OnShortcut kPinPeek w = FocusStrip (AcquireKeepExpanded (w1\<lparr>pinned := True, armed := False\<rparr>))"
    using assms(2) by (simp add: OnShortcut_def w1_def Let_def)
  also have "AcquireKeepExpanded (w1\<lparr>pinned := True, armed := False\<rparr>) =
      InstallPinnedHandlers ((w1\<lparr>total_keep_open_locks := int (other_keep_locks w) + 1\<rparr>)
        \<lparr>keep_expanded_lock := True, pinned := True, armed := False\<rparr>)"
    using l assms drop_suppression(1) [OF assms(1)]
    by (cases w) (simp add: AcquireKeepExpanded_def w1_def)
  finally show ?thesis unfolding w1 using l assms(3)
    by (cases w) (auto simp: InstallPinnedHandlers_def)
qed

lemma shortcut_ok: "pin_ok w \<Longrightarrow> region_view w \<Longrightarrow> pin_ok (OnShortcut m w)"
proof (cases m)
  case kPinPeek
  assume ok: "pin_ok w" and r: "region_view w"
  show ?thesis
  proof (cases "pinned w")
    case True
    then show ?thesis using ExplicitUnpin_ok [OF pin_ok_inv [OF ok]] kPinPeek by (simp add: OnShortcut_def)
  next
    case False
    have "pin_inv (OnShortcut kPinPeek w) \<and> \<not> armed (OnShortcut kPinPeek w)"
      unfolding pin_eq [OF pin_ok_inv [OF ok] False r] using r by (auto simp: FocusStrip_def pin_inv_def)
    then show ?thesis using kPinPeek pin_ok_unarmed by blast
  qed
qed (auto simp: OnShortcut_def ToggleCollapseViaButtonSemantics_def pin_ok_def pin_inv_def abandoned_def pin_queries
       split: option.splits)

text \<open>What the reset needs: the flags and locks agree, whether or not the handlers are still installed.\<close>

definition pin_core :: "strip_world \<Rightarrow> bool" where
  "pin_core w \<longleftrightarrow> (armed w \<longrightarrow> pinned w) \<and> \<not> (pinned w \<and> suppressing w) \<and>
     (pinned w \<or> suppressing w \<longrightarrow> region_view w) \<and>
     keep_expanded_lock w = pinned w \<and> force_collapse_lock w = suppressing w \<and>
     (pinned_handlers_installed w \<longrightarrow> pinned w) \<and> fullscreen_observed w = pinned_handlers_installed w"

lemma pin_inv_core: "pin_inv w \<Longrightarrow> pin_core w" by (auto simp: pin_inv_def pin_core_def)

lemma reset_eq:
  assumes "pin_core w"
  shows "\<exists>t. OnLifecycleReset w = w\<lparr>keep_expanded_lock := False, force_collapse_lock := False,
     total_keep_open_locks := t, pinned_handlers_installed := False, fullscreen_observed := False,
     pinned := False, armed := False, suppressing := False\<rparr>"
proof (cases "pinned w")
  case True
  then have p: "keep_expanded_lock w" "region_view w" "fullscreen_observed w = pinned_handlers_installed w"
      "\<not> suppressing w" "\<not> force_collapse_lock w"
    using assms by (auto simp: pin_core_def)
  define w1 where "w1 = ReleaseKeepExpanded w"
  have r: "w1\<lparr>pinned := False, armed := False\<rparr> = unpin w"
    unfolding w1_def by (rule Release_then_unpin [OF p(1-3)])
  have s1: "\<not> suppressing w1" using p(4) arg_cong [OF r, of suppressing] by (simp add: unpin_def)
  have "OnLifecycleReset w = w1\<lparr>pinned := False, armed := False, suppressing := False\<rparr>"
    using True s1 by (simp add: OnLifecycleReset_def w1_def Let_def)
  also have "\<dots> = (unpin w)\<lparr>suppressing := False\<rparr>" using arg_cong [OF r, of "suppressing_update (\<lambda>_. False)"] by simp
  also have "\<dots> = w\<lparr>keep_expanded_lock := False, force_collapse_lock := False,
      total_keep_open_locks := int (other_keep_locks w), pinned_handlers_installed := False,
      fullscreen_observed := False, pinned := False, armed := False, suppressing := False\<rparr>"
    using p by (cases w) (simp add: unpin_def)
  finally show ?thesis by blast
next
  case False
  then have p: "\<not> keep_expanded_lock w" "\<not> armed w" "\<not> pinned_handlers_installed w" "\<not> fullscreen_observed w"
      "force_collapse_lock w = suppressing w"
    using assms by (auto simp: pin_core_def)
  show ?thesis
  proof (cases "suppressing w")
    case True
    moreover have "region_view w" using True assms by (simp add: pin_core_def)
    ultimately have "OnLifecycleReset w = w\<lparr>keep_expanded_lock := False, force_collapse_lock := False,
      total_keep_open_locks := int (other_keep_locks w), pinned_handlers_installed := False,
      fullscreen_observed := False, pinned := False, armed := False, suppressing := False\<rparr>"
      using False p
      by (cases w) (simp add: OnLifecycleReset_def ReleaseForce_unpinned)
    then show ?thesis by blast
  next
    case no: False
    then have "OnLifecycleReset w = w\<lparr>keep_expanded_lock := False, force_collapse_lock := False,
      total_keep_open_locks := total_keep_open_locks w, pinned_handlers_installed := False,
      fullscreen_observed := False, pinned := False, armed := False, suppressing := False\<rparr>"
      using False p by (cases w) (simp add: OnLifecycleReset_def)
    then show ?thesis by blast
  qed
qed

lemma reset_ok: "pin_core w \<Longrightarrow> pin_ok (OnLifecycleReset w)"
proof -
  assume "pin_core w"
  then obtain t where "OnLifecycleReset w = w\<lparr>keep_expanded_lock := False, force_collapse_lock := False,
     total_keep_open_locks := t, pinned_handlers_installed := False, fullscreen_observed := False,
     pinned := False, armed := False, suppressing := False\<rparr>" using reset_eq by blast
  then show ?thesis by (simp add: pin_ok_def pin_inv_def)
qed

lemma arm_inv: "pin_inv w \<Longrightarrow> pinned w \<Longrightarrow> pin_inv (w\<lparr>armed := True\<rparr>)"
  by (simp add: pin_inv_def)

lemma interaction_ok: "pin_ok w \<Longrightarrow> pin_ok (OnCompletedInteraction w)"
  by (simp add: OnCompletedInteraction_def MaybeUnpin_ok arm_inv pin_ok_inv)

lemma drop_suppression_inv: "pin_inv w \<Longrightarrow> suppressing w \<Longrightarrow> pin_inv (ReleaseForceCollapse (w\<lparr>suppressing := False\<rparr>))"
proof -
  assume a: "pin_inv w" "suppressing w"
  show ?thesis unfolding drop_suppression(1) [OF a] using a drop_suppression(2) [OF a] by (simp add: pin_inv_def)
qed

lemma exit_ok: "pin_inv w \<Longrightarrow> pin_ok (OnPointerExit w)"
  unfolding OnPointerExit_def by (rule MaybeUnpin_ok) (simp add: drop_suppression_inv)

lemma esc_ok: "pin_ok w \<Longrightarrow> pin_ok (OnEscInStrip w)"
  by (simp add: OnEscInStrip_def ExplicitUnpin_ok pin_ok_inv)

text \<open>An event that only brings something inside, or changes what the pin does not read.\<close>

lemma inv_outside:
  "pin_inv w \<Longrightarrow> pin_inv (w\<lparr>mouse_hovered := a\<rparr>)" "pin_inv w \<Longrightarrow> pin_inv (w\<lparr>focus_in_region := b\<rparr>)"
  "pin_inv w \<Longrightarrow> pin_inv (w\<lparr>hover_pref := c, strip_prefs := d\<rparr>)" "pin_inv w \<Longrightarrow> pin_inv (w\<lparr>command_enabled := e\<rparr>)"
  by (auto simp: pin_inv_def)

lemma ok_unobserved: "pin_inv w \<Longrightarrow> \<not> region_view w \<Longrightarrow> pin_ok w"
  by (auto simp: pin_inv_def pin_ok_def)

lemma detach_inv: "pin_ok w \<Longrightarrow> pin_ok (DetachRegionView w)"
proof -
  assume ok: "pin_ok w"
  show ?thesis
  proof (cases "region_view w")
    case True
    define w1 where "w1 = RemovePinnedHandlers w"
    have w1: "w1 = w\<lparr>pinned_handlers_installed := False, fullscreen_observed := False\<rparr>"
      using pin_invD(4,5) [OF pin_ok_inv [OF ok]] by (simp add: w1_def RemovePinnedHandlers_eq)
    have "pin_core w1" using pin_inv_core [OF pin_ok_inv [OF ok]] by (auto simp: w1 pin_core_def)
    then obtain t where "OnLifecycleReset w1 = w1\<lparr>keep_expanded_lock := False, force_collapse_lock := False,
     total_keep_open_locks := t, pinned_handlers_installed := False, fullscreen_observed := False,
     pinned := False, armed := False, suppressing := False\<rparr>"
      using reset_eq by blast
    then show ?thesis
      using True w1_def by (auto simp: DetachRegionView_def OnRegionDetached_def pin_ok_def pin_inv_def)
  qed (simp add: DetachRegionView_def ok)
qed

lemma ok_command_enabled [simp]: "pin_ok (w\<lparr>command_enabled := e\<rparr>) = pin_ok w"
  by (simp add: pin_ok_def pin_inv_def abandoned_def IsPointerInsideStrip_def IsFocusInsideStrip_def)

lemma ok_UpdateCommandEnablement [simp]: "pin_ok (UpdateCommandEnablement w) = pin_ok w"
  by (simp add: UpdateCommandEnablement_def)

lemma observed_ok: "(region_view w \<Longrightarrow> pin_ok (f w)) \<Longrightarrow> pin_inv w \<Longrightarrow> pin_ok (observed f w)"
  by (auto simp: observed_def ok_unobserved)

lemma pointer_enters_ok: "pin_ok w \<Longrightarrow> pin_ok (w\<lparr>mouse_hovered := True\<rparr>)"
  by (simp add: pin_ok_def inv_outside abandoned_def IsPointerInsideStrip_def) (auto simp: pin_inv_def)

lemma lock_acquired_ok:
  "pin_ok w \<Longrightarrow> pin_ok (OnRoamuxKeepOpenLocksChanged (int (other_keep_locks w) + 1 + (if keep_expanded_lock w then 1 else 0))
     False (w\<lparr>other_keep_locks := other_keep_locks w + 1\<rparr>))"
  by (simp add: OnRoamuxKeepOpenLocksChanged_def pin_ok_def abandoned_def) (auto simp: pin_inv_def)

lemma lock_released_ok:
  assumes "pin_ok w" and "0 < other_keep_locks w"
  shows "pin_ok (OnRoamuxKeepOpenLocksChanged (int (other_keep_locks w) - 1 + (if keep_expanded_lock w then 1 else 0))
     True (w\<lparr>other_keep_locks := other_keep_locks w - 1\<rparr>))"
proof -
  have "pin_inv (w\<lparr>other_keep_locks := other_keep_locks w - 1,
     total_keep_open_locks := int (other_keep_locks w) - 1 + (if keep_expanded_lock w then 1 else 0)\<rparr>)"
    using assms by (auto simp: pin_ok_def pin_inv_def)
  then show ?thesis
    by (simp add: OnRoamuxKeepOpenLocksChanged_def OnExternalLockReleased_def Let_def MaybeUnpin_ok)
qed

lemma prefs_changed_ok: "pin_inv w \<Longrightarrow> pin_ok (OnModeRelevantPrefChanged w)"
  by (simp add: OnModeRelevantPrefChanged_def Let_def OnFocusChanged_def reset_ok pin_inv_core
      pin_ok_inv MaybeUnpin_ok inv_outside)

lemma region_created_ok:
  "pin_ok w \<Longrightarrow> \<not> region_view w \<Longrightarrow> pin_ok (OnVerticalTabStripRegionViewCreated
     (w\<lparr>has_widget := a, has_focus_manager := b, mouse_hovered := c, focus_in_region := d, other_keep_locks := 0\<rparr>))"
  by (simp add: OnVerticalTabStripRegionViewCreated_def AttachRegionView_def) (auto simp: pin_ok_def pin_inv_def)

lemma toggle_ok: "pin_ok w \<Longrightarrow> pin_ok (ToggleTabStrip w)"
  by (simp add: ToggleTabStrip_def OnToggleCommand_def shortcut_ok)

lemma on_event_ok: "pin_ok w \<Longrightarrow> possible e w \<Longrightarrow> pin_ok (on_event e w)"
proof (induction e)
  case (Pointer_exits)
  then show ?case using pin_ok_inv by (auto simp: on_event_def intro!: observed_ok exit_ok inv_outside)
next
  case (Focus_moves i)
  then show ?case
    using pin_ok_inv by (auto simp: on_event_def OnFocusChanged_def intro!: observed_ok MaybeUnpin_ok inv_outside)
next
  case Lock_acquired
  then show ?case unfolding on_event_def strip_event.case by (intro lock_acquired_ok)
next
  case Lock_released
  then show ?case unfolding on_event_def strip_event.case
    by (intro lock_released_ok) (auto simp: possible_def)
next
  case (Prefs_changed h p)
  then show ?case by (simp add: on_event_def prefs_changed_ok inv_outside pin_ok_inv)
next
  case (Region_created a b c d)
  then show ?case by (simp add: on_event_def possible_def region_created_ok)
qed (simp_all add: on_event_def toggle_ok pointer_enters_ok OnVerticalTabStripMenuCommandExecuted_def interaction_ok
      OnVerticalTabStripUserActivation_def OnKeyEvent_def AcceleratorPressed_def esc_ok
      OnFullscreenStateChanged_def reset_ok pin_inv_core pin_ok_inv OnVerticalTabStripRegionViewDestroyed_def
      detach_inv observed_def)

lemma new_glue_ok: "pin_ok (new_glue w)"
  by (simp add: new_glue_def pin_ok_def pin_inv_def)

lemma strip_reachable_ok: "strip_reachable w0 w \<Longrightarrow> pin_ok w"
  by (induction rule: strip_reachable.induct) (auto intro: new_glue_ok on_event_ok)

text \<open>
  C13: the pin is what it holds. In every state the window can reach, whatever events come in whatever
  order and however releasing a lock re-enters the controller: the strip is pinned exactly while the
  keep-expanded lock is held, suppressed exactly while the force-collapse lock is held, never both;
  the Esc and fullscreen handlers are installed exactly while pinned in a widget; nothing is held once
  the region view is gone; and an armed pin is always held by the pointer, the focus or another lock.
\<close>

theorem pin_mirrors_its_locks:
  assumes "strip_reachable w0 w"
  shows "keep_expanded_lock w = pinned w \<and> force_collapse_lock w = suppressing w \<and> \<not> (pinned w \<and> suppressing w) \<and>
    pinned_handlers_installed w = (pinned w \<and> has_widget w) \<and>
    (\<not> region_view w \<longrightarrow> \<not> pinned w \<and> \<not> suppressing w) \<and>
    (armed w \<longrightarrow> pinned w \<and> (IsPointerInsideStrip w \<or> IsFocusInsideStrip w \<or> other_keep_locks w > 0))"
  using strip_reachable_ok [OF assms] unfolding pin_ok_def abandoned_def
  by (auto simp: pin_inv_def)

text \<open>
  The shortcut toggles the pin. In every reachable state with the command enabled and hover-expand
  on, the shortcut pins an unpinned strip, holding the lock, focusing the strip and superseding a
  suppression; and unpins a pinned one whatever holds it open, giving the focus back to the page and,
  exactly if the pointer is inside, suppressing the hover reveal until the pointer next leaves.
\<close>

theorem shortcut_toggles_pin:
  assumes "strip_reachable w0 w" and "CanToggleTabStrip (Some w)" and "region_view w" and "hover_pref w"
    and "handler_set w" and w': "w' = ToggleTabStrip w"
  shows "pinned w' = (\<not> pinned w) \<and> \<not> armed w' \<and> keep_expanded_lock w' = (\<not> pinned w) \<and>
    suppressing w' = (pinned w \<and> IsPointerInsideStrip w) \<and>
    pin_effects w' = pin_effects w @ [if pinned w then Focus_contents else Focus_strip] \<and>
    \<not> suppressing (on_event Pointer_exits w')"
proof -
  have ok: "pin_ok w" by (rule strip_reachable_ok [OF assms(1)])
  note inv = pin_ok_inv [OF ok]
  have w'_eq: "w' = OnShortcut kPinPeek w"
    using assms by (simp add: ToggleTabStrip_def OnToggleCommand_def)
  have ok': "pin_ok w'" unfolding w' by (rule toggle_ok [OF ok])
  have main: "pinned w' = (\<not> pinned w) \<and> \<not> armed w' \<and> keep_expanded_lock w' = (\<not> pinned w) \<and>
    suppressing w' = (pinned w \<and> IsPointerInsideStrip w) \<and>
    pin_effects w' = pin_effects w @ [if pinned w then Focus_contents else Focus_strip] \<and> region_view w'"
  proof (cases "pinned w")
    case True
    then show ?thesis
      using pin_invD(8) [OF inv] assms(3)
      by (simp add: w'_eq OnShortcut_def ExplicitUnpin_eq [OF inv] ForceCollapseNow_def unpin_def)
  next
    case False
    then show ?thesis
      unfolding w'_eq pin_eq [OF inv False assms(3)] using assms(3) by (simp add: FocusStrip_def)
  qed
  have "\<not> suppressing (on_event Pointer_exits w')"
  proof -
    define v where "v = w'\<lparr>mouse_hovered := False\<rparr>"
    have v: "pin_inv v" unfolding v_def by (rule inv_outside(1) [OF pin_ok_inv [OF ok']])
    have m: "\<not> suppressing (MaybeUnpin x)" if "pin_inv x" "\<not> suppressing x" for x
      using that by (simp add: MaybeUnpin_eq unpin_def)
    have "\<not> suppressing (OnPointerExit v)"
    proof (cases "suppressing v")
      case True
      have "\<not> suppressing (ReleaseForceCollapse (v\<lparr>suppressing := False\<rparr>))"
        unfolding drop_suppression(1) [OF v True] by simp
      then show ?thesis using m drop_suppression_inv [OF v True] True by (simp add: OnPointerExit_def)
    next
      case False
      then show ?thesis using m v by (simp add: OnPointerExit_def)
    qed
    moreover have "region_view v" using main by (simp add: v_def)
    ultimately show ?thesis by (simp add: on_event_def observed_def v_def)
  qed
  with main show ?thesis by blast
qed

text \<open>A window with a docked strip, for the witnesses.\<close>

definition docked :: strip_world where
  "docked = \<lparr>region_view = False, has_widget = True, has_focus_manager = True, mouse_hovered = False,
     focus_in_region = False, other_keep_locks = 0, hover_pref = True,
     strip_prefs = SetTabStripPlacement 2 (RegisterProfilePrefs
        \<lparr>int_prefs = Map.empty, bool_prefs = Map.empty, string_prefs = Map.empty, dict_prefs = {}\<rparr>),
     toggle_feature = True, vertical_feature = True, position_feature = True, keep_expanded_lock = False,
     force_collapse_lock = False, total_keep_open_locks = 0, pinned_handlers_installed = False,
     fullscreen_observed = False, pinned = False, armed = False, suppressing = False, handler_set = False,
     hooks_set = False, strip_expanded = Some True, command_enabled = False, pin_effects = []\<rparr>"

definition docked_open :: strip_world where
  "docked_open = on_event (Region_created True True True False) (new_glue docked)"

lemma docked_open_reachable: "strip_reachable docked docked_open"
  unfolding docked_open_def
  by (intro strip_reachable.intros) (simp add: possible_def new_glue_def)

lemma docked_open_fields:
  "region_view docked_open" "hover_pref docked_open" "handler_set docked_open" "\<not> pinned docked_open"
  "CanToggleTabStrip (Some docked_open)"
  by (simp_all add: docked_open_def on_event_def OnVerticalTabStripRegionViewCreated_def AttachRegionView_def
      UpdateCommandEnablement_def new_glue_def docked_def CanToggleTabStrip_def GetTabStripPlacement_def
      SetTabStripPlacement_def RegisterProfilePrefs_def set_int_def new_pref_def pref_value_def
      kTabStripPosition_def kNewTabPosition_def placement_of_int_def)

lemma pin_mirrors_its_locks_witness:
  "let w = on_event Toggle_command docked_open in keep_expanded_lock w = pinned w \<and> pinned w"
proof -
  define w where "w = on_event Toggle_command docked_open"
  have r: "strip_reachable docked w"
    unfolding w_def by (intro strip_reachable.event docked_open_reachable) (simp add: possible_def)
  have "pinned w"
    using pin_eq [OF pin_ok_inv [OF strip_reachable_ok [OF docked_open_reachable]] docked_open_fields(4,1)]
    by (simp add: w_def on_event_def ToggleTabStrip_def OnToggleCommand_def docked_open_fields FocusStrip_def)
  then show ?thesis using pin_mirrors_its_locks [OF r] unfolding w_def [symmetric] Let_def by blast
qed

lemma shortcut_toggles_pin_witness:
  "pinned (ToggleTabStrip docked_open) \<and> \<not> suppressing (ToggleTabStrip docked_open)"
  using shortcut_toggles_pin [OF docked_open_reachable docked_open_fields(5,1,2,3) refl] docked_open_fields(4)
  by blast

end
