(* ===== verification/Strip_Windows.thy ===== *)
theory Strip_Windows
  imports Pin_Controller
begin

text \<open>
  All windows of the application: the two registries of \<open>tab_strip_toggle_command.cc\<close> and the glue registry of
  \<open>tab_strip_pin_controller_views.cc\<close>, which the glue of each window enters in its constructor and leaves in
  its destructor. The entries are closures bound to the glue that made them, so an entry is the window of
  that glue, and running it changes that window. Each window then behaves as the single window of
  Pin_Controller does, whatever happens in the others.
\<close>

type_synonym browser = nat

record app_strips =
  windows :: "browser \<Rightarrow> strip_world"
  GlueRegistry :: "browser \<rightharpoonup> browser"
  Handlers :: "browser \<rightharpoonup> browser"
  Hooks :: "browser \<rightharpoonup> browser"

definition on_window :: "browser \<Rightarrow> (strip_world \<Rightarrow> strip_world) \<Rightarrow> app_strips \<Rightarrow> app_strips" where
  "on_window g f a = a\<lparr>windows := (windows a)(g := f (windows a g))\<rparr>"

subsection \<open>The registries\<close>

definition SetToggleHandler :: "browser \<Rightarrow> browser \<Rightarrow> app_strips \<Rightarrow> app_strips" where
  "SetToggleHandler b handler a = a\<lparr>Handlers := (Handlers a)(b \<mapsto> handler)\<rparr>"

definition ClearToggleHandler :: "browser \<Rightarrow> app_strips \<Rightarrow> app_strips" where
  "ClearToggleHandler b a = a\<lparr>Handlers := (Handlers a)(b := None)\<rparr>"

definition SetSignalHooks :: "browser \<Rightarrow> browser \<Rightarrow> app_strips \<Rightarrow> app_strips" where
  "SetSignalHooks b hooks a = a\<lparr>Hooks := (Hooks a)(b \<mapsto> hooks)\<rparr>"

definition ClearSignalHooks :: "browser \<Rightarrow> app_strips \<Rightarrow> app_strips" where
  "ClearSignalHooks b a = a\<lparr>Hooks := (Hooks a)(b := None)\<rparr>"

definition ToggleTabStrip_of :: "browser \<Rightarrow> app_strips \<Rightarrow> app_strips" where
  "ToggleTabStrip_of b a = (case Handlers a b of None \<Rightarrow> a | Some g \<Rightarrow> on_window g OnToggleCommand a)"

definition run_hook :: "(strip_world \<Rightarrow> strip_world) \<Rightarrow> browser \<Rightarrow> app_strips \<Rightarrow> app_strips" where
  "run_hook f b a = (case Hooks a b of None \<Rightarrow> a | Some g \<Rightarrow> on_window g f a)"

definition region_view_created :: "browser \<Rightarrow> app_strips \<Rightarrow> app_strips" where
  "region_view_created b a = run_hook AttachRegionView b a"

definition region_view_destroyed :: "browser \<Rightarrow> app_strips \<Rightarrow> app_strips" where
  "region_view_destroyed b a = run_hook DetachRegionView b a"

definition menu_command_executed :: "browser \<Rightarrow> app_strips \<Rightarrow> app_strips" where
  "menu_command_executed b a = run_hook OnCompletedInteraction b a"

text \<open>The patched views pass a pointer that may be null.\<close>

definition user_activation :: "browser option \<Rightarrow> app_strips \<Rightarrow> app_strips" where
  "user_activation b a = (case b of None \<Rightarrow> a | Some b \<Rightarrow> run_hook OnCompletedInteraction b a)"

subsection \<open>The life of a window's glue\<close>

definition TabStripPinControllerViews :: "browser \<Rightarrow> app_strips \<Rightarrow> app_strips" where
  "TabStripPinControllerViews b a =
     (let a1 = on_window b new_glue a;
          a2 = a1\<lparr>GlueRegistry := (GlueRegistry a1)(b \<mapsto> b)\<rparr>;
          a3 = SetToggleHandler b b a2
      in SetSignalHooks b b a3)"

definition destroy_TabStripPinControllerViews :: "browser \<Rightarrow> app_strips \<Rightarrow> app_strips" where
  "destroy_TabStripPinControllerViews b a =
     (let a1 = on_window b DetachRegionView a;
          a2 = ClearSignalHooks b a1;
          a3 = ClearToggleHandler b a2
      in a3\<lparr>GlueRegistry := (GlueRegistry a3)(b := None)\<rparr>)"

subsection \<open>Everything that can happen to the windows\<close>

text \<open>
  A window opens with some outside state; the commands and the patched views' calls go through the
  registries; what a glue observes itself (its region, its handlers, its profile's preferences, its browser)
  reaches it while it lives. A preference of a profile with several windows is one event for each.
\<close>

datatype app_event = Window_opens browser strip_world | Window_closes browser | In_window browser strip_event
  | Activation_of_no_browser

definition region_env :: "bool \<Rightarrow> bool \<Rightarrow> bool \<Rightarrow> bool \<Rightarrow> strip_world \<Rightarrow> strip_world" where
  "region_env widget fm hovered focused w =
     w\<lparr>has_widget := widget, has_focus_manager := fm, mouse_hovered := hovered, focus_in_region := focused,
       other_keep_locks := 0\<rparr>"

definition in_window :: "browser \<Rightarrow> strip_event \<Rightarrow> app_strips \<Rightarrow> app_strips" where
  "in_window b e a = (case e of
      Toggle_command \<Rightarrow> ToggleTabStrip_of b a
    | Menu_executed \<Rightarrow> menu_command_executed b a
    | User_activation \<Rightarrow> user_activation (Some b) a
    | Region_created widget fm hovered focused \<Rightarrow>
        region_view_created b (on_window b (region_env widget fm hovered focused) a)
    | Region_destroyed \<Rightarrow> region_view_destroyed b a
    | _ \<Rightarrow> (case GlueRegistry a b of None \<Rightarrow> a | Some g \<Rightarrow> on_window g (on_event e) a))"

definition app_step :: "app_event \<Rightarrow> app_strips \<Rightarrow> app_strips" where
  "app_step ev a = (case ev of
      Window_opens b w \<Rightarrow> TabStripPinControllerViews b (on_window b (\<lambda>_. w) a)
    | Window_closes b \<Rightarrow> destroy_TabStripPinControllerViews b a
    | In_window b e \<Rightarrow> in_window b e a
    | Activation_of_no_browser \<Rightarrow> user_activation None a)"

text \<open>A window opens where none is, and closes or is acted upon while it is there.\<close>

definition app_possible :: "app_event \<Rightarrow> app_strips \<Rightarrow> bool" where
  "app_possible ev a = (case ev of
      Window_opens b w \<Rightarrow> GlueRegistry a b = None
    | Window_closes b \<Rightarrow> GlueRegistry a b \<noteq> None
    | In_window b e \<Rightarrow> GlueRegistry a b = None \<or> possible e (windows a b)
    | Activation_of_no_browser \<Rightarrow> True)"

definition no_windows :: "(browser \<Rightarrow> strip_world) \<Rightarrow> app_strips" where
  "no_windows ws = \<lparr>windows = ws, GlueRegistry = Map.empty, Handlers = Map.empty, Hooks = Map.empty\<rparr>"

inductive app_reachable :: "app_strips \<Rightarrow> bool" where
  start: "app_reachable (no_windows ws)"
| step: "app_reachable a \<Longrightarrow> app_possible ev a \<Longrightarrow> app_reachable (app_step ev a)"

definition window_of :: "app_event \<Rightarrow> browser option" where
  "window_of ev = (case ev of Window_opens b w \<Rightarrow> Some b | Window_closes b \<Rightarrow> Some b | In_window b e \<Rightarrow> Some b
     | Activation_of_no_browser \<Rightarrow> None)"

subsection \<open>A window's calls leave its registration alone\<close>

lemma release_keeps_registration:
  "handler_set (MaybeUnpin w) = handler_set w \<and> hooks_set (MaybeUnpin w) = hooks_set w"
  "handler_set (ReleaseKeepExpanded w') = handler_set w' \<and> hooks_set (ReleaseKeepExpanded w') = hooks_set w'"
proof (induction w and w' rule: MaybeUnpin_ReleaseKeepExpanded.induct)
  case (1 w)
  then show ?case by (simp add: MaybeUnpin.simps [of w])
next
  case (2 w)
  then show ?case by (simp add: ReleaseKeepExpanded.simps [of w] RemovePinnedHandlers_def)
qed

lemmas registration_kept = release_keeps_registration [THEN conjunct1] release_keeps_registration [THEN conjunct2]

lemma calls_keep_registration [simp]:
  "handler_set (OnLifecycleReset w) = handler_set w" "hooks_set (OnLifecycleReset w) = hooks_set w"
  "handler_set (ExplicitUnpin w) = handler_set w" "hooks_set (ExplicitUnpin w) = hooks_set w"
  "handler_set (OnPointerExit w) = handler_set w" "hooks_set (OnPointerExit w) = hooks_set w"
  "handler_set (OnRoamuxKeepOpenLocksChanged n r w) = handler_set w"
  "hooks_set (OnRoamuxKeepOpenLocksChanged n r w) = hooks_set w"
  by (simp_all add: OnLifecycleReset_def ExplicitUnpin_def OnPointerExit_def ReleaseForceCollapse_def
      OnRoamuxKeepOpenLocksChanged_def OnExternalLockReleased_def AcquireForceCollapse_def ForceCollapseNow_def
      registration_kept Let_def)

lemma shortcut_keeps_registration [simp]:
  "handler_set (OnShortcut m w) = handler_set w" "hooks_set (OnShortcut m w) = hooks_set w"
  by (cases m; simp add: OnShortcut_def FocusStrip_def AcquireKeepExpanded_def InstallPinnedHandlers_def
      ReleaseForceCollapse_def OnRoamuxKeepOpenLocksChanged_def OnExternalLockReleased_def
      ToggleCollapseViaButtonSemantics_def registration_kept Let_def split: option.split)+

lemma detach_keeps_registration [simp]:
  "handler_set (DetachRegionView w) = handler_set w" "hooks_set (DetachRegionView w) = hooks_set w"
  by (simp_all add: DetachRegionView_def OnRegionDetached_def RemovePinnedHandlers_def)

lemma on_event_keeps_registration [simp]:
  "handler_set (on_event e w) = handler_set w" "hooks_set (on_event e w) = hooks_set w"
  by (cases e; simp add: on_event_def observed_def ToggleTabStrip_def OnToggleCommand_def OnFocusChanged_def
      OnVerticalTabStripMenuCommandExecuted_def OnVerticalTabStripUserActivation_def OnCompletedInteraction_def
      OnKeyEvent_def OnEscInStrip_def AcceleratorPressed_def OnFullscreenStateChanged_def
      OnModeRelevantPrefChanged_def UpdateCommandEnablement_def OnVerticalTabStripRegionViewCreated_def
      OnVerticalTabStripRegionViewDestroyed_def AttachRegionView_def registration_kept Let_def)+

lemma new_glue_registers [simp]: "handler_set (new_glue w)" "hooks_set (new_glue w)"
  by (simp_all add: new_glue_def)

subsection \<open>The registries name living glues, each its own\<close>

definition registries_ok :: "app_strips \<Rightarrow> bool" where
  "registries_ok a \<longleftrightarrow> Handlers a = GlueRegistry a \<and> Hooks a = GlueRegistry a \<and>
     (\<forall>b g. GlueRegistry a b = Some g \<longrightarrow> g = b \<and> handler_set (windows a b) \<and> hooks_set (windows a b))"

lemma registries_okD:
  assumes "registries_ok a"
  shows "Handlers a b = GlueRegistry a b" "Hooks a b = GlueRegistry a b"
    "GlueRegistry a b = Some g \<Longrightarrow> g = b \<and> handler_set (windows a b) \<and> hooks_set (windows a b)"
  using assms by (simp_all add: registries_ok_def)

text \<open>Through the registries or not, an event in a living window is the single window's event.\<close>

lemma in_window_live:
  assumes "registries_ok a" and "GlueRegistry a b = Some g"
  shows "in_window b e a = on_window b (on_event e) a"
  using registries_okD(1,2) [OF assms(1), of b] registries_okD(3) [OF assms] assms(2)
  by (cases e) (simp_all add: in_window_def on_window_def on_event_def ToggleTabStrip_of_def ToggleTabStrip_def
      run_hook_def menu_command_executed_def user_activation_def region_view_created_def region_view_destroyed_def
      region_env_def OnVerticalTabStripMenuCommandExecuted_def OnVerticalTabStripUserActivation_def
      OnVerticalTabStripRegionViewCreated_def OnVerticalTabStripRegionViewDestroyed_def)

text \<open>With no glue a window's event changes at most what the next glue resets or the next window replaces.\<close>

lemma in_window_dead:
  assumes "registries_ok a" and "GlueRegistry a b = None"
  shows "in_window b e a = on_window b
    (case e of Region_created widget fm hovered focused \<Rightarrow> region_env widget fm hovered focused | _ \<Rightarrow> (\<lambda>w. w)) a"
  using registries_okD(1,2) [OF assms(1), of b] assms(2)
  by (cases e) (simp_all add: in_window_def on_window_def ToggleTabStrip_of_def run_hook_def
      menu_command_executed_def user_activation_def region_view_created_def region_view_destroyed_def)

lemmas registry_ops = SetToggleHandler_def ClearToggleHandler_def SetSignalHooks_def ClearSignalHooks_def
  TabStripPinControllerViews_def destroy_TabStripPinControllerViews_def on_window_def Let_def

lemma opened_window:
  "app_step (Window_opens b w) a =
     \<lparr>windows = (windows a)(b := new_glue w), GlueRegistry = (GlueRegistry a)(b \<mapsto> b),
      Handlers = (Handlers a)(b \<mapsto> b), Hooks = (Hooks a)(b \<mapsto> b)\<rparr>"
  by (simp add: app_step_def registry_ops)

lemma closed_window:
  "app_step (Window_closes b) a =
     \<lparr>windows = (windows a)(b := DetachRegionView (windows a b)), GlueRegistry = (GlueRegistry a)(b := None),
      Handlers = (Handlers a)(b := None), Hooks = (Hooks a)(b := None)\<rparr>"
  by (simp add: app_step_def registry_ops)

lemma no_browser [simp]: "app_step Activation_of_no_browser a = a"
  by (simp add: app_step_def user_activation_def)

lemma event_in_window:
  assumes "registries_ok a"
  shows "app_step (In_window b e) a =
    (if GlueRegistry a b = None
     then on_window b (case e of Region_created widget fm hovered focused \<Rightarrow> region_env widget fm hovered focused
                       | _ \<Rightarrow> (\<lambda>w. w)) a
     else on_window b (on_event e) a)"
  using in_window_live [OF assms] in_window_dead [OF assms] by (auto simp: app_step_def)

lemma app_step_ok [inv_intros]:
  assumes "registries_ok a"
  shows "registries_ok (app_step ev a)"
proof (cases ev)
  case (In_window b e)
  then show ?thesis
    using assms unfolding In_window event_in_window [OF assms] by (auto simp: registries_ok_def on_window_def)
qed (use assms in \<open>auto simp: opened_window closed_window registries_ok_def\<close>)

lemma app_reachable_ok: "app_reachable a \<Longrightarrow> registries_ok a"
proof (induction rule: app_reachable.induct)
  case (start ws)
  show ?case by (simp add: no_windows_def registries_ok_def)
qed (rule app_step_ok)

subsection \<open>Each window runs alone\<close>

lemma app_step_elsewhere:
  assumes "registries_ok a" and "window_of ev \<noteq> Some c"
  shows "windows (app_step ev a) c = windows a c" "GlueRegistry (app_step ev a) c = GlueRegistry a c"
proof -
  have "windows (app_step ev a) c = windows a c \<and> GlueRegistry (app_step ev a) c = GlueRegistry a c"
  proof (cases ev)
    case (In_window b e)
    then show ?thesis
      using assms(2) unfolding In_window event_in_window [OF assms(1)] by (auto simp: on_window_def window_of_def)
  qed (use assms(2) in \<open>auto simp: opened_window closed_window window_of_def\<close>)
  then show "windows (app_step ev a) c = windows a c" "GlueRegistry (app_step ev a) c = GlueRegistry a c" by auto
qed

lemma live_window_reachable:
  assumes "app_reachable a" and "GlueRegistry a b \<noteq> None"
  shows "\<exists>w0. strip_reachable w0 (windows a b)"
  using assms
proof (induction rule: app_reachable.induct)
  case (start ws)
  then show ?case by (simp add: no_windows_def)
next
  case (step a ev)
  note ok = app_reachable_ok [OF step(1)]
  show ?case
  proof (cases "window_of ev = Some b")
    case False
    then show ?thesis using step app_step_elsewhere [OF ok False] by simp
  next
    case True
    then consider w where "ev = Window_opens b w" | "ev = Window_closes b" | e where "ev = In_window b e"
      by (cases ev) (auto simp: window_of_def)
    then show ?thesis
    proof cases
      case 1
      then show ?thesis by (auto simp: opened_window intro: strip_reachable.created)
    next
      case 2
      then show ?thesis using step.prems by (simp add: closed_window)
    next
      case 3
      have live: "GlueRegistry a b \<noteq> None"
        using step.prems unfolding 3 event_in_window [OF ok] by (auto simp: on_window_def split: if_splits)
      have "possible e (windows a b)" using step.hyps(2) live 3 by (simp add: app_possible_def)
      then show ?thesis
        using step.IH [OF live] live unfolding 3 event_in_window [OF ok]
        by (auto simp: on_window_def intro: strip_reachable.event)
    qed
  qed
qed

text \<open>
  C27: Each window's strip behaves as if it were alone. In every reachable state of the application, with
  windows opening, closing and being acted upon in any order, the toggle handlers and the signal hooks are
  registered for exactly the windows whose glue lives, each for its own; a living window is in a state that
  the single-window strip reaches, and its next event is the single window's step; and an event changes no
  other window.
\<close>

theorem each_window_runs_alone:
  assumes "app_reachable a"
  shows "Handlers a = GlueRegistry a \<and> Hooks a = GlueRegistry a \<and>
    (\<forall>b e. GlueRegistry a b \<noteq> None \<longrightarrow>
       GlueRegistry a b = Some b \<and> (\<exists>w0. strip_reachable w0 (windows a b)) \<and>
       windows (app_step (In_window b e) a) b = on_event e (windows a b)) \<and>
    (\<forall>ev c. window_of ev \<noteq> Some c \<longrightarrow> windows (app_step ev a) c = windows a c)"
proof -
  note ok = app_reachable_ok [OF assms]
  have "GlueRegistry a b = Some b \<and> (\<exists>w0. strip_reachable w0 (windows a b)) \<and>
      windows (app_step (In_window b e) a) b = on_event e (windows a b)" if "GlueRegistry a b \<noteq> None" for b e
    using that registries_okD(3) [OF ok, of b] live_window_reachable [OF assms that]
    unfolding event_in_window [OF ok] by (auto simp: on_window_def)
  then show ?thesis using ok app_step_elsewhere [OF ok] by (auto simp: registries_ok_def)
qed

text \<open>Two windows, the second with its strip docked.\<close>

definition two_windows :: app_strips where
  "two_windows = fold app_step [Window_opens 1 docked, Window_opens 2 docked,
     In_window 2 (Region_created True True True False)] (no_windows (\<lambda>_. docked))"

lemma two_windows_reachable: "app_reachable two_windows"
proof -
  let ?one = "app_step (Window_opens 1 docked) (no_windows (\<lambda>_. docked))"
  let ?two = "app_step (Window_opens 2 docked) ?one"
  have "app_reachable ?one" by (intro app_reachable.intros) (simp add: app_possible_def no_windows_def)
  then have "app_reachable ?two"
    by (rule app_reachable.step) (simp add: app_possible_def opened_window no_windows_def)
  then have "app_reachable (app_step (In_window 2 (Region_created True True True False)) ?two)"
    by (rule app_reachable.step) (simp add: app_possible_def opened_window possible_def new_glue_def)
  then show ?thesis by (simp add: two_windows_def)
qed

lemma two_windows_fields: "GlueRegistry two_windows = [1 \<mapsto> 1, 2 \<mapsto> 2]"
    "windows two_windows = (\<lambda>_. docked)(1 := new_glue docked, 2 := docked_open)"
proof -
  define t where "t = app_step (Window_opens 2 docked) (app_step (Window_opens 1 docked) (no_windows (\<lambda>_. docked)))"
  have ok: "registries_ok t" unfolding t_def by (intro app_step_ok app_reachable_ok [OF app_reachable.start])
  have t: "GlueRegistry t = [1 \<mapsto> 1, 2 \<mapsto> 2]"
    "windows t = (\<lambda>_. docked)(1 := new_glue docked, 2 := new_glue docked)"
    by (simp_all add: t_def opened_window no_windows_def)
  have "two_windows = app_step (In_window 2 (Region_created True True True False)) t"
    by (simp add: two_windows_def t_def)
  then have e: "two_windows = on_window 2 (on_event (Region_created True True True False)) t"
    unfolding event_in_window [OF ok] by (simp add: t(1))
  show "GlueRegistry two_windows = [1 \<mapsto> 1, 2 \<mapsto> 2]"
    "windows two_windows = (\<lambda>_. docked)(1 := new_glue docked, 2 := docked_open)"
    unfolding e on_window_def docked_open_def by (simp_all add: t)
qed

theorem each_window_runs_alone_witness:
  "pinned (windows (app_step (In_window 2 Toggle_command) two_windows) 2) \<and>
   windows (app_step (In_window 2 Toggle_command) two_windows) 1 = new_glue docked"
proof -
  note alone = each_window_runs_alone [OF two_windows_reachable]
  have live: "GlueRegistry two_windows 2 \<noteq> None" by (simp add: two_windows_fields)
  have "windows (app_step (In_window 2 Toggle_command) two_windows) 2 = on_event Toggle_command (windows two_windows 2)"
    using alone live by blast
  moreover have "windows two_windows 2 = docked_open" by (simp only: two_windows_fields fun_upd_same)
  moreover have "window_of (In_window 2 Toggle_command) \<noteq> Some 1" by (simp add: window_of_def)
  then have "windows (app_step (In_window 2 Toggle_command) two_windows) 1 = windows two_windows 1"
    using alone by blast
  moreover have "windows two_windows 1 = new_glue docked" by (simp add: two_windows_fields)
  moreover have "pinned (ToggleTabStrip docked_open)"
    using pin_eq [OF pin_ok_inv [OF strip_reachable_ok [OF docked_open_reachable]] docked_open_fields(4,1)]
    by (simp add: ToggleTabStrip_def OnToggleCommand_def docked_open_fields FocusStrip_def)
  ultimately show ?thesis by (simp only: on_event_def strip_event.case)
qed

end
