(* ===== verification/Coordinator.thy ===== *)
theory Coordinator
  imports Traversal Journal_Service
begin

text \<open>
  The tab-visit navigation of one profile, \<open>roamux/browser/tab_visit/\<close>: the coordinator
  (\<open>tab_visit_traversal_coordinator.cc\<close>), the observer bridge (\<open>tab_visit_observer_bridge.cc\<close> with
  \<open>tab_visit_activation_class.h\<close>), the gesture watcher (\<open>tab_visit_gesture_watcher.cc\<close>), the commands
  and the reopen action (\<open>tab_visit_command.cc\<close>) and the browsing-data clear of
  \<open>settled_visit_journal_factory.cc\<close>. It is the client of the journal service and of the frozen walk.

  The world is the coordinator's fields with the windows it sees. A callback given to the journal
  service is a \<open>continuation\<close>. A tab activation made by the coordinator calls the bridge's handler as
  the strip does. URL parsing, Chromium's restoring of a closed entry and the uid a re-stamped tab
  adopts are arguments (\<open>tv_env\<close>); the last is what theory Tab_Uid proves of adoption.
\<close>

record strip_tab =
  tab_uid :: uid
  tab_url :: gurl

record browser_win =
  win_id :: int
  own_profile :: bool
  type_normal :: bool
  live_tab_context :: bool
  win_tabs :: "strip_tab list"
  win_active :: nat

datatype restore_entry = Tab_entry nat "uid option" | Window_entry "(nat \<times> uid option) list" | Other_entry

datatype continuation = Journal_loaded | Reopenable_loaded int | Resync_then_done nat

record tv_world =
  windows :: "browser_win list"
  focused_window :: "int option"
  closed_entries :: "restore_entry list"
  journal :: "continuation journal_service option"
  tab_visit_nav :: bool
  reopen_pref :: bool
  clock :: time
  ctl :: controller
  settled_uid_log :: "uid list"
  anchor_uid :: uid
  traversal_active :: bool
  journal_loaded :: bool
  command_refreshes :: nat
  reopenable :: "string \<rightharpoonup> TabStateRow"
  recently_reopened :: "string set"
  reopenable_generation :: int
  reopened_url_by_uid :: "uid \<rightharpoonup> string"
  reopen_fn_set :: bool
  debounce_running :: bool
  done_tokens :: "nat list"

record tv_env =
  parse_url :: "string \<Rightarrow> gurl"
  adopted_uid :: "browser_win list \<Rightarrow> uid \<Rightarrow> uid"
  RestoreEntryById :: "int \<Rightarrow> nat \<Rightarrow> browser_win list \<times> restore_entry list \<Rightarrow> browser_win list \<times> restore_entry list"

definition with_journal ::
  "(continuation journal_service \<Rightarrow> continuation journal_service) \<Rightarrow> tv_world \<Rightarrow> tv_world" where
  "with_journal f w = (case journal w of None \<Rightarrow> w | Some j \<Rightarrow> w\<lparr>journal := Some (f j)\<rparr>)"

subsection \<open>The log and the reopenable rows\<close>

definition OnReachabilityMaybeChanged :: "tv_world \<Rightarrow> tv_world" where
  "OnReachabilityMaybeChanged w =
     (if journal_loaded w then w\<lparr>command_refreshes := command_refreshes w + 1\<rparr> else w)"

text \<open>A watcher's callback runs at once when the journal is loaded, else it is added to the list.\<close>

definition AddJournalLoadedCallback :: "tv_world \<Rightarrow> bool \<times> tv_world" where
  "AddJournalLoadedCallback w =
     (if journal_loaded w then (False, w\<lparr>command_refreshes := command_refreshes w + 1\<rparr>) else (True, w))"

definition RecordSettledUid :: "uid \<Rightarrow> tv_world \<Rightarrow> tv_world" where
  "RecordSettledUid u w =
     (if u = [] then w
      else if settled_uid_log w \<noteq> [] \<and> last (settled_uid_log w) = u then w
      else w\<lparr>settled_uid_log := settled_uid_log w @ [u]\<rparr>)"

definition coalesce :: "uid list \<Rightarrow> uid list" where
  "coalesce us = fold (\<lambda>u acc. snoc_coalesced acc u) us []"

definition OnJournalLoaded :: "VisitRow list \<Rightarrow> tv_world \<Rightarrow> tv_world" where
  "OnJournalLoaded rows w =
     (let merged = filter (\<lambda>u. u \<noteq> []) (map vr_tab_uid rows) @ settled_uid_log w
      in w\<lparr>settled_uid_log := coalesce merged, journal_loaded := True,
           command_refreshes := command_refreshes w + 1\<rparr>)"

definition AddReopenable :: "TabStateRow \<Rightarrow> tv_world \<Rightarrow> tv_world" where
  "AddReopenable row w =
     (if restore_key row = [] then w
      else OnReachabilityMaybeChanged
        (w\<lparr>recently_reopened := recently_reopened w - {restore_key row},
           reopenable := (reopenable w)(restore_key row \<mapsto> row)\<rparr>))"

definition keep_row :: "TabStateRow \<Rightarrow> tv_world \<Rightarrow> tv_world" where
  "keep_row row w =
     (if \<not> ts_closed row \<or> restore_key row = [] \<or> restore_key row \<in> recently_reopened w \<or>
         reopenable w (restore_key row) \<noteq> None then w
      else w\<lparr>reopenable := (reopenable w)(restore_key row \<mapsto> row)\<rparr>)"

definition OnReopenableLoaded :: "int \<Rightarrow> TabStateRow list \<Rightarrow> tv_world \<Rightarrow> tv_world" where
  "OnReopenableLoaded generation rows w =
     (if generation \<noteq> reopenable_generation w then w
      else OnReachabilityMaybeChanged (fold keep_row rows w))"

definition LoadReopenableFromSidecar :: "tv_world \<Rightarrow> tv_world" where
  "LoadReopenableFromSidecar w =
     (case journal w of
        None \<Rightarrow> w
      | Some j \<Rightarrow>
          let (replies, j') = GetAllTabStates (Reopenable_loaded (reopenable_generation w)) j
          in fold (\<lambda>r w. case r of TabStates_reply (Reopenable_loaded g) rows \<Rightarrow> OnReopenableLoaded g rows w | _ \<Rightarrow> w)
               replies (w\<lparr>journal := Some j'\<rparr>))"

definition LoadPersistedJournal :: "tv_world \<Rightarrow> tv_world" where
  "LoadPersistedJournal w =
     (case journal w of
        None \<Rightarrow> OnJournalLoaded [] w
      | Some j \<Rightarrow>
          let (replies, j') = GetVisits Journal_loaded j;
              w1 = fold (\<lambda>r w. case r of Visits_reply Journal_loaded rows \<Rightarrow> OnJournalLoaded rows w | _ \<Rightarrow> w)
                     replies (w\<lparr>journal := Some j'\<rparr>)
          in LoadReopenableFromSidecar w1)"

subsection \<open>The bridge\<close>

datatype TabActivationChange = kSelectionOnly | kInserted | kRemoved | kMoved | kReplaced

definition ShouldCommitActivation :: "TabActivationChange \<Rightarrow> bool \<Rightarrow> bool" where
  "ShouldCommitActivation type active_tab_changed \<longleftrightarrow> active_tab_changed \<and> type = kSelectionOnly"

text \<open>A tab of a removal: whether the reason deletes it, its uid, its window and its URL.\<close>

record removed_tab =
  will_delete :: bool
  removed_uid :: uid
  removed_window :: int
  removed_url :: gurl

record strip_change =
  change_type :: TabActivationChange
  removed :: "removed_tab list"
  active_changed :: bool
  new_contents :: "strip_tab option"

definition closed_row :: "removed_tab \<Rightarrow> TabStateRow" where
  "closed_row r = \<lparr>restore_key = removed_uid r, ts_closed = True, window_id = removed_window r,
                   last_known_url = url_spec (removed_url r)\<rparr>"

definition persist_closed_tab :: "removed_tab \<Rightarrow> tv_world \<Rightarrow> tv_world" where
  "persist_closed_tab r w =
     (if \<not> will_delete r \<or> removed_uid r = [] then w
      else with_journal (SetTabState (closed_row r)) (AddReopenable (closed_row r) w))"

definition PersistClosedTabsToSidecar :: "strip_change \<Rightarrow> tv_world \<Rightarrow> tv_world" where
  "PersistClosedTabsToSidecar change w = fold persist_closed_tab (removed change) w"

definition OnTabStripModelChanged :: "strip_change \<Rightarrow> tv_world \<Rightarrow> tv_world" where
  "OnTabStripModelChanged change w =
     (let w1 = (if journal w \<noteq> None \<and> change_type change = kRemoved then PersistClosedTabsToSidecar change w else w);
          w2 = (if change_type change = kInserted \<or> change_type change = kRemoved
                then OnReachabilityMaybeChanged w1 else w1)
      in if \<not> ShouldCommitActivation (change_type change) (active_changed change) then w2
         else (case new_contents change of
                 None \<Rightarrow> w2
               | Some t \<Rightarrow>
                   if traversal_active w2 then w2
                   else let w3 = (if tab_uid t \<noteq> [] then RecordSettledUid (tab_uid t) w2 else w2)
                        in if \<not> IsRecordableVisitUrl (tab_url t) then w3
                           else with_journal (RecordVisit (tab_uid t) (tab_url t) (clock w3)) w3))"

definition ShouldTrackBrowser :: "browser_win \<Rightarrow> bool" where
  "ShouldTrackBrowser b \<longleftrightarrow> own_profile b \<and> type_normal b"

subsection \<open>Resolving uids to tabs\<close>

definition CollectLiveUids :: "tv_world \<Rightarrow> uid set" where
  "CollectLiveUids w =
     set (filter (\<lambda>u. u \<noteq> []) (concat (map (\<lambda>b. map tab_uid (win_tabs b)) (filter own_profile (windows w)))))"

fun find_tab :: "uid \<Rightarrow> strip_tab list \<Rightarrow> nat \<Rightarrow> nat option" where
  "find_tab u [] i = None"
| "find_tab u (t # ts) i = (if tab_uid t = u then Some i else find_tab u ts (i + 1))"

fun find_location :: "uid \<Rightarrow> browser_win list \<Rightarrow> nat \<Rightarrow> (nat \<times> nat) option" where
  "find_location u [] i = None"
| "find_location u (b # bs) i =
     (if \<not> own_profile b then find_location u bs (i + 1)
      else (case find_tab u (win_tabs b) 0 of
              Some j \<Rightarrow> Some (i, j)
            | None \<Rightarrow> find_location u bs (i + 1)))"

definition ResolveUid :: "uid \<Rightarrow> tv_world \<Rightarrow> (nat \<times> nat) option" where
  "ResolveUid u w = (if u = [] then None else find_location u (windows w) 0)"

definition tab_at :: "nat \<times> nat \<Rightarrow> tv_world \<Rightarrow> strip_tab" where
  "tab_at loc w = win_tabs (windows w ! fst loc) ! snd loc"

text \<open>
  \<open>ActivateTabAt\<close> selects the tab and, if the active tab changed, notifies the strip's observers; the
  window is then activated. The bridge tracks normal windows only.
\<close>

definition ActivateLocation :: "nat \<times> nat \<Rightarrow> tv_world \<Rightarrow> tv_world" where
  "ActivateLocation loc w =
     (let b = windows w ! fst loc;
          w1 = w\<lparr>windows := (windows w)[fst loc := b\<lparr>win_active := snd loc\<rparr>]\<rparr>;
          w2 = (if ShouldTrackBrowser b \<and> win_active b \<noteq> snd loc
                then OnTabStripModelChanged \<lparr>change_type = kSelectionOnly, removed = [], active_changed = True,
                       new_contents = Some (tab_at loc w)\<rparr> w1
                else w1)
      in w2\<lparr>focused_window := Some (win_id b)\<rparr>)"

definition CollectReachableUids :: "tv_world \<Rightarrow> uid set" where
  "CollectReachableUids w = CollectLiveUids w \<union> (if reopen_pref w then dom (reopenable w) else {})"

definition co_CanGoBack :: "tv_world \<Rightarrow> bool" where
  "co_CanGoBack w =
     (if traversal_active w then CanGoBack (ctl w)
      else CanBeginBackTraversal (settled_uid_log w) (CollectReachableUids w))"

definition co_CanGoForward :: "tv_world \<Rightarrow> bool" where
  "co_CanGoForward w \<longleftrightarrow> traversal_active w \<and> CanGoForward (ctl w)"

subsection \<open>Reopening a closed tab\<close>

fun first_index :: "('a \<Rightarrow> bool) \<Rightarrow> 'a list \<Rightarrow> nat \<Rightarrow> nat option" where
  "first_index P [] i = None"
| "first_index P (x # xs) i = (if P x then Some i else first_index P xs (i + 1))"

definition ReopenTargetWindow :: "TabStateRow \<Rightarrow> tv_world \<Rightarrow> nat option" where
  "ReopenTargetWindow row w =
     (let eligible_win = (\<lambda>b. own_profile b \<and> type_normal b)
      in case first_index (\<lambda>b. eligible_win b \<and> window_id row \<noteq> 0 \<and> win_id b = window_id row) (windows w) 0 of
           Some i \<Rightarrow> Some i
         | None \<Rightarrow> first_index eligible_win (windows w) 0)"

fun find_entry :: "uid \<Rightarrow> restore_entry list \<Rightarrow> nat option" where
  "find_entry u [] = None"
| "find_entry u (Tab_entry i x # es) = (if x = Some u then Some i else find_entry u es)"
| "find_entry u (Window_entry ts # es) =
     (case List.find (\<lambda>(i, x). x = Some u) ts of Some (i, _) \<Rightarrow> Some i | None \<Rightarrow> find_entry u es)"
| "find_entry u (Other_entry # es) = find_entry u es"

definition blank_url :: gurl where
  "blank_url = \<lparr>url_valid = False, url_spec = [], url_scheme = [], url_host = [], url_about_blank = False\<rparr>"

definition tab_inserted :: strip_change where
  "tab_inserted = \<lparr>change_type = kInserted, removed = [], active_changed = True, new_contents = None\<rparr>"

definition ReopenClosedTabByUid :: "tv_env \<Rightarrow> nat \<Rightarrow> uid \<Rightarrow> string \<Rightarrow> tv_world \<Rightarrow> bool \<times> tv_world" where
  "ReopenClosedTabByUid env target u last_known w =
     (let b = windows w ! target
      in if u = [] then (False, w)
         else if \<not> live_tab_context b then (False, w)
         else (case find_entry u (closed_entries w) of
                 Some i \<Rightarrow>
                   let (ws, es) = RestoreEntryById env (win_id b) i (windows w, closed_entries w)
                   in (True, OnTabStripModelChanged tab_inserted (w\<lparr>windows := ws, closed_entries := es\<rparr>))
               | None \<Rightarrow>
                   if \<not> url_valid (parse_url env last_known) then (False, w)
                   else let t = \<lparr>tab_uid = adopted_uid env (windows w) u, tab_url = blank_url\<rparr>;
                            b' = b\<lparr>win_tabs := win_tabs b @ [t], win_active := length (win_tabs b)\<rparr>
                        in (True, OnTabStripModelChanged tab_inserted (w\<lparr>windows := (windows w)[target := b']\<rparr>))))"

definition RebindSidecar :: "TabStateRow \<Rightarrow> tv_world \<Rightarrow> tv_world" where
  "RebindSidecar row w =
     with_journal (SetTabState (row\<lparr>ts_closed := False\<rparr>))
       (w\<lparr>reopenable := (reopenable w)(restore_key row := None),
          recently_reopened := insert (restore_key row) (recently_reopened w)\<rparr>)"

definition TryReopenClosedUid :: "tv_env \<Rightarrow> uid \<Rightarrow> tv_world \<Rightarrow> bool \<times> tv_world" where
  "TryReopenClosedUid env u w =
     (if \<not> reopen_pref w \<or> \<not> reopen_fn_set w then (False, w)
      else (case reopenable w u of
              None \<Rightarrow> (False, w)
            | Some row \<Rightarrow>
                (case ReopenTargetWindow row w of
                   None \<Rightarrow> (False, w)
                 | Some target \<Rightarrow>
                     let (ok, w1) = ReopenClosedTabByUid env target u (last_known_url row) w
                     in if \<not> ok then (False, w1)
                        else (True, RebindSidecar row
                               (w1\<lparr>reopened_url_by_uid := (reopened_url_by_uid w1)(u \<mapsto> last_known_url row)\<rparr>)))))"

definition resolve_or_reopen :: "tv_env \<Rightarrow> uid \<Rightarrow> tv_world \<Rightarrow> (nat \<times> nat) option \<times> tv_world" where
  "resolve_or_reopen env u w =
     (case ResolveUid u w of
        Some loc \<Rightarrow> (Some loc, w)
      | None \<Rightarrow> (let (ok, w1) = TryReopenClosedUid env u w in (if ok then ResolveUid u w1 else None, w1)))"

subsection \<open>The gesture\<close>

definition EnsureGesture :: "tv_world \<Rightarrow> tv_world" where
  "EnsureGesture w =
     (if traversal_active w then w
      else w\<lparr>anchor_uid := (if settled_uid_log w = [] then [] else last (settled_uid_log w)),
             ctl := BeginGesture (settled_uid_log w) (CollectReachableUids w) (ctl w),
             traversal_active := True\<rparr>)"

definition StepAndActivate :: "tv_env \<Rightarrow> bool \<Rightarrow> tv_world \<Rightarrow> tv_world" where
  "StepAndActivate env forward w =
     (let (landing, c) = (if forward then Forward (ctl w) else Back (ctl w));
          w1 = w\<lparr>ctl := c\<rparr>;
          w2 = (case landing of
                  None \<Rightarrow> w1
                | Some u \<Rightarrow>
                    let (loc, w') = resolve_or_reopen env u w1
                    in (case loc of Some l \<Rightarrow> ActivateLocation l w' | None \<Rightarrow> w'))
      in w2\<lparr>debounce_running := True\<rparr>)"

definition StepBack :: "tv_env \<Rightarrow> tv_world \<Rightarrow> tv_world" where
  "StepBack env w =
     (if \<not> tab_visit_nav w then w
      else if \<not> co_CanGoBack w then w
      else StepAndActivate env False (EnsureGesture w))"

definition StepForward :: "tv_env \<Rightarrow> tv_world \<Rightarrow> tv_world" where
  "StepForward env w =
     (if \<not> tab_visit_nav w then w
      else if \<not> co_CanGoForward w then w
      else StepAndActivate env True (EnsureGesture w))"

text \<open>The one commit of a gesture: the landed tab, with the URL known when the tab was closed as a fallback.\<close>

definition commit_landing :: "tv_env \<Rightarrow> uid \<Rightarrow> nat \<times> nat \<Rightarrow> tv_world \<Rightarrow> tv_world" where
  "commit_landing env u loc w =
     (let w1 = RecordSettledUid u (ActivateLocation loc w);
          committed = tab_url (tab_at loc w1);
          url = (if \<not> IsRecordableVisitUrl committed
                 then (case reopened_url_by_uid w1 u of Some s \<Rightarrow> parse_url env s | None \<Rightarrow> committed)
                 else committed)
      in if IsRecordableVisitUrl url then with_journal (RecordVisit u url (clock w1)) w1 else w1)"

definition Settle :: "tv_env \<Rightarrow> tv_world \<Rightarrow> tv_world" where
  "Settle env w =
     (if \<not> traversal_active w then w
      else let (landed, c) = ctl_Settle (ctl w);
               w1 = w\<lparr>debounce_running := False, ctl := c\<rparr>;
               w2 = (case landed of
                       None \<Rightarrow> w1
                     | Some u \<Rightarrow>
                         if u = anchor_uid w1 then w1
                         else let (loc, w') = resolve_or_reopen env u w1
                              in (case loc of Some l \<Rightarrow> commit_landing env u l w' | None \<Rightarrow> w'))
           in w2\<lparr>reopened_url_by_uid := Map.empty, traversal_active := False\<rparr>)"

definition CancelGesture :: "tv_world \<Rightarrow> tv_world" where
  "CancelGesture w =
     (let w1 = w\<lparr>debounce_running := False\<rparr>
      in if traversal_active w1
         then w1\<lparr>ctl := snd (ctl_Settle (ctl w1)), reopened_url_by_uid := Map.empty, traversal_active := False\<rparr>
         else w1)"

definition co_Shutdown :: "tv_world \<Rightarrow> tv_world" where
  "co_Shutdown w = CancelGesture w"

definition SetReopenFn :: "tv_world \<Rightarrow> tv_world" where
  "SetReopenFn w = w\<lparr>reopen_fn_set := True\<rparr>"

subsection \<open>Clearing browsing data\<close>

definition PrepareForBrowsingDataClear :: "tv_world \<Rightarrow> tv_world" where
  "PrepareForBrowsingDataClear w =
     (let w1 = CancelGesture w
      in w1\<lparr>reopenable := Map.empty, reopened_url_by_uid := Map.empty,
            reopenable_generation := reopenable_generation w1 + 1\<rparr>)"

definition OnBrowsingDataCleared :: "tv_world \<Rightarrow> tv_world" where
  "OnBrowsingDataCleared w = OnReachabilityMaybeChanged (LoadReopenableFromSidecar w)"

definition ResyncCoordinatorThenDone :: "nat \<Rightarrow> tv_world \<Rightarrow> tv_world" where
  "ResyncCoordinatorThenDone token w =
     (let w1 = OnBrowsingDataCleared w in w1\<lparr>done_tokens := done_tokens w1 @ [token]\<rparr>)"

definition ClearJournalForBrowsingData :: "time \<Rightarrow> time \<Rightarrow> nat \<Rightarrow> tv_world \<Rightarrow> tv_world" where
  "ClearJournalForBrowsingData begin_t end_t token w =
     (case journal w of
        None \<Rightarrow> w\<lparr>done_tokens := done_tokens w @ [token]\<rparr>
      | Some j \<Rightarrow>
          let w1 = PrepareForBrowsingDataClear w;
              (replies, j') = ClearBrowsingData begin_t end_t (Resync_then_done token) j
          in fold (\<lambda>r w. case r of Done_reply (Resync_then_done d) \<Rightarrow> ResyncCoordinatorThenDone d w | _ \<Rightarrow> w)
               replies (w1\<lparr>journal := Some j'\<rparr>))"

text \<open>A reply the store sequence posted, run on the profile's own sequence.\<close>

definition run_reply :: "continuation reply \<Rightarrow> tv_world \<Rightarrow> tv_world" where
  "run_reply r w =
     (case r of
        Visits_reply Journal_loaded rows \<Rightarrow> OnJournalLoaded rows w
      | TabStates_reply (Reopenable_loaded g) rows \<Rightarrow> OnReopenableLoaded g rows w
      | Done_reply (Resync_then_done d) \<Rightarrow> ResyncCoordinatorThenDone d w
      | _ \<Rightarrow> w)"

definition deliver :: "tv_world \<Rightarrow> tv_world" where
  "deliver w =
     (case journal w of
        None \<Rightarrow> w
      | Some j \<Rightarrow> (case outbox j of [] \<Rightarrow> w | r # rs \<Rightarrow> run_reply r (w\<lparr>journal := Some (j\<lparr>outbox := rs\<rparr>)\<rparr>)))"

subsection \<open>The watcher and the commands\<close>

definition OnEvent :: "tv_env \<Rightarrow> bool \<Rightarrow> bool \<Rightarrow> bool \<Rightarrow> tv_world \<Rightarrow> tv_world" where
  "OnEvent env pressed escape chord_held w =
     (if \<not> traversal_active w then w
      else if pressed \<and> escape then (let w1 = CancelGesture w in w1\<lparr>command_refreshes := command_refreshes w1 + 1\<rparr>)
      else if \<not> chord_held then (let w1 = Settle env w in w1\<lparr>command_refreshes := command_refreshes w1 + 1\<rparr>)
      else w)"

definition CoordinatorFor :: "bool \<Rightarrow> tv_world \<Rightarrow> tv_world option" where
  "CoordinatorFor browser w =
     (if \<not> browser \<or> \<not> tab_visit_nav w then None
      else Some (if reopen_fn_set w then w else SetReopenFn w))"

definition CanTabVisitBack :: "bool \<Rightarrow> tv_world \<Rightarrow> bool" where
  "CanTabVisitBack browser w = (case CoordinatorFor browser w of None \<Rightarrow> False | Some c \<Rightarrow> co_CanGoBack c)"

definition CanTabVisitForward :: "bool \<Rightarrow> tv_world \<Rightarrow> bool" where
  "CanTabVisitForward browser w = (case CoordinatorFor browser w of None \<Rightarrow> False | Some c \<Rightarrow> co_CanGoForward c)"

definition TabVisitBack :: "tv_env \<Rightarrow> bool \<Rightarrow> tv_world \<Rightarrow> tv_world" where
  "TabVisitBack env browser w = (case CoordinatorFor browser w of None \<Rightarrow> w | Some c \<Rightarrow> StepBack env c)"

definition TabVisitForward :: "tv_env \<Rightarrow> bool \<Rightarrow> tv_world \<Rightarrow> tv_world" where
  "TabVisitForward env browser w = (case CoordinatorFor browser w of None \<Rightarrow> w | Some c \<Rightarrow> StepForward env c)"

text \<open>The coordinator of a new profile, in a world of windows and a journal service.\<close>

definition TabVisitTraversalCoordinator :: "tv_world \<Rightarrow> tv_world" where
  "TabVisitTraversalCoordinator w =
     w\<lparr>ctl := new_controller, settled_uid_log := [], anchor_uid := [], traversal_active := False,
       journal_loaded := False, reopenable := Map.empty, recently_reopened := {}, reopenable_generation := 0,
       reopened_url_by_uid := Map.empty, reopen_fn_set := False, debounce_running := False\<rparr>"

subsection \<open>What each operation leaves alone\<close>

text \<open>The gesture's part of the state.\<close>

definition gesture_part :: "tv_world \<Rightarrow> uid list \<times> bool \<times> controller \<times> bool \<times> uid" where
  "gesture_part w = (settled_uid_log w, traversal_active w, ctl w, debounce_running w, anchor_uid w)"

lemma gesture_part_fields:
  assumes "gesture_part w' = gesture_part w"
  shows "settled_uid_log w' = settled_uid_log w" "traversal_active w' = traversal_active w" "ctl w' = ctl w"
    "debounce_running w' = debounce_running w" "anchor_uid w' = anchor_uid w"
  using assms by (simp_all add: gesture_part_def)

lemma gesture_part_with_journal [simp]: "gesture_part (with_journal f w) = gesture_part w"
  by (simp add: gesture_part_def with_journal_def split: option.split)

lemma gesture_part_Reach [simp]: "gesture_part (OnReachabilityMaybeChanged w) = gesture_part w"
  by (simp add: gesture_part_def OnReachabilityMaybeChanged_def)

lemma gesture_part_AddReopenable [simp]: "gesture_part (AddReopenable r w) = gesture_part w"
  by (simp add: AddReopenable_def) (simp add: gesture_part_def)

lemma gesture_part_persist [simp]: "gesture_part (persist_closed_tab r w) = gesture_part w"
  by (simp add: persist_closed_tab_def)

lemma gesture_part_Persist [simp]: "gesture_part (PersistClosedTabsToSidecar c w) = gesture_part w"
proof -
  have "gesture_part (fold persist_closed_tab rs w) = gesture_part w" for rs
    by (induction rs arbitrary: w) simp_all
  then show ?thesis by (simp add: PersistClosedTabsToSidecar_def)
qed

lemma gesture_part_keep_row [simp]: "gesture_part (keep_row r w) = gesture_part w"
  by (simp add: keep_row_def gesture_part_def)

lemma gesture_part_fold_keep [simp]: "gesture_part (fold keep_row rs w) = gesture_part w"
  by (induction rs arbitrary: w) simp_all

lemma gesture_part_OnReopenableLoaded [simp]: "gesture_part (OnReopenableLoaded g rs w) = gesture_part w"
  by (simp add: OnReopenableLoaded_def)

lemma LoadReopenable_cases:
  "LoadReopenableFromSidecar w =
     (case journal w of None \<Rightarrow> w
      | Some j \<Rightarrow> if store_bound j
          then w\<lparr>journal := Some (AsyncCall (ReadTabStates_task (Reopenable_loaded (reopenable_generation w))) j)\<rparr>
          else OnReopenableLoaded (reopenable_generation w) [] w)"
proof (cases "journal w")
  case (Some j)
  then have "w\<lparr>journal := Some j\<rparr> = w" by (cases w) simp
  then have "OnReopenableLoaded g [] (w\<lparr>journal := Some j\<rparr>) = OnReopenableLoaded g [] w" for g by (rule arg_cong)
  then show ?thesis using Some by (simp add: LoadReopenableFromSidecar_def GetAllTabStates_def)
qed (simp add: LoadReopenableFromSidecar_def)

lemma gesture_part_journal [simp]: "gesture_part (w\<lparr>journal := x\<rparr>) = gesture_part w"
  by (simp add: gesture_part_def)

lemma gesture_part_LoadReopenable [simp]: "gesture_part (LoadReopenableFromSidecar w) = gesture_part w"
  by (simp add: LoadReopenable_cases split: option.split)

lemma gesture_part_change:
  "traversal_active w \<or> change_type c \<noteq> kSelectionOnly \<Longrightarrow> gesture_part (OnTabStripModelChanged c w) = gesture_part w"
proof -
  define w2 where "w2 = (let w1 = (if journal w \<noteq> None \<and> change_type c = kRemoved then PersistClosedTabsToSidecar c w else w)
    in if change_type c = kInserted \<or> change_type c = kRemoved then OnReachabilityMaybeChanged w1 else w1)"
  have "gesture_part w2 = gesture_part w" by (simp add: w2_def Let_def)
  moreover assume "traversal_active w \<or> change_type c \<noteq> kSelectionOnly"
  ultimately show ?thesis
    unfolding OnTabStripModelChanged_def Let_def w2_def [unfolded Let_def, symmetric]
    by (auto simp: ShouldCommitActivation_def gesture_part_def split: option.split)
qed

lemma gesture_part_windows [simp]: "gesture_part (w\<lparr>windows := x\<rparr>) = gesture_part w"
  "gesture_part (w\<lparr>closed_entries := y\<rparr>) = gesture_part w" "gesture_part (w\<lparr>focused_window := z\<rparr>) = gesture_part w"
  by (simp_all add: gesture_part_def)

lemma gesture_part_Reopen: "gesture_part (snd (ReopenClosedTabByUid env i u s w)) = gesture_part w"
  by (auto simp: ReopenClosedTabByUid_def Let_def gesture_part_change tab_inserted_def split: option.split prod.split)

lemma gesture_part_Rebind [simp]: "gesture_part (RebindSidecar row w) = gesture_part w"
  by (simp add: RebindSidecar_def) (simp add: gesture_part_def)

lemma gesture_part_TryReopen: "gesture_part (snd (TryReopenClosedUid env u w)) = gesture_part w"
proof -
  have "gesture_part w2 = gesture_part w1 \<Longrightarrow> gesture_part (w2\<lparr>reopened_url_by_uid := x\<rparr>) = gesture_part w1" for w1 w2 x
    by (simp add: gesture_part_def)
  moreover have "gesture_part w2 = gesture_part w" if "ReopenClosedTabByUid env i u s w = (b, w2)" for i s b w2
    using gesture_part_Reopen [of env i u s w] that by simp
  ultimately show ?thesis
    by (auto simp: TryReopenClosedUid_def Let_def split: option.split prod.split)
qed

lemma gesture_part_resolve: "resolve_or_reopen env u w = (loc, w') \<Longrightarrow> gesture_part w' = gesture_part w"
  using gesture_part_TryReopen [of env u w]
  by (auto simp: resolve_or_reopen_def split: option.splits prod.splits)

lemma gesture_part_Activate: "traversal_active w \<Longrightarrow> gesture_part (ActivateLocation loc w) = gesture_part w"
  by (simp add: ActivateLocation_def Let_def gesture_part_change)

subsection \<open>What each operation posts to the store\<close>

definition posts :: "(continuation store_task \<Rightarrow> bool) \<Rightarrow> tv_world \<Rightarrow> tv_world \<Rightarrow> bool" where
  "posts P w w' \<longleftrightarrow> reopenable_generation w' = reopenable_generation w \<and>
     (\<exists>ts. list_all P ts \<and> journal w' = map_option (\<lambda>j. j\<lparr>queue := queue j @ ts\<rparr>) (journal w))"

lemma posts_refl [simp]: "posts P w w"
  unfolding posts_def by (auto intro: exI [of _ "[]"] simp: option.map_ident)

lemma posts_trans: "posts P a b \<Longrightarrow> posts P b c \<Longrightarrow> posts P a c"
proof -
  assume ab: "posts P a b" and bc: "posts P b c"
  obtain ts where ts: "list_all P ts" "journal b = map_option (\<lambda>j. j\<lparr>queue := queue j @ ts\<rparr>) (journal a)"
    using ab unfolding posts_def by blast
  obtain us where us: "list_all P us" "journal c = map_option (\<lambda>j. j\<lparr>queue := queue j @ us\<rparr>) (journal b)"
    using bc unfolding posts_def by blast
  have "journal c = map_option (\<lambda>j. j\<lparr>queue := queue j @ ts @ us\<rparr>) (journal a)"
    unfolding us(2) ts(2) by (simp add: option.map_comp comp_def)
  moreover have "list_all P (ts @ us)" using ts(1) us(1) by simp
  moreover have "reopenable_generation c = reopenable_generation a" using ab bc by (simp add: posts_def)
  ultimately show ?thesis unfolding posts_def by blast
qed

lemma posts_mono: "posts P w w' \<Longrightarrow> (\<And>t. P t \<Longrightarrow> Q t) \<Longrightarrow> posts Q w w'"
proof -
  assume p: "posts P w w'" and q: "\<And>t. P t \<Longrightarrow> Q t"
  obtain ts where ts: "list_all P ts" "journal w' = map_option (\<lambda>j. j\<lparr>queue := queue j @ ts\<rparr>) (journal w)"
    using p unfolding posts_def by blast
  have "list_all Q ts" using ts(1) q by (simp add: list_all_iff)
  then show ?thesis using p ts(2) unfolding posts_def by blast
qed

lemma posts_same: "journal w' = journal w \<Longrightarrow> reopenable_generation w' = reopenable_generation w \<Longrightarrow> posts P w w'"
  unfolding posts_def by (auto intro: exI [of _ "[]"] simp: option.map_ident)

fun is_upsert :: "continuation store_task \<Rightarrow> bool" where
  "is_upsert (Upsert_task _) = True" | "is_upsert _ = False"

fun is_append :: "continuation store_task \<Rightarrow> bool" where
  "is_append (Append_task _ _ _) = True" | "is_append _ = False"

lemma posts_SetTabState: "posts is_upsert w (with_journal (SetTabState row) w)"
  unfolding posts_def with_journal_def
  by (cases "journal w") (auto simp: SetTabState_def AsyncCall_def intro: exI [of _ "[]"] exI [of _ "[Upsert_task row]"])

lemma posts_RecordVisit: "posts is_append w (with_journal (RecordVisit u url t) w)"
  unfolding posts_def with_journal_def
  by (cases "journal w") (auto simp: RecordVisit_def AsyncCall_def intro: exI [of _ "[]"] exI [of _ "[Append_task u (url_spec url) t]"])

text \<open>
  The reopenable rows are well formed: filed under their own uid, closed, and not reopened since.
\<close>

definition rows_ok :: "tv_world \<Rightarrow> bool" where
  "rows_ok w \<longleftrightarrow> (\<forall>u row. reopenable w u = Some row \<longrightarrow>
     restore_key row = u \<and> u \<noteq> [] \<and> ts_closed row \<and> u \<notin> recently_reopened w)"

text \<open>
  An operation is calm when it posts only sidecar rows, makes nothing new reopenable and keeps the
  rows well formed.
\<close>

definition calm :: "tv_world \<Rightarrow> tv_world \<Rightarrow> bool" where
  "calm w w' \<longleftrightarrow> posts is_upsert w w' \<and> dom (reopenable w') \<subseteq> dom (reopenable w) \<and> (rows_ok w \<longrightarrow> rows_ok w')"

lemma calm_refl [simp]: "calm w w" by (simp add: calm_def)

lemma calm_trans: "calm a b \<Longrightarrow> calm b c \<Longrightarrow> calm a c"
  unfolding calm_def using posts_trans by blast

lemma calm_same:
  "journal w' = journal w \<Longrightarrow> reopenable_generation w' = reopenable_generation w \<Longrightarrow>
   reopenable w' = reopenable w \<Longrightarrow> recently_reopened w' = recently_reopened w \<Longrightarrow> calm w w'"
  by (simp add: calm_def posts_same rows_ok_def)

lemma calm_Reach [simp]: "calm w (OnReachabilityMaybeChanged w)"
  by (rule calm_same) (simp_all add: OnReachabilityMaybeChanged_def)

lemma calm_change:
  assumes "traversal_active w \<or> change_type c \<noteq> kSelectionOnly" and "change_type c \<noteq> kRemoved"
  shows "calm w (OnTabStripModelChanged c w)"
proof -
  have "OnTabStripModelChanged c w = w \<or> OnTabStripModelChanged c w = OnReachabilityMaybeChanged w"
    using assms by (auto simp: OnTabStripModelChanged_def ShouldCommitActivation_def split: option.split)
  then show ?thesis by (elim disjE) (simp_all only: calm_refl calm_Reach)
qed

lemma calm_Activate: "traversal_active w \<Longrightarrow> calm w (ActivateLocation loc w)"
proof -
  assume a: "traversal_active w"
  define b where "b = windows w ! fst loc"
  define w1 where "w1 = w\<lparr>windows := (windows w)[fst loc := b\<lparr>win_active := snd loc\<rparr>]\<rparr>"
  have 1: "calm w w1" by (rule calm_same) (simp_all add: w1_def)
  have 2: "calm w1 (OnTabStripModelChanged c w1)" if "change_type c = kSelectionOnly" for c
    using a that by (intro calm_change) (simp_all add: w1_def)
  have 3: "calm x (x\<lparr>focused_window := f\<rparr>)" for x f by (rule calm_same) simp_all
  show ?thesis
    unfolding ActivateLocation_def Let_def b_def [symmetric] w1_def [symmetric]
    using calm_trans [OF 1 2] calm_trans [OF _ 3] 1 by simp
qed

lemma calm_Reopen: "calm w (snd (ReopenClosedTabByUid env i u s w))"
proof -
  have 1: "calm w (OnTabStripModelChanged tab_inserted w1)"
    if "journal w1 = journal w" "reopenable_generation w1 = reopenable_generation w"
      "reopenable w1 = reopenable w" "recently_reopened w1 = recently_reopened w" for w1
    using calm_trans [OF calm_same [OF that] calm_change] by (simp add: tab_inserted_def)
  show ?thesis
    by (auto simp: ReopenClosedTabByUid_def Let_def intro!: 1 split: option.split prod.split)
qed

lemma calm_Rebind: "calm w (RebindSidecar row w)"
proof -
  define w1 where "w1 = w\<lparr>reopenable := (reopenable w)(restore_key row := None),
          recently_reopened := insert (restore_key row) (recently_reopened w)\<rparr>"
  have 1: "calm w w1"
    by (auto simp: calm_def w1_def rows_ok_def posts_same split: if_splits)
  have 2: "calm w1 (with_journal (SetTabState r) w1)" for r
    unfolding calm_def using posts_SetTabState [of w1 r]
    by (simp add: with_journal_def rows_ok_def split: option.split)
  show ?thesis unfolding RebindSidecar_def w1_def [symmetric] by (rule calm_trans [OF 1 2])
qed

lemma calm_TryReopen: "calm w (snd (TryReopenClosedUid env u w))"
proof -
  have 1: "calm w w2" if "ReopenClosedTabByUid env i u s w = (b, w2)" for i s b w2
    using calm_Reopen [of w env i u s] that by simp
  have 2: "calm w2 (w2\<lparr>reopened_url_by_uid := x\<rparr>)" for w2 x by (rule calm_same) simp_all
  have 3: "calm w (RebindSidecar row (w2\<lparr>reopened_url_by_uid := x\<rparr>))"
    if "ReopenClosedTabByUid env i u s w = (b, w2)" for i s b w2 row x
    using calm_trans [OF calm_trans [OF 1 [OF that] 2] calm_Rebind] .
  show ?thesis
    by (auto simp: TryReopenClosedUid_def Let_def intro: 1 3 split: option.split prod.split)
qed

lemma calm_resolve: "resolve_or_reopen env u w = (loc, w') \<Longrightarrow> calm w w'"
  using calm_TryReopen [of w env u]
  by (auto simp: resolve_or_reopen_def split: option.splits prod.splits)

subsection \<open>Everything that can happen\<close>

datatype tv_event =
    Windows_change "browser_win list" "strip_change option"
  | Entries_change "restore_entry list"
  | Back_command | Forward_command
  | Key_event bool bool bool
  | Debounce_fires
  | Store_runs store_env
  | Reply_delivered
  | Clear_data time time nat
  | Pref_changed bool
  | Journal_load | Watcher_added | Profile_shutdown
  | Time_passes time

definition on_tv :: "tv_env \<Rightarrow> tv_event \<Rightarrow> tv_world \<Rightarrow> tv_world" where
  "on_tv env e w = (case e of
      Windows_change ws c \<Rightarrow>
        (let w1 = w\<lparr>windows := ws\<rparr> in case c of None \<Rightarrow> w1 | Some c \<Rightarrow> OnTabStripModelChanged c w1)
    | Entries_change es \<Rightarrow> w\<lparr>closed_entries := es\<rparr>
    | Back_command \<Rightarrow> TabVisitBack env True w
    | Forward_command \<Rightarrow> TabVisitForward env True w
    | Key_event pressed escape chord_held \<Rightarrow> OnEvent env pressed escape chord_held w
    | Debounce_fires \<Rightarrow> if debounce_running w then Settle env w else w
    | Store_runs se \<Rightarrow> with_journal (store_step se) w
    | Reply_delivered \<Rightarrow> deliver w
    | Clear_data b e' token \<Rightarrow> ClearJournalForBrowsingData b e' token w
    | Pref_changed p \<Rightarrow> w\<lparr>reopen_pref := p\<rparr>
    | Journal_load \<Rightarrow> LoadPersistedJournal w
    | Watcher_added \<Rightarrow> snd (AddJournalLoadedCallback w)
    | Profile_shutdown \<Rightarrow> co_Shutdown w
    | Time_passes t \<Rightarrow> w\<lparr>clock := t\<rparr>)"

text \<open>The events that neither end a gesture nor belong to the store's sequence.\<close>

fun within_gesture :: "tv_event \<Rightarrow> bool" where
  "within_gesture (Windows_change _ _) = True"
| "within_gesture (Entries_change _) = True"
| "within_gesture Back_command = True"
| "within_gesture Forward_command = True"
| "within_gesture (Key_event pressed escape chord_held) = (chord_held \<and> \<not> (pressed \<and> escape))"
| "within_gesture (Pref_changed _) = True"
| "within_gesture Watcher_added = True"
| "within_gesture (Time_passes _) = True"
| "within_gesture _ = False"

definition walk_part :: "tv_world \<Rightarrow> uid list \<times> bool \<times> uid" where
  "walk_part w = (settled_uid_log w, traversal_active w, anchor_uid w)"

lemma walk_part_gesture: "gesture_part w' = gesture_part w \<Longrightarrow> walk_part w' = walk_part w"
  by (simp add: walk_part_def gesture_part_def)

lemma Step_effect:
  assumes "traversal_active w"
  shows "walk_part (StepAndActivate env fwd w) = walk_part w"
    and "ctl (StepAndActivate env fwd w) = snd (if fwd then Forward (ctl w) else Back (ctl w))"
    and "debounce_running (StepAndActivate env fwd w)" and "calm w (StepAndActivate env fwd w)"
proof -
  obtain landing c where lc: "(if fwd then Forward (ctl w) else Back (ctl w)) = (landing, c)" by fastforce
  define w1 where "w1 = w\<lparr>ctl := c\<rparr>"
  define w2 where "w2 = (case landing of None \<Rightarrow> w1
     | Some u \<Rightarrow> let (loc, w') = resolve_or_reopen env u w1
                 in (case loc of Some l \<Rightarrow> ActivateLocation l w' | None \<Rightarrow> w'))"
  have w': "gesture_part w' = gesture_part w1 \<and> calm w1 w' \<and> traversal_active w'"
    if "resolve_or_reopen env u w1 = (loc, w')" for u loc w'
    using gesture_part_resolve [OF that] calm_resolve [OF that] assms
    by (simp add: gesture_part_def w1_def)
  have w2: "gesture_part w2 = gesture_part w1 \<and> calm w1 w2"
    unfolding w2_def using w' gesture_part_Activate calm_Activate calm_trans
    by (auto split: option.splits prod.splits) metis+
  have eq: "StepAndActivate env fwd w = w2\<lparr>debounce_running := True\<rparr>"
    unfolding StepAndActivate_def lc w2_def w1_def by (simp add: Let_def)
  show "walk_part (StepAndActivate env fwd w) = walk_part w" "debounce_running (StepAndActivate env fwd w)"
    using conjunct1 [OF w2] unfolding eq by (simp_all add: walk_part_def gesture_part_def w1_def)
  show "ctl (StepAndActivate env fwd w) = snd (if fwd then Forward (ctl w) else Back (ctl w))"
    using conjunct1 [OF w2] unfolding eq lc by (simp add: gesture_part_def w1_def)
  have "calm w w1" by (rule calm_same) (simp_all add: w1_def)
  moreover have "calm w2 (w2\<lparr>debounce_running := True\<rparr>)" by (rule calm_same) simp_all
  ultimately show "calm w (StepAndActivate env fwd w)"
    using w2 calm_trans unfolding eq by blast
qed

lemma EnsureGesture_fields [simp]:
  "settled_uid_log (EnsureGesture w) = settled_uid_log w" "traversal_active (EnsureGesture w)"
  "calm w (EnsureGesture w)"
  by (simp_all add: EnsureGesture_def calm_same)

lemma EnsureGesture_active: "traversal_active w \<Longrightarrow> EnsureGesture w = w"
  by (simp add: EnsureGesture_def)

lemma StepBack_in_gesture:
  "traversal_active w \<Longrightarrow> walk_part (StepBack env w) = walk_part w \<and> calm w (StepBack env w)"
  "traversal_active w \<Longrightarrow> walk_part (StepForward env w) = walk_part w \<and> calm w (StepForward env w)"
  by (simp_all add: StepBack_def StepForward_def EnsureGesture_active Step_effect)

lemma CoordinatorFor_cases:
  "CoordinatorFor b w = Some c \<Longrightarrow> walk_part c = walk_part w \<and> calm w c \<and> gesture_part c = gesture_part w"
  by (auto simp: CoordinatorFor_def SetReopenFn_def walk_part_def gesture_part_def calm_same split: if_splits)

lemma command_in_gesture:
  assumes "traversal_active w" and "\<And>c. traversal_active c \<Longrightarrow> walk_part (f c) = walk_part c \<and> calm c (f c)"
    and w': "w' = (case CoordinatorFor True w of None \<Rightarrow> w | Some c \<Rightarrow> f c)"
  shows "walk_part w' = walk_part w \<and> posts is_upsert w w'"
proof (cases "CoordinatorFor True w")
  case (Some c)
  note c = CoordinatorFor_cases [OF Some]
  have "traversal_active c" using c assms(1) by (simp add: walk_part_def)
  then have f: "walk_part (f c) = walk_part c" "calm c (f c)" using assms(2) by blast+
  have "calm w (f c)" using calm_trans f(2) c by blast
  then show ?thesis using w' Some f(1) c by (simp add: calm_def)
qed (simp add: w')

lemma posts_persist: "posts is_upsert w (persist_closed_tab r w)"
proof -
  have "posts is_upsert w (AddReopenable row w)" for row
    by (rule posts_same) (simp_all add: AddReopenable_def OnReachabilityMaybeChanged_def)
  then show ?thesis
    using posts_trans [OF _ posts_SetTabState] by (simp add: persist_closed_tab_def)
qed

lemma posts_Persist: "posts is_upsert w (PersistClosedTabsToSidecar c w)"
proof -
  have "posts is_upsert w (fold persist_closed_tab rs w)" for rs
    by (induction rs arbitrary: w) (auto intro: posts_trans [OF posts_persist])
  then show ?thesis by (simp add: PersistClosedTabsToSidecar_def)
qed

lemma posts_change_in_gesture:
  assumes "traversal_active w \<or> change_type c \<noteq> kSelectionOnly"
  shows "posts is_upsert w (OnTabStripModelChanged c w)"
proof (cases "change_type c = kRemoved")
  case True
  then have "OnTabStripModelChanged c w = (if journal w \<noteq> None
      then OnReachabilityMaybeChanged (PersistClosedTabsToSidecar c w) else OnReachabilityMaybeChanged w)"
    by (simp add: OnTabStripModelChanged_def ShouldCommitActivation_def)
  moreover have r: "posts is_upsert x (OnReachabilityMaybeChanged x)" for x
    using calm_Reach unfolding calm_def by blast
  moreover have "posts is_upsert w (OnReachabilityMaybeChanged (PersistClosedTabsToSidecar c w))"
    by (rule posts_trans [OF posts_Persist r])
  ultimately show ?thesis by simp
next
  case False
  then show ?thesis using calm_change [OF assms] by (simp add: calm_def)
qed

lemma within_gesture_effect:
  assumes "traversal_active w" and "within_gesture e"
  shows "walk_part (on_tv env e w) = walk_part w \<and> posts is_upsert w (on_tv env e w)"
proof (cases e)
  case (Windows_change ws c)
  define w1 where "w1 = w\<lparr>windows := ws\<rparr>"
  have a: "traversal_active w1" and p: "posts is_upsert w w1" "walk_part w1 = walk_part w"
    using assms(1) by (simp_all add: w1_def posts_same walk_part_def)
  show ?thesis
  proof (cases c)
    case None
    then show ?thesis using p Windows_change by (simp add: on_tv_def w1_def)
  next
    case (Some ch)
    have "on_tv env e w = OnTabStripModelChanged ch w1" using Windows_change Some by (simp add: on_tv_def w1_def)
    then show ?thesis
      using p posts_trans [OF p(1) posts_change_in_gesture] a walk_part_gesture [OF gesture_part_change] by simp
  qed
next
  case Back_command
  then show ?thesis
    using command_in_gesture [OF assms(1) StepBack_in_gesture(1)] by (simp add: on_tv_def TabVisitBack_def)
next
  case Forward_command
  then show ?thesis
    using command_in_gesture [OF assms(1) StepBack_in_gesture(2)] by (simp add: on_tv_def TabVisitForward_def)
qed (use assms in \<open>auto simp: on_tv_def walk_part_def posts_same OnEvent_def AddJournalLoadedCallback_def\<close>)

subsection \<open>One visit per gesture\<close>

definition visits_posted :: "tv_world \<Rightarrow> continuation store_task list" where
  "visits_posted w = (case journal w of None \<Rightarrow> [] | Some j \<Rightarrow> filter is_append (queue j))"

lemma visits_posted_upserts: "posts is_upsert w w' \<Longrightarrow> visits_posted w' = visits_posted w"
proof -
  have "filter is_append ts = []" if "list_all is_upsert ts" for ts
    using that by (induction ts) (auto elim: is_upsert.elims)
  then show "posts is_upsert w w' \<Longrightarrow> ?thesis"
    by (auto simp: posts_def visits_posted_def split: option.split)
qed

lemma visits_posted_Record:
  "visits_posted (with_journal (RecordVisit u url t) w) \<in> {visits_posted w, visits_posted w @ [Append_task u (url_spec url) t]}"
  by (auto simp: visits_posted_def with_journal_def RecordVisit_def AsyncCall_def split: option.split)

lemma ResolveUid_not_empty: "ResolveUid u w = Some loc \<Longrightarrow> u \<noteq> []"
  by (auto simp: ResolveUid_def split: if_splits)

lemma resolve_not_empty: "resolve_or_reopen env u w = (Some loc, w') \<Longrightarrow> u \<noteq> []"
  using ResolveUid_not_empty
  by (fastforce simp: resolve_or_reopen_def split: option.splits prod.splits if_splits)

lemma RecordSettledUid_log: "u \<noteq> [] \<Longrightarrow> settled_uid_log (RecordSettledUid u w) = snoc_coalesced (settled_uid_log w) u"
  by (simp add: RecordSettledUid_def snoc_coalesced_def)

lemma RecordSettledUid_frame:
  "posts P w (RecordSettledUid u w)" "gesture_part (w\<lparr>settled_uid_log := l\<rparr>) = (l, snd (gesture_part w))"
  by (simp_all add: RecordSettledUid_def posts_same gesture_part_def)

lemma commit_landing_effect:
  assumes "traversal_active w" and "u \<noteq> []"
  shows "settled_uid_log (commit_landing env u loc w) = snoc_coalesced (settled_uid_log w) u"
    and "ctl (commit_landing env u loc w) = ctl w" and "debounce_running (commit_landing env u loc w) = debounce_running w"
    and "\<exists>url t. visits_posted (commit_landing env u loc w) \<in> {visits_posted w, visits_posted w @ [Append_task u url t]}"
    and "posts (\<lambda>t. is_upsert t \<or> is_append t) w (commit_landing env u loc w)"
proof -
  define w1 where "w1 = RecordSettledUid u (ActivateLocation loc w)"
  have a: "gesture_part (ActivateLocation loc w) = gesture_part w" "calm w (ActivateLocation loc w)"
    using gesture_part_Activate calm_Activate assms(1) by blast+
  have w1: "settled_uid_log w1 = snoc_coalesced (settled_uid_log w) u" "ctl w1 = ctl w"
      "debounce_running w1 = debounce_running w"
    using gesture_part_fields [OF a(1)] assms(2) RecordSettledUid_log [of u "ActivateLocation loc w"]
    by (simp_all add: w1_def) (simp_all add: RecordSettledUid_def)
  have p: "posts is_upsert w w1"
    unfolding w1_def using posts_trans a(2) RecordSettledUid_frame(1) by (auto simp: calm_def)
  have c: "commit_landing env u loc w = w1 \<or> (\<exists>url. commit_landing env u loc w = with_journal (RecordVisit u url (clock w1)) w1)"
    unfolding commit_landing_def w1_def [symmetric] by (auto simp: Let_def)
  have j: "settled_uid_log (with_journal f x) = settled_uid_log x" "ctl (with_journal f x) = ctl x"
    "debounce_running (with_journal f x) = debounce_running x" for f x
    by (simp_all add: with_journal_def split: option.split)
  show "settled_uid_log (commit_landing env u loc w) = snoc_coalesced (settled_uid_log w) u"
    "ctl (commit_landing env u loc w) = ctl w" "debounce_running (commit_landing env u loc w) = debounce_running w"
    using c w1 by (auto simp: j)
  show "\<exists>url t. visits_posted (commit_landing env u loc w) \<in> {visits_posted w, visits_posted w @ [Append_task u url t]}"
    using c
  proof (elim disjE exE)
    fix url assume "commit_landing env u loc w = with_journal (RecordVisit u url (clock w1)) w1"
    then show ?thesis
      using visits_posted_upserts [OF p] visits_posted_Record [of u url "clock w1" w1] by auto
  qed (use visits_posted_upserts [OF p] in auto)
  have "posts (\<lambda>t. is_upsert t \<or> is_append t) w w1" by (rule posts_mono [OF p]) simp
  moreover have "posts (\<lambda>t. is_upsert t \<or> is_append t) w1 (with_journal (RecordVisit u url t) w1)" for url t
    by (rule posts_mono [OF posts_RecordVisit]) simp
  ultimately show "posts (\<lambda>t. is_upsert t \<or> is_append t) w (commit_landing env u loc w)"
    using c posts_trans by metis
qed

lemma visits_posted_end [simp]:
  "visits_posted (w\<lparr>reopened_url_by_uid := x, traversal_active := y\<rparr>) = visits_posted w"
  by (simp add: visits_posted_def)

lemma Settle_effect:
  assumes "traversal_active w"
  shows "\<not> traversal_active (Settle env w)" and "\<not> debounce_running (Settle env w)"
    and "ctl (Settle env w) = snd (ctl_Settle (ctl w))"
    and "(settled_uid_log (Settle env w) = settled_uid_log w \<and> visits_posted (Settle env w) = visits_posted w) \<or>
      (\<exists>u url t. fst (ctl_Settle (ctl w)) = Some u \<and> u \<noteq> [] \<and> u \<noteq> anchor_uid w \<and>
         settled_uid_log (Settle env w) = snoc_coalesced (settled_uid_log w) u \<and>
         visits_posted (Settle env w) \<in> {visits_posted w, visits_posted w @ [Append_task u url t]})"
    and "posts (\<lambda>t. is_upsert t \<or> is_append t) w (Settle env w)"
proof -
  obtain landed c where lc: "ctl_Settle (ctl w) = (landed, c)" by fastforce
  define w1 where "w1 = w\<lparr>debounce_running := False, ctl := c\<rparr>"
  define w2 where "w2 = (case landed of None \<Rightarrow> w1 | Some u \<Rightarrow> if u = anchor_uid w1 then w1
     else let (loc, w') = resolve_or_reopen env u w1
          in (case loc of Some l \<Rightarrow> commit_landing env u l w' | None \<Rightarrow> w'))"
  have eq: "Settle env w = w2\<lparr>reopened_url_by_uid := Map.empty, traversal_active := False\<rparr>"
    unfolding Settle_def w2_def w1_def using assms lc by (simp add: Let_def)
  have w1: "visits_posted w1 = visits_posted w" "posts P w w1" for P
    by (simp_all add: w1_def visits_posted_def posts_same)
  have p12: "posts Q w2 (w2\<lparr>reopened_url_by_uid := x, traversal_active := y\<rparr>)" for Q x y by (rule posts_same) simp_all
  define Q where "Q = (\<lambda>t. is_upsert t \<or> is_append t)"
  have main: "\<not> debounce_running w2 \<and> ctl w2 = c \<and> posts Q w w2 \<and>
     ((settled_uid_log w2 = settled_uid_log w \<and> visits_posted w2 = visits_posted w) \<or>
      (\<exists>u url t. landed = Some u \<and> u \<noteq> [] \<and> u \<noteq> anchor_uid w \<and> settled_uid_log w2 = snoc_coalesced (settled_uid_log w) u \<and>
         visits_posted w2 \<in> {visits_posted w, visits_posted w @ [Append_task u url t]}))"
  proof (cases "landed = None \<or> landed = Some (anchor_uid w)")
    case True
    then have "w2 = w1" by (auto simp: w2_def w1_def)
    then show ?thesis using w1 by (simp add: w1_def)
  next
    case False
    then obtain u where u: "landed = Some u" "u \<noteq> anchor_uid w" by (cases landed) auto
    obtain loc w' where r: "resolve_or_reopen env u w1 = (loc, w')" by fastforce
    note g = gesture_part_fields [OF gesture_part_resolve [OF r]]
    have calm: "calm w1 w'" by (rule calm_resolve [OF r])
    have v': "visits_posted w' = visits_posted w"
      using visits_posted_upserts [of w1 w'] calm w1(1) unfolding calm_def by simp
    have "posts Q w1 w'"
      by (rule posts_mono [of is_upsert]) (use calm in \<open>simp_all add: calm_def Q_def\<close>)
    then have pw': "posts Q w w'" using posts_trans [OF w1(2)] by blast
    show ?thesis
    proof (cases loc)
      case None
      then have "w2 = w'" using u r by (simp add: w2_def w1_def)
      then show ?thesis using g v' pw' by (simp add: w1_def)
    next
      case (Some l)
      have w2: "w2 = commit_landing env u l w'" using u r Some by (simp add: w2_def w1_def)
      have act: "traversal_active w'" and ne: "u \<noteq> []"
        using g(2) assms resolve_not_empty r Some by (simp_all add: w1_def)
      note ce = commit_landing_effect [OF act ne, of env l]
      show ?thesis
        using ce g v' u ne posts_trans [OF pw' ce(5) [folded Q_def]] unfolding w2 by (auto simp: w1_def)
    qed
  qed
  show "\<not> traversal_active (Settle env w)" "\<not> debounce_running (Settle env w)" "ctl (Settle env w) = snd (ctl_Settle (ctl w))"
    using main unfolding eq lc by simp_all
  show "(settled_uid_log (Settle env w) = settled_uid_log w \<and> visits_posted (Settle env w) = visits_posted w) \<or>
      (\<exists>u url t. fst (ctl_Settle (ctl w)) = Some u \<and> u \<noteq> [] \<and> u \<noteq> anchor_uid w \<and>
         settled_uid_log (Settle env w) = snoc_coalesced (settled_uid_log w) u \<and>
         visits_posted (Settle env w) \<in> {visits_posted w, visits_posted w @ [Append_task u url t]})"
    using main unfolding eq lc by simp
  show "posts (\<lambda>t. is_upsert t \<or> is_append t) w (Settle env w)"
    using main posts_trans [OF _ p12] unfolding eq Q_def by blast
qed

lemma within_gestures_effect:
  "traversal_active w \<Longrightarrow> list_all within_gesture es \<Longrightarrow>
   walk_part (fold (on_tv env) es w) = walk_part w \<and> posts is_upsert w (fold (on_tv env) es w)"
proof (induction es arbitrary: w)
  case (Cons e es)
  have e: "walk_part (on_tv env e w) = walk_part w" "posts is_upsert w (on_tv env e w)"
    using within_gesture_effect Cons.prems by simp_all
  then have "traversal_active (on_tv env e w)" using Cons.prems by (simp add: walk_part_def)
  then show ?case using Cons.IH [of "on_tv env e w"] Cons.prems(2) e posts_trans by simp
qed simp

text \<open>
  C3: one gesture, at most one visit. From the Back that starts a gesture, through any further steps,
  tab activations, tab closes, key presses with the chord held and setting changes, nothing is added
  to the log and no visit is posted to the journal; settling then adds either nothing, or exactly the
  landed tab, which is not the tab the gesture started from, and posts at most one visit, for that tab.
\<close>

theorem one_visit_per_gesture:
  assumes "\<not> traversal_active w" and "tab_visit_nav w" and "co_CanGoBack w" and "list_all within_gesture es"
    and w2: "w2 = fold (on_tv env) es (on_tv env Back_command w)" and w3: "w3 = Settle env w2"
  shows "settled_uid_log w2 = settled_uid_log w \<and> visits_posted w2 = visits_posted w \<and>
    traversal_active w2 \<and> \<not> traversal_active w3 \<and>
    (settled_uid_log w3 = settled_uid_log w \<and> visits_posted w3 = visits_posted w \<or>
     (\<exists>u url t. Current (ctl w2) = Some u \<and> u \<noteq> [] \<and> u \<noteq> last (settled_uid_log w) \<and>
        settled_uid_log w3 = settled_uid_log w @ [u] \<and>
        visits_posted w3 \<in> {visits_posted w, visits_posted w @ [Append_task u url t]}))"
proof -
  define c where "c = (if reopen_fn_set w then w else SetReopenFn w)"
  have c: "CoordinatorFor True w = Some c" using assms(2) by (simp add: CoordinatorFor_def c_def)
  note cw = CoordinatorFor_cases [OF c]
  have can: "co_CanGoBack c" "tab_visit_nav c" "\<not> traversal_active c"
    using assms(1-3) by (auto simp: c_def SetReopenFn_def co_CanGoBack_def CollectReachableUids_def CollectLiveUids_def)
  have log: "settled_uid_log w \<noteq> []"
    using assms(1,3) by (auto simp: co_CanGoBack_def CanBeginBackTraversal_filter DeriveMruOrder_eq)
  define w1 where "w1 = on_tv env Back_command w"
  have w1_eq: "w1 = StepAndActivate env False (EnsureGesture c)"
    using can c by (simp add: w1_def on_tv_def TabVisitBack_def StepBack_def)
  have anchor: "anchor_uid (EnsureGesture c) = last (settled_uid_log w)"
    using can(3) cw log by (simp add: EnsureGesture_def walk_part_def)
  have wp1: "walk_part w1 = (settled_uid_log w, True, last (settled_uid_log w))"
    unfolding w1_eq Step_effect(1) [OF EnsureGesture_fields(2)] using anchor cw by (simp add: walk_part_def)
  have "calm w w1"
    unfolding w1_eq using calm_trans [OF calm_trans [OF _ EnsureGesture_fields(3)] Step_effect(4)] cw by simp
  then have v1: "visits_posted w1 = visits_posted w" using visits_posted_upserts [of w w1] unfolding calm_def by simp
  have act1: "traversal_active w1" using wp1 by (simp add: walk_part_def)
  have w2': "walk_part w2 = walk_part w1 \<and> posts is_upsert w1 w2"
    unfolding w2 w1_def [symmetric] by (rule within_gestures_effect [OF act1 assms(4)])
  then have v2: "visits_posted w2 = visits_posted w" using visits_posted_upserts [of w1 w2] v1 by simp
  have f2: "settled_uid_log w2 = settled_uid_log w" "traversal_active w2" "anchor_uid w2 = last (settled_uid_log w)"
    using w2' wp1 by (simp_all add: walk_part_def)
  note s = Settle_effect(1,4) [OF f2(2), of env, folded w3]
  have "fst (ctl_Settle x) = Current x" for x by (simp add: ctl_Settle_def)
  then show ?thesis
    using s f2 v2 by (auto simp: snoc_coalesced_def)
qed

text \<open>A window of two tabs visited one after the other, for the witnesses.\<close>

definition demo_url :: "string \<Rightarrow> gurl" where
  "demo_url s = \<lparr>url_valid = True, url_spec = s, url_scheme = ''https'', url_host = ''x'', url_about_blank = False\<rparr>"

definition demo_env :: tv_env where
  "demo_env = \<lparr>parse_url = demo_url, adopted_uid = (\<lambda>_ u. u), RestoreEntryById = (\<lambda>_ _ x. x)\<rparr>"

definition demo_world :: tv_world where
  "demo_world = \<lparr>windows = [\<lparr>win_id = 7, own_profile = True, type_normal = True, live_tab_context = True,
       win_tabs = [\<lparr>tab_uid = ''a'', tab_url = demo_url ''https://a/''\<rparr>, \<lparr>tab_uid = ''b'', tab_url = demo_url ''https://b/''\<rparr>],
       win_active = 1\<rparr>],
     focused_window = None, closed_entries = [], journal = Some (SettledVisitJournalService True True),
     tab_visit_nav = True, reopen_pref = False, clock = 0, ctl = new_controller, settled_uid_log = [''a'', ''b''],
     anchor_uid = [], traversal_active = False, journal_loaded = True, command_refreshes = 0,
     reopenable = Map.empty, recently_reopened = {}, reopenable_generation = 0, reopened_url_by_uid = Map.empty,
     reopen_fn_set = False, debounce_running = False, done_tokens = []\<rparr>"

lemma demo_can: "co_CanGoBack demo_world"
  by (simp add: co_CanGoBack_def demo_world_def CanBeginBackTraversal_filter DeriveMruOrder_eq
      CollectReachableUids_def CollectLiveUids_def)

lemma one_visit_per_gesture_witness:
  "let w2 = fold (on_tv demo_env) [Time_passes 5] (on_tv demo_env Back_command demo_world)
   in settled_uid_log w2 = [''a'', ''b''] \<and> traversal_active w2 \<and> \<not> traversal_active (Settle demo_env w2)"
  using one_visit_per_gesture [OF _ _ demo_can _ refl refl, of "[Time_passes 5]" demo_env]
  by (simp add: demo_world_def Let_def)

end
