(* ===== verification/Coordinator_Reach.thy ===== *)
theory Coordinator_Reach
  imports Coordinator
begin

text \<open>
  The reachable states of a profile's tab-visit navigation (theory Coordinator): the invariant of the
  log, the gesture and the reopenable rows, and what a clear of browsing data guarantees against
  replies that were already under way.
\<close>

subsection \<open>Reachable states\<close>

fun is_clear :: "continuation store_task \<Rightarrow> bool" where
  "is_clear (Clear_task _ _ _) = True" | "is_clear _ = False"

text \<open>A read of the sidecar posted in generation \<open>g\<close>, and the reply to one.\<close>

fun reads_gen :: "int \<Rightarrow> continuation store_task \<Rightarrow> bool" where
  "reads_gen g (ReadTabStates_task (Reopenable_loaded g')) = (g' = g)" | "reads_gen g _ = False"

fun reply_gen :: "int \<Rightarrow> continuation reply \<Rightarrow> bool" where
  "reply_gen g (TabStates_reply (Reopenable_loaded g') _) = (g' = g)" | "reply_gen g _ = False"

text \<open>No current read of the sidecar is queued before a clear, nor answered while one is pending.\<close>

fun fresh_queue :: "int \<Rightarrow> continuation store_task list \<Rightarrow> bool" where
  "fresh_queue g [] = True"
| "fresh_queue g (t # q) = ((reads_gen g t \<longrightarrow> \<not> list_ex is_clear q) \<and> fresh_queue g q)"

definition reads_ok :: "int \<Rightarrow> continuation journal_service \<Rightarrow> bool" where
  "reads_ok gen j \<longleftrightarrow> fresh_queue gen (queue j) \<and>
     (list_ex (reply_gen gen) (outbox j) \<longrightarrow> \<not> list_ex is_clear (queue j)) \<and>
     (\<forall>g > gen. \<not> list_ex (reads_gen g) (queue j) \<and> \<not> list_ex (reply_gen g) (outbox j))"

definition reads_inv :: "tv_world \<Rightarrow> bool" where
  "reads_inv w \<longleftrightarrow> (case journal w of None \<Rightarrow> True | Some j \<Rightarrow> reads_ok (reopenable_generation w) j)"

definition plain :: "continuation store_task \<Rightarrow> bool" where
  "plain t \<longleftrightarrow> \<not> is_clear t \<and> (\<forall>g. \<not> reads_gen g t)"

lemma fresh_queue_append_plain: "list_all plain ts \<Longrightarrow> fresh_queue g (q @ ts) = fresh_queue g q"
proof (induction q)
  case Nil
  then show ?case by (induction ts) (auto simp: plain_def)
next
  case (Cons t q)
  have "\<not> list_ex is_clear ts" using Cons.prems by (induction ts) (auto simp: plain_def)
  then show ?case using Cons by auto
qed

lemma fresh_queue_append_read: "fresh_queue g q \<Longrightarrow> \<not> is_clear t \<Longrightarrow> fresh_queue g (q @ [t])"
  by (induction q) auto

lemma fresh_queue_no_reads: "\<not> list_ex (reads_gen g) q \<Longrightarrow> fresh_queue g q"
  by (induction q) auto

lemma reads_inv_posts:
  assumes "posts P w w'" and "reads_inv w" and "\<And>t. P t \<Longrightarrow> plain t"
  shows "reads_inv w'"
proof -
  obtain ts where ts: "list_all P ts" "journal w' = map_option (\<lambda>j. j\<lparr>queue := queue j @ ts\<rparr>) (journal w)"
    and g: "reopenable_generation w' = reopenable_generation w"
    using assms(1) unfolding posts_def by blast
  have pl: "list_all plain ts" using ts(1) assms(3) by (simp add: list_all_iff)
  then have "\<not> list_ex is_clear ts" "\<not> list_ex (reads_gen g) ts" for g
    by (induction ts) (auto simp: plain_def)
  then show ?thesis
    using assms(2) ts(2) g fresh_queue_append_plain [OF pl]
    by (auto simp: reads_inv_def reads_ok_def split: option.splits)
qed

lemma upsert_append_plain: "is_upsert t \<or> is_append t \<Longrightarrow> plain t" "is_upsert t \<Longrightarrow> plain t"
  by (cases t; simp add: plain_def)+

definition gesture_ok :: "tv_world \<Rightarrow> bool" where
  "gesture_ok w \<longleftrightarrow> no_stutter (settled_uid_log w) \<and> [] \<notin> set (settled_uid_log w) \<and>
     ctl_inv (ctl w) \<and> active (ctl w) = traversal_active w \<and> debounce_running w = traversal_active w"

definition tv_inv :: "tv_world \<Rightarrow> bool" where
  "tv_inv w \<longleftrightarrow> gesture_ok w \<and> rows_ok w \<and> reads_inv w"

lemma gesture_ok_part: "gesture_part w' = gesture_part w \<Longrightarrow> gesture_ok w' = gesture_ok w"
  unfolding gesture_ok_def using gesture_part_fields by metis

lemma tv_inv_calm: "tv_inv w \<Longrightarrow> gesture_part w' = gesture_part w \<Longrightarrow> calm w w' \<Longrightarrow> tv_inv w'"
  unfolding tv_inv_def calm_def using gesture_ok_part reads_inv_posts upsert_append_plain(2) by blast

lemma rows_ok_journal [simp]: "rows_ok (with_journal f w) = rows_ok w"
  by (simp add: rows_ok_def with_journal_def split: option.split)

lemma rows_ok_Add: "rows_ok w \<Longrightarrow> ts_closed row \<Longrightarrow> rows_ok (AddReopenable row w)"
  by (auto simp: AddReopenable_def rows_ok_def OnReachabilityMaybeChanged_def split: if_splits)

lemma rows_ok_persist: "rows_ok w \<Longrightarrow> rows_ok (PersistClosedTabsToSidecar c w)"
proof -
  have "rows_ok w \<Longrightarrow> rows_ok (fold persist_closed_tab rs w)" for rs
    by (induction rs arbitrary: w) (auto simp: persist_closed_tab_def rows_ok_Add closed_row_def)
  then show "rows_ok w \<Longrightarrow> ?thesis" by (simp add: PersistClosedTabsToSidecar_def)
qed

lemma rows_ok_Reach [simp]: "rows_ok (OnReachabilityMaybeChanged w) = rows_ok w"
  by (simp add: rows_ok_def OnReachabilityMaybeChanged_def)

lemma rows_ok_change_removed:
  "change_type c = kRemoved \<Longrightarrow> rows_ok w \<Longrightarrow> rows_ok (OnTabStripModelChanged c w)"
  by (simp add: OnTabStripModelChanged_def ShouldCommitActivation_def rows_ok_persist)

lemma RecordSettledUid_ok: "gesture_ok w \<Longrightarrow> gesture_ok (RecordSettledUid u w)"
  by (cases "u = []") (simp_all add: RecordSettledUid_def gesture_ok_def no_stutter_def distinct_adj_append_iff)

lemma inv_frame:
  assumes "reopenable w' = reopenable w" "recently_reopened w' = recently_reopened w"
    "journal w' = journal w" "reopenable_generation w' = reopenable_generation w"
  shows "rows_ok w' = rows_ok w" "reads_inv w' = reads_inv w"
  unfolding rows_ok_def reads_inv_def assms by blast+

lemma tv_inv_RecordSettledUid: "tv_inv w \<Longrightarrow> tv_inv (RecordSettledUid u w)"
proof -
  assume "tv_inv w"
  moreover have "rows_ok (RecordSettledUid u w) = rows_ok w" "reads_inv (RecordSettledUid u w) = reads_inv w"
    by (rule inv_frame; simp add: RecordSettledUid_def)+
  ultimately show ?thesis by (simp add: tv_inv_def RecordSettledUid_ok)
qed

lemma tv_inv_RecordVisit: "tv_inv w \<Longrightarrow> tv_inv (with_journal (RecordVisit u url t) w)"
  unfolding tv_inv_def
  using reads_inv_posts [OF posts_RecordVisit] upsert_append_plain(1) gesture_ok_part [OF gesture_part_with_journal]
  by simp

lemma tv_inv_change: "tv_inv w \<Longrightarrow> tv_inv (OnTabStripModelChanged c w)"
proof -
  assume inv: "tv_inv w"
  show ?thesis
  proof (cases "traversal_active w \<or> change_type c \<noteq> kSelectionOnly")
    case True
    note g = gesture_part_change [OF True] and p = posts_change_in_gesture [OF True]
    have "rows_ok (OnTabStripModelChanged c w)"
      using inv rows_ok_change_removed calm_change [OF True] by (auto simp: tv_inv_def calm_def)
    then show ?thesis
      using inv gesture_ok_part [OF g] reads_inv_posts [OF p _ upsert_append_plain(2)] by (simp add: tv_inv_def)
  next
    case False
    show ?thesis
    proof (cases "active_changed c \<and> new_contents c \<noteq> None")
      case no: False
      then have "OnTabStripModelChanged c w = w"
        using False by (auto simp: OnTabStripModelChanged_def ShouldCommitActivation_def)
      then show ?thesis using inv by simp
    next
      case yes: True
      then obtain t where t: "new_contents c = Some t" by blast
      define w3 where "w3 = RecordSettledUid (tab_uid t) w"
      have "OnTabStripModelChanged c w =
          (if \<not> IsRecordableVisitUrl (tab_url t) then w3 else with_journal (RecordVisit (tab_uid t) (tab_url t) (clock w3)) w3)"
        using False yes t by (simp add: OnTabStripModelChanged_def ShouldCommitActivation_def w3_def RecordSettledUid_def)
      then show ?thesis
        using tv_inv_RecordVisit [OF tv_inv_RecordSettledUid [OF inv]] tv_inv_RecordSettledUid [OF inv]
        by (simp add: w3_def)
    qed
  qed
qed

lemma tv_inv_frame:
  assumes "tv_inv w" and "gesture_part w' = gesture_part w" and "journal w' = journal w"
    and "reopenable w' = reopenable w" "recently_reopened w' = recently_reopened w"
    and "reopenable_generation w' = reopenable_generation w"
  shows "tv_inv w'"
  by (rule tv_inv_calm [OF assms(1,2) calm_same [OF assms(3,6,4,5)]])

lemma coalesce_ok: "no_stutter (coalesce us)" "set (coalesce us) = set us"
proof -
  have "no_stutter acc \<Longrightarrow> no_stutter (fold (\<lambda>u acc. snoc_coalesced acc u) us acc) \<and>
      set (fold (\<lambda>u acc. snoc_coalesced acc u) us acc) = set acc \<union> set us" for acc :: "uid list"
    by (induction us arbitrary: acc) auto
  from this [of "[]"] show "no_stutter (coalesce us)" "set (coalesce us) = set us" by (simp_all add: coalesce_def)
qed

lemma tv_inv_JournalLoaded: "tv_inv w \<Longrightarrow> tv_inv (OnJournalLoaded rows w)"
proof -
  assume inv: "tv_inv w"
  have "rows_ok (OnJournalLoaded rows w) = rows_ok w" "reads_inv (OnJournalLoaded rows w) = reads_inv w"
    by (rule inv_frame; simp add: OnJournalLoaded_def Let_def)+
  moreover have "gesture_ok (OnJournalLoaded rows w)"
    using inv by (auto simp: tv_inv_def gesture_ok_def OnJournalLoaded_def Let_def coalesce_ok)
  ultimately show ?thesis using inv by (simp add: tv_inv_def)
qed

lemma rows_ok_keep: "rows_ok w \<Longrightarrow> rows_ok (keep_row row w)"
proof (cases "keep_row row w = w")
  case False
  then have row: "ts_closed row" "restore_key row \<noteq> []" "restore_key row \<notin> recently_reopened w"
    and eq: "keep_row row w = w\<lparr>reopenable := (reopenable w)(restore_key row \<mapsto> row)\<rparr>"
    by (auto simp: keep_row_def split: if_splits)
  assume ok: "rows_ok w"
  show ?thesis
    unfolding rows_ok_def eq
  proof (intro allI impI)
    fix u r
    assume "reopenable (w\<lparr>reopenable := (reopenable w)(restore_key row \<mapsto> row)\<rparr>) u = Some r"
    then have "u = restore_key row \<and> r = row \<or> reopenable w u = Some r" by (simp split: if_splits)
    then show "restore_key r = u \<and> u \<noteq> [] \<and> ts_closed r \<and>
        u \<notin> recently_reopened (w\<lparr>reopenable := (reopenable w)(restore_key row \<mapsto> row)\<rparr>)"
      using row ok unfolding rows_ok_def by (elim disjE) simp_all
  qed
qed simp

lemma rows_ok_fold_keep: "rows_ok w \<Longrightarrow> rows_ok (fold keep_row rows w)"
  by (induction rows arbitrary: w) (simp_all add: rows_ok_keep)

lemma fold_keep_frame: "journal (fold keep_row rows w) = journal w"
  "reopenable_generation (fold keep_row rows w) = reopenable_generation w"
  by (induction rows arbitrary: w) (auto simp: keep_row_def)

lemma tv_inv_ReopenableLoaded: "tv_inv w \<Longrightarrow> tv_inv (OnReopenableLoaded g rows w)"
proof -
  assume inv: "tv_inv w"
  have "reads_inv (fold keep_row rows w) = reads_inv w"
    unfolding reads_inv_def fold_keep_frame by simp
  then have "tv_inv (fold keep_row rows w)"
    unfolding tv_inv_def using inv [unfolded tv_inv_def] rows_ok_fold_keep gesture_ok_part [OF gesture_part_fold_keep]
    by blast
  then have "tv_inv (OnReachabilityMaybeChanged (fold keep_row rows w))"
    using tv_inv_calm [OF _ gesture_part_Reach calm_Reach] by blast
  then show ?thesis using inv by (simp add: OnReopenableLoaded_def)
qed

lemma tv_inv_LoadReopenable: "tv_inv w \<Longrightarrow> tv_inv (LoadReopenableFromSidecar w)"
proof -
  assume inv: "tv_inv w"
  show ?thesis
  proof (cases "journal w")
    case None
    then show ?thesis using inv by (simp add: LoadReopenable_cases)
  next
    case (Some j)
    show ?thesis
    proof (cases "store_bound j")
      case False
      then show ?thesis using Some tv_inv_ReopenableLoaded [OF inv] by (simp add: LoadReopenable_cases)
    next
      case True
      define w' where "w' = w\<lparr>journal := Some (AsyncCall (ReadTabStates_task (Reopenable_loaded (reopenable_generation w))) j)\<rparr>"
      have "rows_ok w' = rows_ok w" by (simp add: w'_def rows_ok_def)
      moreover have "gesture_ok w' = gesture_ok w" by (rule gesture_ok_part) (simp add: w'_def)
      moreover have "reads_inv w'"
        using inv Some by (auto simp: tv_inv_def reads_inv_def w'_def reads_ok_def AsyncCall_def fresh_queue_append_read)
      ultimately show ?thesis using inv Some True by (simp add: LoadReopenable_cases w'_def [symmetric] tv_inv_def)
    qed
  qed
qed

lemma active_steps [simp]: "active (snd (Back c)) = active c" "active (snd (Forward c)) = active c"
  by (simp_all add: Back_def Forward_def Let_def)

lemma tv_inv_Step:
  assumes inv: "tv_inv w"
  shows "tv_inv (StepAndActivate env fwd (EnsureGesture w))"
proof -
  define e where "e = EnsureGesture w"
  have e: "traversal_active e" "calm w e" "settled_uid_log e = settled_uid_log w" by (simp_all add: e_def)
  have "active (BeginGesture j R c)" for j R c by (simp add: BeginGesture_def Let_def)
  then have ce: "ctl_inv (ctl e)" "active (ctl e)"
    using inv ctl_inv_BeginGesture by (auto simp: e_def EnsureGesture_def tv_inv_def gesture_ok_def)
  note s = Step_effect [OF e(1), of env fwd]
  have "gesture_ok (StepAndActivate env fwd e)"
    using s(1,2,3) e(1,3) inv ce ctl_inv_Back ctl_inv_Forward
    by (auto simp: gesture_ok_def tv_inv_def walk_part_def)
  moreover have "calm w (StepAndActivate env fwd e)" by (rule calm_trans [OF e(2) s(4)])
  ultimately show ?thesis
    unfolding e_def [symmetric] using inv reads_inv_posts upsert_append_plain(2) unfolding tv_inv_def calm_def by blast
qed

lemma tv_inv_command: "tv_inv w \<Longrightarrow> tv_inv (TabVisitBack env b w)" "tv_inv w \<Longrightarrow> tv_inv (TabVisitForward env b w)"
proof -
  assume inv: "tv_inv w"
  have c: "tv_inv c" if "CoordinatorFor b w = Some c" for c
    using CoordinatorFor_cases [OF that] tv_inv_calm [OF inv] by blast
  show "tv_inv (TabVisitBack env b w)" "tv_inv (TabVisitForward env b w)"
    using inv c tv_inv_Step
    by (auto simp: TabVisitBack_def TabVisitForward_def StepBack_def StepForward_def split: option.split)
qed

text \<open>What calm says of the reopenable rows alone.\<close>

definition tidy :: "tv_world \<Rightarrow> tv_world \<Rightarrow> bool" where
  "tidy w w' \<longleftrightarrow> dom (reopenable w') \<subseteq> dom (reopenable w) \<and> (rows_ok w \<longrightarrow> rows_ok w')"

lemma calm_tidy: "calm w w' \<Longrightarrow> tidy w w'" by (simp add: calm_def tidy_def)

lemma tidy_trans: "tidy a b \<Longrightarrow> tidy b c \<Longrightarrow> tidy a c" unfolding tidy_def by blast

lemma tidy_same:
  "reopenable w' = reopenable w \<Longrightarrow> recently_reopened w' = recently_reopened w \<Longrightarrow> tidy w w'"
  by (simp add: tidy_def rows_ok_def)

lemma tidy_journal: "tidy w (with_journal f w)"
  by (rule tidy_same) (simp_all add: with_journal_def split: option.split)

lemma tidy_commit: "traversal_active w \<Longrightarrow> tidy w (commit_landing env u loc w)"
proof -
  assume a: "traversal_active w"
  have r: "tidy x (RecordSettledUid u x)" for x by (rule tidy_same) (simp_all add: RecordSettledUid_def)
  have t: "tidy w (RecordSettledUid u (ActivateLocation loc w))"
    by (rule tidy_trans [OF calm_tidy [OF calm_Activate [OF a]] r])
  then show ?thesis using tidy_trans [OF t tidy_journal] by (simp add: commit_landing_def Let_def)
qed

lemma tidy_Settle: "tidy w (Settle env w)"
proof (cases "traversal_active w")
  case True
  obtain landed c where lc: "ctl_Settle (ctl w) = (landed, c)" by fastforce
  define w1 where "w1 = w\<lparr>debounce_running := False, ctl := c\<rparr>"
  have 1: "tidy w w1" by (rule tidy_same) (simp_all add: w1_def)
  have a1: "traversal_active w1" using True by (simp add: w1_def)
  have 2: "tidy w w'" if "resolve_or_reopen env u w1 = (loc, w')" for u loc w'
    by (rule tidy_trans [OF 1 calm_tidy [OF calm_resolve [OF that]]])
  have 3: "tidy w (commit_landing env u l w')" if r: "resolve_or_reopen env u w1 = (loc, w')" for u loc w' l
  proof -
    have "traversal_active w'" using gesture_part_fields(2) [OF gesture_part_resolve [OF r]] a1 by simp
    then show ?thesis using tidy_trans [OF 2 [OF r] tidy_commit] by blast
  qed
  have e: "tidy w (x\<lparr>reopened_url_by_uid := a, traversal_active := b\<rparr>)" if "tidy w x" for x a b
    by (rule tidy_trans [OF that tidy_same]) simp_all
  show ?thesis
    using True lc 1 2 3 unfolding Settle_def w1_def by (auto simp: Let_def intro!: e split: option.split prod.split)
qed (simp add: Settle_def tidy_same)

lemma rows_ok_Settle: "rows_ok w \<Longrightarrow> rows_ok (Settle env w)"
  using tidy_Settle by (simp add: tidy_def)

lemma tv_inv_Settle: "tv_inv w \<Longrightarrow> tv_inv (Settle env w)"
proof (cases "traversal_active w")
  case True
  assume inv: "tv_inv w"
  note s = Settle_effect [OF True, of env]
  have "settled_uid_log (Settle env w) = settled_uid_log w \<or>
      (\<exists>u. u \<noteq> [] \<and> settled_uid_log (Settle env w) = snoc_coalesced (settled_uid_log w) u)"
    using s(4) by blast
  then have "no_stutter (settled_uid_log (Settle env w)) \<and> [] \<notin> set (settled_uid_log (Settle env w))"
    using inv by (auto simp: tv_inv_def gesture_ok_def)
  moreover have "\<not> active (snd (ctl_Settle (ctl w)))" by (simp add: ctl_Settle_def)
  ultimately have "gesture_ok (Settle env w)"
    using s(1-3) ctl_inv_Settle [of "ctl w"] by (simp add: gesture_ok_def)
  moreover have "reads_inv (Settle env w)"
    using reads_inv_posts [OF s(5) _ upsert_append_plain(1)] inv by (simp add: tv_inv_def)
  moreover have "rows_ok (Settle env w)" using rows_ok_Settle inv by (simp add: tv_inv_def)
  ultimately show ?thesis by (simp add: tv_inv_def)
qed (simp add: Settle_def)

lemma tv_inv_Cancel: "tv_inv w \<Longrightarrow> tv_inv (CancelGesture w)"
proof -
  assume inv: "tv_inv w"
  have "rows_ok (CancelGesture w) = rows_ok w" "reads_inv (CancelGesture w) = reads_inv w"
    by (rule inv_frame; simp add: CancelGesture_def Let_def)+
  moreover have "gesture_ok (CancelGesture w)"
    using inv ctl_inv_Settle [of "ctl w"]
    by (auto simp: tv_inv_def gesture_ok_def CancelGesture_def Let_def) (simp_all add: ctl_Settle_def)
  ultimately show ?thesis using inv by (simp add: tv_inv_def)
qed

lemma tv_inv_refresh: "tv_inv w \<Longrightarrow> tv_inv (w\<lparr>command_refreshes := n\<rparr>)"
  by (rule tv_inv_frame) (simp_all add: gesture_part_def)

lemma tv_inv_done: "tv_inv w \<Longrightarrow> tv_inv (w\<lparr>done_tokens := n\<rparr>)"
  by (rule tv_inv_frame) (simp_all add: gesture_part_def)

lemma tv_inv_Resync: "tv_inv w \<Longrightarrow> tv_inv (ResyncCoordinatorThenDone d w)"
  unfolding ResyncCoordinatorThenDone_def OnBrowsingDataCleared_def Let_def
  by (intro tv_inv_done tv_inv_calm [OF _ gesture_part_Reach calm_Reach] tv_inv_LoadReopenable)

lemma reads_ok_store_step: "reads_ok g j \<Longrightarrow> reads_ok g (store_step se j)"
proof (cases "queue j")
  case (Cons t q)
  assume ok: "reads_ok g j"
  have r: "list_ex (reply_gen g') (snd (run_task se t st)) = reads_gen g' t" for g' st
    by (cases t) (auto split: continuation.splits elim: reply_gen.elims reads_gen.elims)
  show ?thesis
    using ok Cons unfolding store_step_Cons [OF Cons] by (auto simp: reads_ok_def r)
qed (simp add: store_step_def)

lemma tv_inv_journal:
  assumes "tv_inv w" and "journal w = Some j" and "reads_ok (reopenable_generation w) j'"
  shows "tv_inv (w\<lparr>journal := Some j'\<rparr>)"
proof -
  have "rows_ok (w\<lparr>journal := Some j'\<rparr>) = rows_ok w" by (simp add: rows_ok_def)
  moreover have "gesture_ok (w\<lparr>journal := Some j'\<rparr>) = gesture_ok w" by (rule gesture_ok_part) simp
  ultimately show ?thesis using assms by (simp add: tv_inv_def reads_inv_def)
qed

lemma tv_inv_reads: "tv_inv w \<Longrightarrow> journal w = Some j \<Longrightarrow> reads_ok (reopenable_generation w) j"
  by (simp add: tv_inv_def reads_inv_def)

lemma tv_inv_run_reply: "tv_inv w \<Longrightarrow> tv_inv (run_reply r w)"
  by (auto simp: run_reply_def tv_inv_JournalLoaded tv_inv_ReopenableLoaded tv_inv_Resync
      split: reply.split continuation.split)

lemma tv_inv_deliver: "tv_inv w \<Longrightarrow> tv_inv (deliver w)"
proof (cases "journal w")
  case (Some j)
  assume inv: "tv_inv w"
  show ?thesis
  proof (cases "outbox j")
    case (Cons r rs)
    have "reads_ok (reopenable_generation w) (j\<lparr>outbox := rs\<rparr>)"
      using tv_inv_reads [OF inv Some] Cons by (auto simp: reads_ok_def)
    then show ?thesis
      using tv_inv_run_reply [OF tv_inv_journal [OF inv Some]] Some Cons by (simp add: deliver_def)
  qed (use inv Some in \<open>simp add: deliver_def\<close>)
qed (simp add: deliver_def)

lemma tv_inv_JournalLoad: "tv_inv w \<Longrightarrow> tv_inv (LoadPersistedJournal w)"
proof (cases "journal w")
  case (Some j)
  assume inv: "tv_inv w"
  have ok: "reads_ok (reopenable_generation w) (AsyncCall (ReadAll_task Journal_loaded) j)"
    using tv_inv_reads [OF inv Some] fresh_queue_append_plain [of "[ReadAll_task Journal_loaded]"]
    by (auto simp: reads_ok_def AsyncCall_def plain_def)
  show ?thesis
    using Some tv_inv_journal [OF inv Some ok] tv_inv_journal [OF inv Some tv_inv_reads [OF inv Some]]
    by (auto simp: LoadPersistedJournal_def GetVisits_def Let_def intro!: tv_inv_LoadReopenable tv_inv_JournalLoaded)
qed (simp add: LoadPersistedJournal_def tv_inv_JournalLoaded)

lemma tv_inv_Prepare: "tv_inv w \<Longrightarrow> tv_inv (PrepareForBrowsingDataClear w)"
proof -
  assume "tv_inv w"
  then have inv: "tv_inv (CancelGesture w)" by (rule tv_inv_Cancel)
  define w1 where "w1 = CancelGesture w"
  have eq: "PrepareForBrowsingDataClear w = w1\<lparr>reopenable := Map.empty, reopened_url_by_uid := Map.empty,
      reopenable_generation := reopenable_generation w1 + 1\<rparr>"
    by (simp add: PrepareForBrowsingDataClear_def w1_def Let_def)
  have "gesture_ok (PrepareForBrowsingDataClear w) = gesture_ok w1"
    by (rule gesture_ok_part) (simp add: eq gesture_part_def)
  moreover have "rows_ok (PrepareForBrowsingDataClear w)" by (simp add: eq rows_ok_def)
  moreover have "reads_inv (PrepareForBrowsingDataClear w)"
    using inv unfolding w1_def [symmetric]
    by (auto simp: eq tv_inv_def reads_inv_def reads_ok_def fresh_queue_no_reads split: option.splits)
  ultimately show ?thesis using inv by (simp add: tv_inv_def w1_def)
qed

lemma tv_inv_Clear: "tv_inv w \<Longrightarrow> tv_inv (ClearJournalForBrowsingData b e token w)"
proof (cases "journal w")
  case None
  assume "tv_inv w"
  then show ?thesis using None tv_inv_done by (simp add: ClearJournalForBrowsingData_def)
next
  case (Some j)
  assume inv: "tv_inv w"
  define w1 where "w1 = PrepareForBrowsingDataClear w"
  have inv1: "tv_inv w1" unfolding w1_def by (rule tv_inv_Prepare [OF inv])
  have j1: "journal w1 = Some j" "reopenable_generation w1 = reopenable_generation w + 1"
    using Some by (simp_all add: w1_def PrepareForBrowsingDataClear_def CancelGesture_def Let_def)
  have no: "\<not> list_ex (reads_gen (reopenable_generation w + 1)) (queue j)"
      "\<not> list_ex (reply_gen (reopenable_generation w + 1)) (outbox j)"
    using tv_inv_reads [OF inv Some] by (simp_all add: reads_ok_def)
  have "reads_ok (reopenable_generation w1) (AsyncCall (Clear_task b e (Resync_then_done token)) j)"
    using tv_inv_reads [OF inv1 j1(1)] no j1(2)
    by (auto simp: reads_ok_def AsyncCall_def intro: fresh_queue_no_reads)
  then show ?thesis
    using Some j1(1) tv_inv_journal [OF inv1 j1(1)] tv_inv_Resync [OF tv_inv_journal [OF inv1 j1(1) tv_inv_reads [OF inv1 j1(1)]]]
    by (auto simp: ClearJournalForBrowsingData_def ClearBrowsingData_def w1_def [symmetric] Let_def)
qed

lemma tv_inv_on_tv: "tv_inv w \<Longrightarrow> tv_inv (on_tv env e w)"
proof (cases e)
  case (Windows_change ws c)
  assume inv: "tv_inv w"
  have "tv_inv (w\<lparr>windows := ws\<rparr>)" by (rule tv_inv_frame [OF inv]) simp_all
  then show ?thesis using Windows_change tv_inv_change by (auto simp: on_tv_def Let_def split: option.split)
next
  case (Store_runs se)
  assume inv: "tv_inv w"
  show ?thesis
  proof (cases "journal w")
    case (Some j)
    then show ?thesis
      using Store_runs tv_inv_journal [OF inv Some reads_ok_store_step [OF tv_inv_reads [OF inv Some]]]
      by (simp add: on_tv_def with_journal_def)
  qed (use inv Store_runs in \<open>simp add: on_tv_def with_journal_def\<close>)
next
  case (Entries_change es)
  assume "tv_inv w"
  then show ?thesis using Entries_change by (auto simp: on_tv_def gesture_part_def intro: tv_inv_frame)
next
  case (Pref_changed p)
  assume "tv_inv w"
  then show ?thesis using Pref_changed by (auto simp: on_tv_def gesture_part_def intro: tv_inv_frame)
next
  case (Time_passes t)
  assume "tv_inv w"
  then show ?thesis using Time_passes by (auto simp: on_tv_def gesture_part_def intro: tv_inv_frame)
qed (auto simp: on_tv_def tv_inv_command tv_inv_Settle tv_inv_deliver tv_inv_Clear tv_inv_JournalLoad
       OnEvent_def Let_def tv_inv_refresh tv_inv_Cancel AddJournalLoadedCallback_def co_Shutdown_def)

text \<open>A profile's start: a journal service just built, or none, and the coordinator just built.\<close>

inductive tv_reachable :: "tv_env \<Rightarrow> tv_world \<Rightarrow> bool" for env where
  start: "journal w0 = None \<or> journal w0 = Some (SettledVisitJournalService enabled in_memory) \<Longrightarrow>
          tv_reachable env (TabVisitTraversalCoordinator w0)"
| event: "tv_reachable env w \<Longrightarrow> tv_reachable env (on_tv env e w)"

lemma tv_reachable_inv: "tv_reachable env w \<Longrightarrow> tv_inv w"
proof (induction rule: tv_reachable.induct)
  case (start w0 enabled in_memory)
  have "reads_ok g (SettledVisitJournalService enabled in_memory)" for g
    by (simp add: SettledVisitJournalService_def reads_ok_def Let_def)
  then show ?case
    using start ctl_inv_new
    by (auto simp: tv_inv_def TabVisitTraversalCoordinator_def gesture_ok_def rows_ok_def reads_inv_def
        new_controller_def)
next
  case (event w e)
  then show ?case using tv_inv_on_tv by blast
qed

text \<open>
  C9: the coordinator's invariant. In every state reachable by any interleaving of commands, keys,
  timer firings, tab changes, store runs, replies and clears: the log never repeats a tab twice in a
  row and holds no nameless tab; a gesture is under way exactly while the walk is frozen and exactly
  while the debounce timer runs, so it always ends; and every reopenable row is closed, filed under
  its own uid and not already reopened.
\<close>

theorem coordinator_invariant:
  assumes "tv_reachable env w"
  shows "distinct_adj (settled_uid_log w) \<and> [] \<notin> set (settled_uid_log w) \<and>
    traversal_active w = active (ctl w) \<and> traversal_active w = debounce_running w \<and>
    (\<forall>u row. reopenable w u = Some row \<longrightarrow> restore_key row = u \<and> ts_closed row \<and> u \<notin> recently_reopened w)"
  using tv_reachable_inv [OF assms] unfolding tv_inv_def gesture_ok_def rows_ok_def no_stutter_def by blast

lemma coordinator_invariant_witness:
  "distinct_adj (settled_uid_log (on_tv demo_env Back_command (TabVisitTraversalCoordinator demo_world)))"
proof -
  have "tv_reachable demo_env (TabVisitTraversalCoordinator demo_world)"
    by (rule tv_reachable.start [of _ True True]) (simp add: demo_world_def)
  then show ?thesis using coordinator_invariant [OF tv_reachable.event] by blast
qed

lemma tidy_LoadReopenable: "tidy w (LoadReopenableFromSidecar w)"
proof -
  have 1: "tidy w (OnReachabilityMaybeChanged w)" for w by (rule calm_tidy [OF calm_Reach])
  have 2: "tidy w (w\<lparr>journal := x\<rparr>)" for x by (rule tidy_same) simp_all
  show ?thesis by (auto simp: LoadReopenable_cases OnReopenableLoaded_def 1 2 tidy_same split: option.split)
qed

lemma tidy_command: "tidy w (TabVisitBack env b w)" "tidy w (TabVisitForward env b w)"
proof -
  have c: "tidy w c" if "CoordinatorFor b w = Some c" for c
    using CoordinatorFor_cases [OF that] calm_tidy by blast
  have s: "tidy c (StepAndActivate env fwd (EnsureGesture c))" for c fwd
    by (rule calm_tidy [OF calm_trans [OF EnsureGesture_fields(3) Step_effect(4) [OF EnsureGesture_fields(2)]]])
  show "tidy w (TabVisitBack env b w)" "tidy w (TabVisitForward env b w)"
    using c tidy_trans [OF c s] tidy_same [of w w]
    by (auto simp: TabVisitBack_def TabVisitForward_def StepBack_def StepForward_def split: option.split)
qed

lemma tidy_Cancel: "tidy w (CancelGesture w)"
  by (rule tidy_same) (simp_all add: CancelGesture_def Let_def)

lemma tidy_Resync: "tidy w (ResyncCoordinatorThenDone d w)"
  unfolding ResyncCoordinatorThenDone_def OnBrowsingDataCleared_def Let_def
  by (rule tidy_trans [OF tidy_trans [OF tidy_LoadReopenable calm_tidy [OF calm_Reach]] tidy_same]) simp_all

lemma tidy_Clear: "tidy w (ClearJournalForBrowsingData b e token w)"
proof -
  have "tidy w (PrepareForBrowsingDataClear w)"
    by (simp add: tidy_def PrepareForBrowsingDataClear_def Let_def rows_ok_def)
  moreover have "tidy x (x\<lparr>journal := y\<rparr>)" for x y by (rule tidy_same) simp_all
  ultimately have p: "tidy w ((PrepareForBrowsingDataClear w)\<lparr>journal := y\<rparr>)" for y using tidy_trans by blast
  have n: "tidy w (w\<lparr>done_tokens := y\<rparr>)" for y by (rule tidy_same) simp_all
  show ?thesis
    using p n tidy_trans [OF p tidy_Resync]
    by (auto simp: ClearJournalForBrowsingData_def ClearBrowsingData_def Let_def split: option.split)
qed

lemma tidy_JournalLoaded: "tidy w (OnJournalLoaded rows w)"
  by (rule tidy_same) (simp_all add: OnJournalLoaded_def Let_def)

lemma tidy_JournalLoad: "tidy w (LoadPersistedJournal w)"
proof -
  have j: "tidy w (w\<lparr>journal := y\<rparr>)" for y by (rule tidy_same) simp_all
  show ?thesis
    using tidy_trans [OF j tidy_LoadReopenable] tidy_trans [OF tidy_trans [OF j tidy_JournalLoaded] tidy_LoadReopenable]
    by (auto simp: LoadPersistedJournal_def GetVisits_def Let_def tidy_JournalLoaded split: option.split)
qed

definition deleted_uids :: "removed_tab list \<Rightarrow> uid set" where
  "deleted_uids rs = {removed_uid r |r. r \<in> set rs \<and> will_delete r}"

lemma deleted_uids_Cons: "deleted_uids (r # rs) = (if will_delete r then {removed_uid r} else {}) \<union> deleted_uids rs"
  by (auto simp: deleted_uids_def)

lemma dom_persist:
  "dom (reopenable (fold persist_closed_tab rs w)) \<subseteq> dom (reopenable w) \<union> deleted_uids rs"
proof (induction rs arbitrary: w)
  case (Cons r rs)
  have "dom (reopenable (persist_closed_tab r w)) \<subseteq>
      dom (reopenable w) \<union> (if will_delete r then {removed_uid r} else {})"
    by (auto simp: persist_closed_tab_def with_journal_def AddReopenable_def OnReachabilityMaybeChanged_def
        closed_row_def split: option.splits if_splits)
  then have "dom (reopenable (persist_closed_tab r w)) \<union> deleted_uids rs \<subseteq> dom (reopenable w) \<union> deleted_uids (r # rs)"
    unfolding deleted_uids_Cons by blast
  then show ?case unfolding fold_simps(2) by (rule order_trans [OF Cons.IH])
qed simp

lemma reopenable_Reach [simp]: "reopenable (OnReachabilityMaybeChanged w) = reopenable w"
  by (simp add: OnReachabilityMaybeChanged_def)

lemma dom_change:
  "dom (reopenable (OnTabStripModelChanged c w)) \<subseteq>
   dom (reopenable w) \<union> deleted_uids (removed c)"
proof (cases "change_type c = kRemoved")
  case True
  then have "reopenable (OnTabStripModelChanged c w) = reopenable w \<or>
      reopenable (OnTabStripModelChanged c w) = reopenable (fold persist_closed_tab (removed c) w)"
    by (simp add: OnTabStripModelChanged_def ShouldCommitActivation_def PersistClosedTabsToSidecar_def)
  then show ?thesis using dom_persist [of "removed c" w] by (elim disjE) simp_all
next
  case False
  have "reopenable (OnTabStripModelChanged c w) = reopenable w"
    using False by (simp add: OnTabStripModelChanged_def OnReachabilityMaybeChanged_def Let_def with_journal_def
        RecordSettledUid_def split: option.split)
  then show ?thesis by simp
qed

lemma deliver_dom:
  assumes "tv_inv w" and "journal w = Some j" and pending: "list_ex is_clear (queue j)"
  shows "dom (reopenable (deliver w)) \<subseteq> dom (reopenable w)"
proof (cases "outbox j")
  case Nil
  then show ?thesis using assms(2) by (simp add: deliver_def)
next
  case (Cons r rs)
  define w1 where "w1 = w\<lparr>journal := Some (j\<lparr>outbox := rs\<rparr>)\<rparr>"
  have d: "deliver w = run_reply r w1" using assms(2) Cons by (simp add: deliver_def w1_def)
  have "\<not> reply_gen (reopenable_generation w) r"
    using tv_inv_reads [OF assms(1,2)] pending Cons by (auto simp: reads_ok_def)
  then have "OnReopenableLoaded g rows w1 = w1" if "r = TabStates_reply (Reopenable_loaded g) rows" for g rows
    using that by (auto simp: OnReopenableLoaded_def w1_def)
  then have "tidy w1 (run_reply r w1)"
    using tidy_JournalLoaded tidy_Resync tidy_same [of w1 w1]
    by (auto simp: run_reply_def split: reply.split continuation.split)
  then show ?thesis unfolding d by (simp add: tidy_def w1_def)
qed

text \<open>
  C8: clearing browsing data leaves nothing to resurrect. Beginning a clear ends the gesture without a
  visit and forgets every closed tab at once; and while a clear is pending in the store's queue no
  event makes a tab reopenable, in particular no reply to a read of the sidecar posted before the
  clear, except the closing of a tab in the meantime.
\<close>

theorem clear_resurrects_nothing:
  assumes "tv_reachable env w" and "journal w = Some j"
  shows "(store_bound j \<longrightarrow> reopenable (on_tv env (Clear_data b e token) w) = Map.empty \<and>
       \<not> traversal_active (on_tv env (Clear_data b e token) w) \<and>
       settled_uid_log (on_tv env (Clear_data b e token) w) = settled_uid_log w) \<and>
    (list_ex is_clear (queue j) \<longrightarrow> u \<in> dom (reopenable (on_tv env ev w)) \<longrightarrow> u \<notin> dom (reopenable w) \<longrightarrow>
       (\<exists>ws c r. ev = Windows_change ws (Some c) \<and> r \<in> set (removed c) \<and> will_delete r \<and> removed_uid r = u))"
proof -
  note inv = tv_reachable_inv [OF assms(1)]
  have clear: "reopenable (on_tv env (Clear_data b e token) w) = Map.empty \<and>
      \<not> traversal_active (on_tv env (Clear_data b e token) w) \<and>
      settled_uid_log (on_tv env (Clear_data b e token) w) = settled_uid_log w" if "store_bound j"
    using that assms(2)
    by (auto simp: on_tv_def ClearJournalForBrowsingData_def ClearBrowsingData_def PrepareForBrowsingDataClear_def
        CancelGesture_def Let_def)
  have sub: "dom (reopenable (on_tv env ev w)) \<subseteq> dom (reopenable w)"
    if p: "list_ex is_clear (queue j)" and "\<nexists>ws c. ev = Windows_change ws (Some c)"
  proof (cases ev)
    case (Windows_change ws c)
    then show ?thesis using that(2) by (cases c) (simp_all add: on_tv_def)
  next
    case (Key_event a b' c)
    then show ?thesis
      using tidy_Settle tidy_Cancel unfolding tidy_def by (simp add: on_tv_def OnEvent_def Let_def)
  next
    case Debounce_fires
    then show ?thesis using tidy_Settle unfolding tidy_def by (simp add: on_tv_def)
  next
    case (Store_runs se)
    then show ?thesis using tidy_journal unfolding tidy_def by (simp add: on_tv_def)
  next
    case Reply_delivered
    then show ?thesis using deliver_dom [OF inv assms(2) p] by (simp add: on_tv_def)
  next
    case (Clear_data b' e' t)
    then show ?thesis using tidy_Clear unfolding tidy_def by (simp add: on_tv_def)
  next
    case Journal_load
    then show ?thesis using tidy_JournalLoad unfolding tidy_def by (simp add: on_tv_def)
  next
    case Profile_shutdown
    then show ?thesis using tidy_Cancel unfolding tidy_def by (simp add: on_tv_def co_Shutdown_def)
  next
    case Back_command
    then show ?thesis using tidy_command(1) unfolding tidy_def by (simp add: on_tv_def)
  next
    case Forward_command
    then show ?thesis using tidy_command(2) unfolding tidy_def by (simp add: on_tv_def)
  qed (simp_all add: on_tv_def AddJournalLoadedCallback_def)
  have change: "\<exists>r. r \<in> set (removed c) \<and> will_delete r \<and> removed_uid r = u"
    if "ev = Windows_change ws (Some c)" "u \<in> dom (reopenable (on_tv env ev w))" "u \<notin> dom (reopenable w)" for ws c
    using that dom_change [of c "w\<lparr>windows := ws\<rparr>"] by (auto simp: on_tv_def Let_def deleted_uids_def)
  show ?thesis using clear sub change by blast
qed

lemma clear_resurrects_nothing_witness:
  "reopenable (on_tv demo_env (Clear_data 0 9 3) (TabVisitTraversalCoordinator demo_world)) = Map.empty"
proof -
  have r: "tv_reachable demo_env (TabVisitTraversalCoordinator demo_world)"
    by (rule tv_reachable.start [of _ True True]) (simp add: demo_world_def)
  have j: "journal (TabVisitTraversalCoordinator demo_world) = Some (SettledVisitJournalService True True)"
    by (simp add: TabVisitTraversalCoordinator_def demo_world_def)
  have "store_bound (SettledVisitJournalService True True :: continuation journal_service)"
    by (simp add: SettledVisitJournalService_def Let_def)
  then show ?thesis using clear_resurrects_nothing [OF r j] by blast
qed

subsection \<open>Where a Back lands\<close>

lemma find_tab_Some:
  "find_tab u ts n = Some j \<Longrightarrow> n \<le> j \<and> j - n < length ts \<and> tab_uid (ts ! (j - n)) = u"
proof (induction u ts n rule: find_tab.induct)
  case (2 u t ts i)
  then show ?case by (cases "tab_uid t = u") (auto simp: nth_Cons' Suc_diff_le less_eq_Suc_le)
qed simp

lemma find_tab_None: "find_tab u ts n = None \<longleftrightarrow> u \<notin> tab_uid ` set ts"
  by (induction u ts n rule: find_tab.induct) auto

lemma find_location_Some:
  "find_location u bs n = Some (i, j) \<Longrightarrow>
     n \<le> i \<and> i - n < length bs \<and> own_profile (bs ! (i - n)) \<and> find_tab u (win_tabs (bs ! (i - n))) 0 = Some j"
proof (induction u bs n rule: find_location.induct)
  case (2 u b bs n)
  show ?case
  proof (cases "own_profile b \<and> find_tab u (win_tabs b) 0 \<noteq> None")
    case True
    then show ?thesis using 2 by auto
  next
    case False
    then have "find_location u bs (n + 1) = Some (i, j)" using 2(3) by (auto split: if_splits option.splits)
    then have "n + 1 \<le> i \<and> i - (n + 1) < length bs \<and> own_profile (bs ! (i - (n + 1))) \<and>
        find_tab u (win_tabs (bs ! (i - (n + 1)))) 0 = Some j"
      using 2(1,2) False by (cases "own_profile b") auto
    then show ?thesis by (auto simp: nth_Cons' Suc_diff_le)
  qed
qed simp

lemma find_location_None:
  "find_location u bs n = None \<longleftrightarrow> (\<forall>b \<in> set bs. own_profile b \<longrightarrow> u \<notin> tab_uid ` set (win_tabs b))"
  by (induction u bs n rule: find_location.induct) (auto simp: find_tab_None [of _ _ 0, symmetric] split: option.splits)

lemma ResolveUid_iff_live: "(\<exists>loc. ResolveUid u w = Some loc) \<longleftrightarrow> u \<in> CollectLiveUids w"
  using find_location_None [of u "windows w" 0]
  by (cases "find_location u (windows w) 0") (auto simp: ResolveUid_def CollectLiveUids_def)

lemma ResolveUid_Some:
  assumes "ResolveUid u w = Some (i, j)"
  shows "i < length (windows w)" "own_profile (windows w ! i)" "j < length (win_tabs (windows w ! i))"
    "tab_uid (win_tabs (windows w ! i) ! j) = u"
  using assms find_location_Some [of u "windows w" 0 i j] find_tab_Some [of u "win_tabs (windows w ! i)" 0 j]
  by (auto simp: ResolveUid_def split: if_splits)

lemma first_Back_lands:
  assumes "ctl_inv c" and "\<not> active c" and "CanBeginBackTraversal j R"
  shows "\<exists>c'. Back (BeginGesture j R c) = (Some (hd (filter (\<lambda>u. u \<in> R) (tl (DeriveMruOrder j)))), c') \<and>
     Current c' = Some (hd (filter (\<lambda>u. u \<in> R) (tl (DeriveMruOrder j))))"
proof -
  define g where "g = BeginGesture j R c"
  have g: "ctl_inv g" unfolding g_def by (rule ctl_inv_BeginGesture [OF assms(1)])
  have g0: "cursor g = 0" using assms(2) by (simp add: g_def BeginGesture_def Let_def)
  have l: "landings_from g 1 = filter (\<lambda>u. u \<in> R) (tl (DeriveMruOrder j))"
    unfolding g_def by (rule landings_from_BeginGesture [OF assms(2)])
  have ne: "filter (\<lambda>u. u \<in> R) (tl (DeriveMruOrder j)) \<noteq> []" using assms(3) by (simp add: CanBeginBackTraversal_filter)
  from g show ?thesis
  proof (cases rule: Back_cases)
    case stuck
    then show ?thesis using g0 l ne by simp
  next
    case (lands k)
    then have "frozen_order g ! nat k = hd (filter (\<lambda>u. u \<in> R) (tl (DeriveMruOrder j)))"
      using g0 l by simp
    then show ?thesis
      using lands(1,3,4,5) Current_at_landable [of k g] g0 unfolding g_def by auto
  qed
qed

lemma first_Back_effect:
  assumes "tv_reachable env w" and "\<not> traversal_active w" and "tab_visit_nav w" and "co_CanGoBack w"
    and u: "u = hd (filter (\<lambda>x. x \<in> CollectReachableUids w) (tl (DeriveMruOrder (settled_uid_log w))))"
    and w': "w' = on_tv env Back_command w"
  shows "Current (ctl w') = Some u \<and> u \<in> CollectReachableUids w \<and> u \<in> set (settled_uid_log w) - {last (settled_uid_log w)} \<and>
    (u \<in> CollectLiveUids w \<longrightarrow>
       (\<exists>i j. i < length (windows w') \<and> win_active (windows w' ! i) = j \<and> j < length (win_tabs (windows w' ! i)) \<and>
          tab_uid (win_tabs (windows w' ! i) ! j) = u \<and> focused_window w' = Some (win_id (windows w' ! i))))"
proof -
  define c where "c = (if reopen_fn_set w then w else SetReopenFn w)"
  have cf: "CoordinatorFor True w = Some c" using assms(3) by (simp add: CoordinatorFor_def c_def)
  have c: "windows c = windows w" "CollectReachableUids c = CollectReachableUids w" "settled_uid_log c = settled_uid_log w"
      "ctl c = ctl w" "traversal_active c = traversal_active w" "tab_visit_nav c" "co_CanGoBack c"
    using assms(3,4) by (auto simp: c_def SetReopenFn_def CollectReachableUids_def CollectLiveUids_def co_CanGoBack_def)
  define e where "e = EnsureGesture c"
  have ctl_e: "ctl e = BeginGesture (settled_uid_log w) (CollectReachableUids w) (ctl w)" "windows e = windows w"
      "traversal_active e"
    using c assms(2) by (simp_all add: e_def EnsureGesture_def)
  have can: "CanBeginBackTraversal (settled_uid_log w) (CollectReachableUids w)"
    using assms(2,4) by (simp add: co_CanGoBack_def)
  have inv: "ctl_inv (ctl w)" "\<not> active (ctl w)"
    using tv_reachable_inv [OF assms(1)] assms(2) by (simp_all add: tv_inv_def gesture_ok_def)
  obtain c' where bk: "Back (ctl e) = (Some u, c')" "Current c' = Some u"
    unfolding ctl_e u using first_Back_lands [OF inv can] by blast
  have w'_eq: "w' = StepAndActivate env False e"
    using cf c by (simp add: w' on_tv_def TabVisitBack_def StepBack_def e_def)
  have cur: "Current (ctl w') = Some u"
    unfolding w'_eq Step_effect(2) [OF ctl_e(3)] using bk by simp
  have ne: "filter (\<lambda>x. x \<in> CollectReachableUids w) (tl (DeriveMruOrder (settled_uid_log w))) \<noteq> []"
    using can by (simp add: CanBeginBackTraversal_filter)
  then have mem: "u \<in> CollectReachableUids w" "u \<in> set (tl (DeriveMruOrder (settled_uid_log w)))"
    unfolding u using hd_in_set [OF ne] by auto
  have "settled_uid_log w \<noteq> []" using mem(2) by (auto simp: DeriveMruOrder_eq)
  then have diff: "u \<in> set (settled_uid_log w) - {last (settled_uid_log w)}"
    using mem(2) tl_DeriveMruOrder by metis
  have "\<exists>i j. i < length (windows w') \<and> win_active (windows w' ! i) = j \<and> j < length (win_tabs (windows w' ! i)) \<and>
          tab_uid (win_tabs (windows w' ! i) ! j) = u \<and> focused_window w' = Some (win_id (windows w' ! i))"
    if live: "u \<in> CollectLiveUids w"
  proof -
    obtain i j where r: "ResolveUid u w = Some (i, j)" using live ResolveUid_iff_live [of u w] by fastforce
    note ij = ResolveUid_Some [OF r]
    define w1 where "w1 = e\<lparr>ctl := c'\<rparr>"
    have w1: "windows w1 = windows w" "traversal_active w1" "ResolveUid u w1 = Some (i, j)"
      using r by (simp_all add: w1_def ctl_e ResolveUid_def split: if_splits)
    have act: "OnTabStripModelChanged \<lparr>change_type = kSelectionOnly, removed = [], active_changed = True, new_contents = Some t\<rparr> x = x"
      if "traversal_active x" for t x
      using that by (simp add: OnTabStripModelChanged_def ShouldCommitActivation_def)
    have "w' = (ActivateLocation (i, j) w1)\<lparr>debounce_running := True\<rparr>"
      using w1(3) bk(1) by (simp add: w'_eq StepAndActivate_def Let_def resolve_or_reopen_def w1_def)
    then have "windows w' = (windows w)[i := (windows w ! i)\<lparr>win_active := j\<rparr>] \<and>
        focused_window w' = Some (win_id (windows w ! i))"
      using w1(1,2) act by (simp add: ActivateLocation_def Let_def)
    then show ?thesis using ij by (intro exI [of _ i] exI [of _ j]) simp
  qed
  then show ?thesis using cur mem(1) diff by blast
qed

text \<open>
  The first Back always lands. Whenever Back is offered and no gesture is under way, pressing it
  rests the walk on the most recently visited reachable tab other than the one the log ends with; if
  that tab is open, it becomes the active tab of its window and that window is the one focused.
\<close>

theorem first_back_lands:
  assumes "tv_reachable env w" and "\<not> traversal_active w" and "tab_visit_nav w" and "co_CanGoBack w"
    and u: "u = hd (filter (\<lambda>x. x \<in> CollectReachableUids w) (tl (DeriveMruOrder (settled_uid_log w))))"
    and w': "w' = on_tv env Back_command w"
  shows "Current (ctl w') = Some u \<and> u \<in> CollectReachableUids w \<and> u \<in> set (settled_uid_log w) - {last (settled_uid_log w)} \<and>
    (u \<in> CollectLiveUids w \<longrightarrow>
       (\<exists>i j. i < length (windows w') \<and> win_active (windows w' ! i) = j \<and> j < length (win_tabs (windows w' ! i)) \<and>
          tab_uid (win_tabs (windows w' ! i) ! j) = u \<and> focused_window w' = Some (win_id (windows w' ! i))))"
  using assms by (rule first_Back_effect)

lemma first_back_lands_witness:
  "\<exists>w' i. focused_window w' = Some (win_id (windows w' ! i)) \<and>
     tab_uid (win_tabs (windows w' ! i) ! win_active (windows w' ! i)) = ''a'' \<and> w' = on_tv demo_env Back_command
     (on_tv demo_env (Windows_change (windows demo_world) (Some \<lparr>change_type = kSelectionOnly, removed = [],
          active_changed = True, new_contents = Some \<lparr>tab_uid = ''b'', tab_url = demo_url ''https://b/''\<rparr>\<rparr>))
       (on_tv demo_env (Windows_change (windows demo_world) (Some \<lparr>change_type = kSelectionOnly, removed = [],
            active_changed = True, new_contents = Some \<lparr>tab_uid = ''a'', tab_url = demo_url ''https://a/''\<rparr>\<rparr>))
         (TabVisitTraversalCoordinator demo_world)))"
proof -
  define w0 where "w0 = TabVisitTraversalCoordinator demo_world"
  define visit where "visit = (\<lambda>u. Windows_change (windows demo_world) (Some \<lparr>change_type = kSelectionOnly,
     removed = [], active_changed = True, new_contents = Some \<lparr>tab_uid = u, tab_url = demo_url (''https://'' @ u @ ''/'')\<rparr>\<rparr>))"
  define w2 where "w2 = on_tv demo_env (visit ''b'') (on_tv demo_env (visit ''a'') w0)"
  have "tv_reachable demo_env w0"
    unfolding w0_def by (rule tv_reachable.start [of _ True True]) (simp add: demo_world_def)
  then have r: "tv_reachable demo_env w2" unfolding w2_def by (intro tv_reachable.event)
  have j: "journal (with_journal f x) = map_option f (journal x)" "windows (with_journal f x) = windows x"
    "settled_uid_log (with_journal f x) = settled_uid_log x" "traversal_active (with_journal f x) = traversal_active x"
    "tab_visit_nav (with_journal f x) = tab_visit_nav x" "reopen_pref (with_journal f x) = reopen_pref x"
    for f x by (simp_all add: with_journal_def split: option.split)
  have f: "settled_uid_log w2 = [''a'', ''b''] \<and> \<not> traversal_active w2 \<and> tab_visit_nav w2 \<and>
      windows w2 = windows demo_world \<and> \<not> reopen_pref w2"
    by (simp add: w2_def w0_def visit_def on_tv_def Let_def OnTabStripModelChanged_def ShouldCommitActivation_def
        TabVisitTraversalCoordinator_def demo_world_def RecordSettledUid_def j)
  have live: "CollectReachableUids w2 = {''a'', ''b''}" "CollectLiveUids w2 = {''a'', ''b''}"
    using f by (auto simp: CollectReachableUids_def CollectLiveUids_def demo_world_def)
  have can: "co_CanGoBack w2"
    using f live by (simp add: co_CanGoBack_def CanBeginBackTraversal_filter DeriveMruOrder_eq)
  have hd: "''a'' = hd (filter (\<lambda>x. x \<in> CollectReachableUids w2) (tl (DeriveMruOrder (settled_uid_log w2))))"
    using f live by (simp add: DeriveMruOrder_eq)
  define w' where "w' = on_tv demo_env Back_command w2"
  obtain i where "focused_window w' = Some (win_id (windows w' ! i))"
      "tab_uid (win_tabs (windows w' ! i) ! win_active (windows w' ! i)) = ''a''"
    using first_back_lands [OF r _ _ can hd w'_def] f live by auto
  then show ?thesis unfolding w'_def w2_def w0_def visit_def by auto
qed

end
