(* ===== verification/Journal_Restart.thy ===== *)
theory Journal_Restart
  imports Coordinator_Reach "HOL-Library.Sublist"
begin

text \<open>
  The journal across a restart: the coordinator's log in memory (theory Coordinator), the appends it posts
  through the service (theory Journal_Service) and the visits the store keeps (theory Visits_Store), composed
  over whole sessions. The relation is \<open>covers\<close>: the visits on disk and under way, with equal
  neighbours merged, are found in the log in their order.
\<close>

subsection \<open>Merged lists\<close>

definition covers :: "'a list \<Rightarrow> 'a list \<Rightarrow> bool" where
  "covers l xs \<longleftrightarrow> subseq (remdups_adj xs) l"

lemma remdups_adj_snoc: "remdups_adj (xs @ [x]) = snoc_coalesced (remdups_adj xs) x"
  by (cases xs rule: rev_cases) (auto simp: remdups_adj_append_two snoc_coalesced_def)

lemma coalesce_remdups: "coalesce us = remdups_adj us"
  by (induction us rule: rev_induct) (simp_all add: coalesce_def remdups_adj_snoc)

lemma subseq_snoc_coalesced: "subseq l (snoc_coalesced l u)"
  by (simp add: snoc_coalesced_def subseq_rev_drop_many)

lemma subseq_butlast:
  assumes "subseq xs (zs @ [y])" and "xs = [] \<or> last xs \<noteq> y"
  shows "subseq xs zs"
proof -
  obtain a b where ab: "xs = a @ b" "subseq a zs" "subseq b [y]" using assms(1) by (rule subseq_appendE)
  have "b = [] \<or> b = [y]" using ab(3) by (cases b) (auto simp: subseq_singleton_left split: if_splits)
  then show ?thesis using ab assms(2) by auto
qed

lemma subseq_merged:
  assumes "distinct_adj xs" and "subseq xs ys"
  shows "subseq xs (remdups_adj ys)"
  using assms
proof (induction ys arbitrary: xs rule: rev_induct)
  case (snoc y ys)
  obtain a b where ab: "xs = a @ b" "subseq a ys" "subseq b [y]" using snoc.prems(2) by (rule subseq_appendE)
  have b: "b = [] \<or> b = [y]" using ab(3) by (cases b) (auto split: if_splits)
  have a: "subseq a (remdups_adj ys)" using snoc.IH [OF _ ab(2)] snoc.prems(1) ab(1) by (simp add: distinct_adj_append_iff)
  show ?case
  proof (cases "b = []")
    case True
    then show ?thesis
      using a subseq_order.trans [OF a subseq_snoc_coalesced] ab(1) by (simp add: remdups_adj_snoc)
  next
    case False
    then have xs: "xs = a @ [y]" using b ab(1) by simp
    show ?thesis
    proof (cases "ys \<noteq> [] \<and> last ys = y")
      case last: True
      then obtain zs where zs: "remdups_adj ys = zs @ [y]"
        by (cases "remdups_adj ys" rule: rev_cases) (auto dest: arg_cong [of _ _ last])
      have "a = [] \<or> last a \<noteq> y" using snoc.prems(1) xs by (auto simp: distinct_adj_append_iff)
      then have "subseq a zs" using subseq_butlast a zs by metis
      then show ?thesis using last zs by (simp add: remdups_adj_snoc snoc_coalesced_def xs)
    next
      case no: False
      then show ?thesis using a by (auto simp: remdups_adj_snoc snoc_coalesced_def xs)
    qed
  qed
qed simp

lemma covers_longer: "covers l xs \<Longrightarrow> subseq l l' \<Longrightarrow> covers l' xs"
  unfolding covers_def by (rule subseq_order.trans)

lemma covers_fewer: "covers l xs \<Longrightarrow> subseq ys xs \<Longrightarrow> covers l ys"
proof -
  assume l: "covers l xs" and ys: "subseq ys xs"
  have "subseq (remdups_adj ys) ys" by (induction ys rule: remdups_adj.induct) auto
  with ys have "subseq (remdups_adj ys) xs" using subseq_order.trans by blast
  then have "subseq (remdups_adj ys) (remdups_adj xs)" by (rule subseq_merged [rotated]) simp
  then show ?thesis using l subseq_order.trans by (auto simp: covers_def)
qed

lemma covers_merged: "subseq xs ys \<Longrightarrow> covers (remdups_adj ys) xs"
  using covers_fewer [of "remdups_adj ys" ys xs] by (simp add: covers_def)

lemma covers_snoc: "covers l xs \<Longrightarrow> covers (snoc_coalesced l u) (xs @ [u])"
proof -
  assume l: "covers l xs"
  show ?thesis
  proof (cases "xs \<noteq> [] \<and> last xs = u")
    case True
    then show ?thesis
      using covers_longer [OF l subseq_snoc_coalesced] by (simp add: covers_def remdups_adj_snoc snoc_coalesced_def)
  next
    case False
    then have m: "remdups_adj (xs @ [u]) = remdups_adj xs @ [u]" by (auto simp: remdups_adj_snoc snoc_coalesced_def)
    show ?thesis
    proof (cases "l \<noteq> [] \<and> last l = u")
      case True
      then obtain zs where "l = zs @ [u]" by (cases l rule: rev_cases) auto
      then show ?thesis
        using l False subseq_butlast [of "remdups_adj xs" zs u] by (auto simp: covers_def m snoc_coalesced_def)
    next
      case no: False
      then show ?thesis using l by (auto simp: covers_def m snoc_coalesced_def)
    qed
  qed
qed

subsection \<open>The uids on disk and under way\<close>

definition uids_of :: "VisitRow list \<Rightarrow> uid list" where
  "uids_of rows = filter (\<lambda>u. u \<noteq> []) (map vr_tab_uid rows)"

definition disk_uids :: "visits_store \<Rightarrow> uid list" where
  "disk_uids st = uids_of (ReadAll st)"

fun task_uids :: "'k store_task \<Rightarrow> uid list" where
  "task_uids (Append_task u _ _) = (if u = [] then [] else [u])"
| "task_uids _ = []"

definition queued_uids :: "'k store_task list \<Rightarrow> uid list" where
  "queued_uids ts = concat (map task_uids ts)"

lemma queued_simps [simp]:
  "queued_uids [] = []" "queued_uids (t # ts) = task_uids t @ queued_uids ts"
  "queued_uids (ts @ us) = queued_uids ts @ queued_uids us"
  by (simp_all add: queued_uids_def)

lemma subseq_filter_map: "subseq xs ys \<Longrightarrow> subseq (filter P (map f xs)) (filter P (map f ys))"
  by (intro subseq_filter subseq_map)

lemma subseq_last_n: "subseq (last_n n xs) xs"
  unfolding last_n_def by (rule suffix_imp_subseq) (rule suffix_drop)

lemma disk_uids_Some: "store_inv d \<Longrightarrow> disk_uids (Some d) = (if visits_cols d = Some True then uids_of (visits d) else [])"
  by (simp add: disk_uids_def uids_of_def ReadAll_def store_inv_def sort_key_id_sorted comp_def)

lemma disk_uids_same:
  "store_wf st \<Longrightarrow> store_wf st' \<Longrightarrow> (\<And>d d'. st = Some d \<Longrightarrow> st' = Some d' \<Longrightarrow>
     visits_cols d' = visits_cols d \<and> subseq (visits d') (visits d)) \<Longrightarrow> (st = None \<Longrightarrow> st' = None) \<Longrightarrow>
   subseq (disk_uids st') (disk_uids st)"
proof (cases st')
  case (Some d')
  assume wf: "store_wf st" "store_wf st'" and same: "\<And>d d'. st = Some d \<Longrightarrow> st' = Some d' \<Longrightarrow>
     visits_cols d' = visits_cols d \<and> subseq (visits d') (visits d)" and none: "st = None \<Longrightarrow> st' = None"
  obtain d where d: "st = Some d" using none Some by (cases st) auto
  have inv: "store_inv d" "store_inv d'" using wf d Some by (simp_all add: store_wf_def)
  show ?thesis
    using same [OF d Some] inv by (simp add: d Some disk_uids_Some uids_of_def subseq_filter_map)
qed (simp add: disk_uids_def ReadAll_def uids_of_def)

lemma append_uids:
  assumes "store_wf st"
  shows "subseq (disk_uids (Append f u url t st)) (disk_uids st @ (if u = [] then [] else [u]))"
proof (cases st)
  case (Some d)
  then have d: "store_inv d" using assms by (simp add: store_wf_def)
  let ?row = "\<lparr>vr_id = next_id d, vr_tab_uid = u, vr_url = url, vr_visited_at = ToStorage t\<rparr>"
  have "Append f u url t st = st \<or> visits_cols d = Some True \<and> Append f u url t st =
      Some (d\<lparr>visits := last_n kMaxVisits (visits d @ [?row]), next_id := next_id d + 1\<rparr>)"
    using trim_visits_eq [OF ids_snoc [OF d], of ?row] by (auto simp: Append_def Some Let_def)
  then show ?thesis
  proof (elim disjE conjE)
    assume a: "visits_cols d = Some True" "Append f u url t st =
      Some (d\<lparr>visits := last_n kMaxVisits (visits d @ [?row]), next_id := next_id d + 1\<rparr>)"
    then have "store_inv (d\<lparr>visits := last_n kMaxVisits (visits d @ [?row]), next_id := next_id d + 1\<rparr>)"
      using Append_wf [OF assms, of f u url t] by (simp add: store_wf_def)
    moreover have "subseq (last_n kMaxVisits (visits d @ [?row])) (visits d @ [?row])"
      by (rule subseq_last_n)
    ultimately show ?thesis
      using a d subseq_filter_map [of "last_n kMaxVisits (visits d @ [?row])" "visits d @ [?row]" "\<lambda>u. u \<noteq> []" vr_tab_uid]
      by (simp add: Some disk_uids_Some uids_of_def split: if_splits)
  qed (auto intro: subseq_rev_drop_many)
qed (simp add: Append_def subseq_rev_drop_many)

lemma run_task_uids:
  assumes "store_wf st" and "\<not> is_open_task t"
  shows "subseq (disk_uids (fst (run_task e t st))) (disk_uids st @ task_uids t)"
proof (cases t)
  case (Append_task u url tm)
  then show ?thesis using append_uids [OF assms(1)] by simp
next
  case (Clear_task b e' k)
  have "subseq (disk_uids (ClearForBrowsingDataRemoval (env_txn e) b e' st)) (disk_uids st)"
    by (rule disk_uids_same [OF assms(1) Clear_wf [OF assms(1)]])
      (auto simp: ClearForBrowsingDataRemoval_def Let_def split: if_splits)
  then show ?thesis using Clear_task by simp
next
  case (Upsert_task row)
  have "subseq (disk_uids (UpsertTabState (env_upsert e) row st)) (disk_uids st)"
    by (rule disk_uids_same [OF assms(1) Upsert_wf [OF assms(1)]])
      (auto simp: UpsertTabState_def split: if_splits)
  then show ?thesis using Upsert_task by simp
qed (use assms(2) in simp_all)

subsection \<open>The journal is covered by the log\<close>

definition no_opens :: "'k store_task list \<Rightarrow> bool" where
  "no_opens ts \<longleftrightarrow> list_all (\<lambda>t. \<not> is_open_task t) ts"

lemma no_opens_simps [simp]:
  "no_opens []" "no_opens (t # ts) \<longleftrightarrow> \<not> is_open_task t \<and> no_opens ts"
  "no_opens (ts @ us) \<longleftrightarrow> no_opens ts \<and> no_opens us"
  by (simp_all add: no_opens_def)

text \<open>
  From the moment the one read of the persisted log is posted: it is still queued, and the log covers what is queued
  behind it; or it was answered with some rows, and those in front of the log cover what is on disk
  and queued; or it was delivered, and the log covers that.
\<close>

definition journal_covered :: "uid list \<Rightarrow> continuation journal_service \<Rightarrow> bool" where
  "journal_covered l j \<longleftrightarrow>
     (\<exists>pre post. queue j = pre @ ReadAll_task Journal_loaded # post \<and> no_opens post \<and> covers l (queued_uids post)) \<or>
     (\<exists>rows. Visits_reply Journal_loaded rows \<in> set (outbox j) \<and> no_opens (queue j) \<and>
        covers (remdups_adj (uids_of rows @ l)) (disk_uids (db j) @ queued_uids (queue j))) \<or>
     (no_opens (queue j) \<and> covers l (disk_uids (db j) @ queued_uids (queue j)))"

lemma merged_snoc_coalesced: "remdups_adj (r @ snoc_coalesced l u) = snoc_coalesced (remdups_adj (r @ l)) u"
proof (cases "l \<noteq> [] \<and> last l = u")
  case True
  then obtain zs where "l = zs @ [u]" by (cases l rule: rev_cases) auto
  then show ?thesis
    using remdups_adj_snoc [of "r @ zs" u] by (simp add: snoc_coalesced_def)
next
  case False
  then have "snoc_coalesced l u = l @ [u]" by (auto simp: snoc_coalesced_def)
  then show ?thesis using remdups_adj_snoc [of "r @ l" u] by simp
qed

text \<open>What one event adds to the log and to the uids under way.\<close>

definition logs_what_it_posts :: "uid list \<Rightarrow> uid list \<Rightarrow> uid list \<Rightarrow> bool" where
  "logs_what_it_posts l l' us \<longleftrightarrow> l' = l \<and> us = [] \<or> (\<exists>u. l' = snoc_coalesced l u \<and> (us = [] \<or> us = [u]))"

lemma logs_covers: "logs_what_it_posts l l' us \<Longrightarrow> covers l xs \<Longrightarrow> covers l' (xs @ us)"
  using covers_snoc covers_longer [OF _ subseq_snoc_coalesced] by (auto simp: logs_what_it_posts_def)

lemma logs_merged: "logs_what_it_posts l l' us \<Longrightarrow> logs_what_it_posts (remdups_adj (r @ l)) (remdups_adj (r @ l')) us"
  by (auto simp: logs_what_it_posts_def merged_snoc_coalesced)

lemma journal_covered_post:
  assumes "journal_covered l j" and "no_opens ts" and "logs_what_it_posts l l' (queued_uids ts)"
  shows "journal_covered l' (j\<lparr>queue := queue j @ ts\<rparr>)"
  using assms(1) unfolding journal_covered_def [of l]
proof (elim disjE exE conjE)
  fix pre post assume a: "queue j = pre @ ReadAll_task Journal_loaded # post" "no_opens post" "covers l (queued_uids post)"
  have "covers l' (queued_uids (post @ ts))" using logs_covers [OF assms(3) a(3)] by simp
  then show ?thesis
    unfolding journal_covered_def using a assms(2) by (intro disjI1 exI [of _ pre] exI [of _ "post @ ts"]) simp
next
  fix rows assume a: "Visits_reply Journal_loaded rows \<in> set (outbox j)" "no_opens (queue j)"
    "covers (remdups_adj (uids_of rows @ l)) (disk_uids (db j) @ queued_uids (queue j))"
  show ?thesis
    unfolding journal_covered_def
    using a assms(2) logs_covers [OF logs_merged [OF assms(3), of "uids_of rows"] a(3)]
    by (intro disjI2 disjI1 exI [of _ rows]) simp
next
  assume a: "no_opens (queue j)" "covers l (disk_uids (db j) @ queued_uids (queue j))"
  then show ?thesis
    unfolding journal_covered_def using assms(2) logs_covers [OF assms(3) a(2)] by (intro disjI2) simp
qed

text \<open>The store sequence runs a task.\<close>

lemma covers_run:
  assumes "store_wf st" and "covers m (disk_uids st @ queued_uids (t # q))" and "\<not> is_open_task t"
  shows "covers m (disk_uids (fst (run_task se t st)) @ queued_uids q)"
proof (rule covers_fewer [OF assms(2)])
  have "subseq (disk_uids (fst (run_task se t st)) @ queued_uids q) ((disk_uids st @ task_uids t) @ queued_uids q)"
    unfolding subseq_append by (rule run_task_uids [OF assms(1,3)])
  then show "subseq (disk_uids (fst (run_task se t st)) @ queued_uids q) (disk_uids st @ queued_uids (t # q))" by simp
qed

lemma journal_covered_store:
  assumes "journal_covered l j" and wf: "store_wf (db j)"
  shows "journal_covered l (store_step se j)"
proof (cases "queue j")
  case Nil
  then show ?thesis using assms(1) by (simp add: store_step_def)
next
  case (Cons t q)
  note step = store_step_Cons [OF Cons, of se]
  note disk = covers_run [OF wf, of _ t q se]
  show ?thesis using assms(1) unfolding journal_covered_def [of l j] Cons
  proof (elim disjE exE conjE)
    fix pre post assume a: "t # q = pre @ ReadAll_task Journal_loaded # post" "no_opens post" "covers l (queued_uids post)"
    show ?thesis
    proof (cases pre)
      case Nil
      then have t: "t = ReadAll_task Journal_loaded" "q = post" using a(1) by simp_all
      have "subseq (disk_uids (db j) @ remdups_adj (queued_uids post)) (uids_of (ReadAll (db j)) @ l)"
        using a(3) by (simp add: disk_uids_def covers_def subseq_append')
      from covers_merged [OF this]
      have "covers (remdups_adj (uids_of (ReadAll (db j)) @ l)) (disk_uids (db j) @ remdups_adj (queued_uids post))" .
      moreover have "remdups_adj (xs @ remdups_adj ys) = remdups_adj (xs @ ys)" for xs ys :: "uid list"
        by (induction ys rule: rev_induct) (simp_all add: remdups_adj_snoc merged_snoc_coalesced flip: append_assoc)
      ultimately have "covers (remdups_adj (uids_of (ReadAll (db j)) @ l)) (disk_uids (db j) @ queued_uids post)"
        by (simp add: covers_def)
      then show ?thesis
        unfolding journal_covered_def step using t a(2) by (intro disjI2 disjI1 exI [of _ "ReadAll (db j)"]) simp
    next
      case (Cons p ps)
      then show ?thesis
        unfolding journal_covered_def step using a by (intro disjI1 exI [of _ ps] exI [of _ post]) simp
    qed
  next
    fix rows assume "Visits_reply Journal_loaded rows \<in> set (outbox j)" "no_opens (t # q)"
      "covers (remdups_adj (uids_of rows @ l)) (disk_uids (db j) @ queued_uids (t # q))"
    then show ?thesis
      unfolding journal_covered_def step using disk by (intro disjI2 disjI1 exI [of _ rows]) simp
  next
    assume "no_opens (t # q)" "covers l (disk_uids (db j) @ queued_uids (t # q))"
    then show ?thesis unfolding journal_covered_def step using disk by (intro disjI2) simp
  qed
qed

text \<open>A reply is delivered: another one leaves the phase, the awaited one ends it.\<close>

lemma journal_covered_longer:
  assumes "journal_covered l j" and "subseq l l'"
  shows "journal_covered l' j"
proof -
  have "subseq (remdups_adj (r @ l)) (remdups_adj (r @ l'))" for r
  proof (rule subseq_merged)
    have "subseq (remdups_adj xs) xs" for xs :: "uid list" by (induction xs rule: remdups_adj.induct) auto
    moreover have "subseq (r @ l) (r @ l')" using assms(2) by (simp add: subseq_append')
    ultimately show "subseq (remdups_adj (r @ l)) (r @ l')" using subseq_order.trans by blast
  qed simp
  then show ?thesis
    using assms unfolding journal_covered_def by (blast intro: covers_longer)
qed

lemma journal_covered_pop:
  assumes "journal_covered l j" and "outbox j = r # rs" and "\<And>rows. r \<noteq> Visits_reply Journal_loaded rows"
  shows "journal_covered l (j\<lparr>outbox := rs\<rparr>)"
  using assms by (auto simp: journal_covered_def)

lemma journal_covered_load:
  assumes "journal_covered l j" and "outbox j = Visits_reply Journal_loaded rows # rs" and "distinct_adj l"
  shows "journal_covered (remdups_adj (uids_of rows @ l)) (j\<lparr>outbox := rs\<rparr>)"
proof -
  have l: "subseq l (remdups_adj (uids_of rows @ l))"
    using assms(3) by (intro subseq_merged) (simp_all add: subseq_drop_many)
  show ?thesis
  proof (cases "covers (remdups_adj (uids_of rows @ l)) (disk_uids (db j) @ queued_uids (queue j)) \<and> no_opens (queue j)")
    case True
    then show ?thesis by (simp add: journal_covered_def)
  next
    case False
    then have "journal_covered l (j\<lparr>outbox := rs\<rparr>)"
      using assms(1,2) l covers_longer unfolding journal_covered_def by fastforce
    then show ?thesis by (rule journal_covered_longer [OF _ l])
  qed
qed

subsection \<open>What an event of a session does to both\<close>

text \<open>The world's journal is there, bound and well formed.\<close>

definition recording :: "tv_world \<Rightarrow> bool" where
  "recording w \<longleftrightarrow> (\<exists>j. journal w = Some j \<and> store_bound j \<and> store_wf (db j))"

definition covered :: "tv_world \<Rightarrow> bool" where
  "covered w \<longleftrightarrow> (\<exists>j. journal w = Some j \<and> journal_covered (settled_uid_log w) j)"

definition writes :: "tv_world \<Rightarrow> tv_world \<Rightarrow> bool" where
  "writes w w' \<longleftrightarrow> (\<exists>ts. journal w' = map_option (\<lambda>j. j\<lparr>queue := queue j @ ts\<rparr>) (journal w) \<and> no_opens ts \<and>
     logs_what_it_posts (settled_uid_log w) (settled_uid_log w') (queued_uids ts))"

lemma writes_recording: "writes w w' \<Longrightarrow> recording w \<Longrightarrow> recording w'"
  by (auto simp: writes_def recording_def)

lemma writes_covered: "writes w w' \<Longrightarrow> covered w \<Longrightarrow> covered w'"
  using journal_covered_post by (auto simp: writes_def covered_def)

lemma queued_uids_appends: "list_all (\<lambda>t. is_upsert t \<or> is_append t) ts \<Longrightarrow> no_opens ts \<and> queued_uids ts = queued_uids (filter is_append ts)"
proof (induction ts)
  case (Cons t ts)
  then show ?case by (cases t) auto
qed simp

lemma writes_posts:
  assumes "posts (\<lambda>t. is_upsert t \<or> is_append t) w w'"
    and "settled_uid_log w' = settled_uid_log w \<and> visits_posted w' = visits_posted w \<or>
      (\<exists>u url t. u \<noteq> [] \<and> settled_uid_log w' = snoc_coalesced (settled_uid_log w) u \<and>
         visits_posted w' \<in> {visits_posted w, visits_posted w @ [Append_task u url t]})"
  shows "writes w w'"
proof -
  obtain ts where ts: "list_all (\<lambda>t. is_upsert t \<or> is_append t) ts"
    "journal w' = map_option (\<lambda>j. j\<lparr>queue := queue j @ ts\<rparr>) (journal w)"
    using assms(1) by (auto simp: posts_def)
  show ?thesis
  proof (cases "journal w")
    case None
    then show ?thesis
      unfolding writes_def logs_what_it_posts_def using assms(2) ts(2) by (intro exI [of _ "[]"]) auto
  next
    case (Some j)
    have "visits_posted w' = visits_posted w @ filter is_append ts" using Some ts(2) by (simp add: visits_posted_def)
    then show ?thesis
      unfolding writes_def logs_what_it_posts_def
      using assms(2) ts queued_uids_appends [OF ts(1)] by (intro exI [of _ ts]) auto
  qed
qed

lemma writes_upserts: "posts is_upsert w w' \<Longrightarrow> settled_uid_log w' = settled_uid_log w \<Longrightarrow> writes w w'"
  by (rule writes_posts [OF posts_mono [of is_upsert]]) (simp_all add: visits_posted_upserts)

lemma writes_calm: "calm w w' \<Longrightarrow> settled_uid_log w' = settled_uid_log w \<Longrightarrow> writes w w'"
  by (rule writes_upserts) (simp_all add: calm_def)

lemma writes_same: "journal w' = journal w \<Longrightarrow> settled_uid_log w' = settled_uid_log w \<Longrightarrow> writes w w'"
  by (auto simp: writes_def logs_what_it_posts_def option.map_ident intro!: exI [of _ "[]"])

lemma writes_then_same: "writes w w' \<Longrightarrow> journal w'' = journal w' \<Longrightarrow> settled_uid_log w'' = settled_uid_log w' \<Longrightarrow> writes w w''"
  by (simp add: writes_def)

lemma writes_after_same: "writes w w' \<Longrightarrow> journal w = journal w0 \<Longrightarrow> settled_uid_log w = settled_uid_log w0 \<Longrightarrow> writes w0 w'"
  by (simp add: writes_def)

lemma writes_record_visit:
  "writes w (let w3 = (if u \<noteq> [] then RecordSettledUid u w else w)
             in if \<not> IsRecordableVisitUrl url then w3 else with_journal (RecordVisit u url (clock w3)) w3)"
proof -
  define w3 where "w3 = (if u \<noteq> [] then RecordSettledUid u w else w)"
  have w3: "journal w3 = journal w" "settled_uid_log w3 = (if u = [] then settled_uid_log w else snoc_coalesced (settled_uid_log w) u)"
    using RecordSettledUid_log [of u w] by (simp_all add: w3_def RecordSettledUid_def)
  have log: "logs_what_it_posts (settled_uid_log w) (settled_uid_log w3) us" if "us = [] \<or> us = [u] \<and> u \<noteq> []" for us
    using that by (auto simp: logs_what_it_posts_def w3(2))
  have "writes w w3" unfolding writes_def using log w3(1) by (intro exI [of _ "[]"]) (simp add: option.map_ident)
  moreover have "writes w (with_journal (RecordVisit u url t) w3)" for t
  proof (cases "journal w")
    case (Some j)
    show ?thesis
    proof (cases "store_bound j")
      case True
      then show ?thesis unfolding writes_def using Some w3(1) log
        by (intro exI [of _ "[Append_task u (url_spec url) t]"]) (simp add: with_journal_def RecordVisit_def AsyncCall_def)
    next
      case False
      then show ?thesis unfolding writes_def using Some w3(1) log
        by (intro exI [of _ "[]"]) (simp add: with_journal_def RecordVisit_def)
    qed
  qed (unfold writes_def, use w3(1) log in \<open>intro exI [of _ "[]"], simp add: with_journal_def\<close>)
  ultimately show ?thesis by (simp add: w3_def [symmetric] Let_def)
qed

lemma writes_change: "writes w (OnTabStripModelChanged c w)"
proof (cases "traversal_active w \<or> change_type c \<noteq> kSelectionOnly")
  case True
  then show ?thesis
    using posts_change_in_gesture gesture_part_fields(1) [OF gesture_part_change] by (intro writes_upserts) blast+
next
  case False
  show ?thesis
  proof (cases "active_changed c \<and> new_contents c \<noteq> None")
    case no: False
    then have "OnTabStripModelChanged c w = w"
      using False by (auto simp: OnTabStripModelChanged_def ShouldCommitActivation_def)
    then show ?thesis by (simp add: writes_same)
  next
    case yes: True
    then obtain t where t: "new_contents c = Some t" by blast
    have "OnTabStripModelChanged c w = (let w3 = (if tab_uid t \<noteq> [] then RecordSettledUid (tab_uid t) w else w)
        in if \<not> IsRecordableVisitUrl (tab_url t) then w3
           else with_journal (RecordVisit (tab_uid t) (tab_url t) (clock w3)) w3)"
      using False yes t by (simp add: OnTabStripModelChanged_def ShouldCommitActivation_def Let_def)
    then show ?thesis using writes_record_visit by simp
  qed
qed

lemma writes_Settle: "writes w (Settle env w)"
proof (cases "traversal_active w")
  case True
  then show ?thesis using Settle_effect(4,5) [OF True, of env] by (intro writes_posts) blast+
qed (simp add: Settle_def writes_same)

lemma writes_command: "writes w (TabVisitBack env b w)" "writes w (TabVisitForward env b w)"
proof -
  have step: "writes w (StepAndActivate env fwd (EnsureGesture c))" if c: "CoordinatorFor b w = Some c" for fwd c
  proof (rule writes_calm)
    have e: "traversal_active (EnsureGesture c)" "calm c (EnsureGesture c)" "settled_uid_log (EnsureGesture c) = settled_uid_log c"
      by simp_all
    note s = Step_effect [OF e(1), of env fwd]
    show "calm w (StepAndActivate env fwd (EnsureGesture c))"
      using CoordinatorFor_cases [OF c] calm_trans [OF calm_trans [OF _ e(2)] s(4)] by blast
    show "settled_uid_log (StepAndActivate env fwd (EnsureGesture c)) = settled_uid_log w"
      using s(1) e(3) CoordinatorFor_cases [OF c] by (simp add: walk_part_def)
  qed
  have same: "writes w c" if "CoordinatorFor b w = Some c" for c
    using CoordinatorFor_cases [OF that] by (intro writes_calm) (simp_all add: walk_part_def)
  show "writes w (TabVisitBack env b w)" "writes w (TabVisitForward env b w)"
    using step same writes_same [of w w]
    by (auto simp: TabVisitBack_def TabVisitForward_def StepBack_def StepForward_def split: option.split)
qed

lemma recordingE: "recording w \<Longrightarrow> (\<And>j. journal w = Some j \<Longrightarrow> store_bound j \<Longrightarrow> store_wf (db j) \<Longrightarrow> P) \<Longrightarrow> P"
  by (auto simp: recording_def)

lemma writes_LoadReopenable: "recording w \<Longrightarrow> writes w (LoadReopenableFromSidecar w)"
  by (erule recordingE, unfold writes_def, intro exI [of _ "[ReadTabStates_task (Reopenable_loaded (reopenable_generation w))]"])
    (simp add: LoadReopenable_cases AsyncCall_def logs_what_it_posts_def)

lemma Reach_frame [simp]: "journal (OnReachabilityMaybeChanged w) = journal w"
  "settled_uid_log (OnReachabilityMaybeChanged w) = settled_uid_log w"
  by (simp_all add: OnReachabilityMaybeChanged_def)

lemma writes_Resync: "recording w \<Longrightarrow> writes w (ResyncCoordinatorThenDone d w)"
  by (rule writes_then_same [OF writes_LoadReopenable])
    (simp_all add: ResyncCoordinatorThenDone_def OnBrowsingDataCleared_def Let_def)

lemma writes_Cancel: "writes w (CancelGesture w)"
  by (rule writes_same) (simp_all add: CancelGesture_def Let_def)

lemma writes_Clear: "recording w \<Longrightarrow> writes w (ClearJournalForBrowsingData b e token w)"
  by (erule recordingE, unfold writes_def, intro exI [of _ "[Clear_task b e (Resync_then_done token)]"])
    (simp add: ClearJournalForBrowsingData_def ClearBrowsingData_def PrepareForBrowsingDataClear_def CancelGesture_def
      AsyncCall_def logs_what_it_posts_def Let_def)

lemma journal_OnReopenableLoaded [simp]: "journal (OnReopenableLoaded g rs w) = journal w"
  by (simp add: OnReopenableLoaded_def fold_keep_frame)

lemma log_OnReopenableLoaded [simp]: "settled_uid_log (OnReopenableLoaded g rs w) = settled_uid_log w"
  using gesture_part_fields(1) [OF gesture_part_OnReopenableLoaded] .

lemma OnJournalLoaded_frame:
  "journal (OnJournalLoaded rows w) = journal w"
  "settled_uid_log (OnJournalLoaded rows w) = remdups_adj (uids_of rows @ settled_uid_log w)"
  by (simp_all add: OnJournalLoaded_def coalesce_remdups uids_of_def)

text \<open>A reply that is not the awaited one.\<close>

lemma writes_reply:
  assumes "recording w" and "\<And>rows. r \<noteq> Visits_reply Journal_loaded rows"
  shows "writes w (run_reply r w)"
  using assms writes_Resync [OF assms(1)]
  by (auto simp: run_reply_def intro: writes_same split: reply.split continuation.split)

lemma deliver_keeps:
  assumes "recording w" and inv: "tv_inv w"
  shows "recording (deliver w)" and "covered w \<Longrightarrow> covered (deliver w)"
proof -
  obtain j where j: "journal w = Some j" "store_bound j" "store_wf (db j)" using assms(1) by (rule recordingE)
  have l: "distinct_adj (settled_uid_log w)" using inv by (simp add: tv_inv_def gesture_ok_def no_stutter_def)
  have "recording (deliver w) \<and> (covered w \<longrightarrow> covered (deliver w))"
  proof (cases "outbox j")
    case Nil
    then show ?thesis using assms(1) j by (simp add: deliver_def)
  next
    case (Cons r rs)
    define w1 where "w1 = w\<lparr>journal := Some (j\<lparr>outbox := rs\<rparr>)\<rparr>"
    have d: "deliver w = run_reply r w1" using j Cons by (simp add: deliver_def w1_def)
    have w1: "recording w1" using j by (simp add: recording_def w1_def)
    show ?thesis
    proof (cases "\<exists>rows. r = Visits_reply Journal_loaded rows")
      case True
      then obtain rows where r: "r = Visits_reply Journal_loaded rows" by blast
      have "covered (deliver w)" if "covered w"
        using that j Cons journal_covered_load [OF _ _ l] unfolding d r
        by (auto simp: covered_def run_reply_def OnJournalLoaded_frame w1_def)
      moreover have "recording (deliver w)" using w1 unfolding d r by (simp add: run_reply_def recording_def OnJournalLoaded_frame)
      ultimately show ?thesis by blast
    next
      case False
      note w = writes_reply [OF w1, of r]
      have "covered w1" if "covered w"
        using that j Cons False journal_covered_pop by (auto simp: covered_def w1_def)
      then show ?thesis unfolding d using False w writes_recording [OF _ w1] writes_covered by blast
    qed
  qed
  then show "recording (deliver w)" "covered w \<Longrightarrow> covered (deliver w)" by auto
qed

text \<open>A store run reads a well-formed file, as every run of this code leaves one.\<close>

definition sound_event :: "tv_event \<Rightarrow> bool" where
  "sound_event e = (case e of Store_runs se \<Rightarrow> file_wf se | _ \<Rightarrow> True)"

lemma store_runs_keeps:
  assumes "recording w" and "file_wf se"
  shows "recording (with_journal (store_step se) w)" and "covered w \<Longrightarrow> covered (with_journal (store_step se) w)"
proof -
  obtain j where j: "journal w = Some j" "store_bound j" "store_wf (db j)" using assms(1) by (rule recordingE)
  have "store_bound (store_step se j) = store_bound j" by (simp add: store_step_def split: list.split prod.split)
  moreover have "store_wf (db (store_step se j))"
    using run_task_wf [OF j(3) assms(2)] j(3) by (auto simp: db_store_step split: list.split)
  ultimately show "recording (with_journal (store_step se) w)" using j by (simp add: recording_def with_journal_def)
  show "covered (with_journal (store_step se) w)" if "covered w"
    using that j journal_covered_store by (auto simp: covered_def with_journal_def)
qed

text \<open>Posting the read starts the first phase, whatever the log and the queue hold.\<close>

lemma load_covers:
  assumes "recording w"
  shows "recording (LoadPersistedJournal w)" and "covered (LoadPersistedJournal w)"
proof -
  obtain j where j: "journal w = Some j" "store_bound j" "store_wf (db j)" using assms by (rule recordingE)
  define w1 where "w1 = w\<lparr>journal := Some (AsyncCall (ReadAll_task Journal_loaded) j)\<rparr>"
  have "journal_covered l (AsyncCall (ReadAll_task Journal_loaded) j)" for l
    unfolding journal_covered_def by (intro disjI1 exI [of _ "queue j"] exI [of _ "[]"]) (simp add: AsyncCall_def covers_def)
  then have w1: "recording w1" "covered w1"
    using j by (simp_all add: recording_def covered_def w1_def) (simp add: AsyncCall_def)
  have "LoadPersistedJournal w = LoadReopenableFromSidecar w1"
    using j by (simp add: LoadPersistedJournal_def GetVisits_def w1_def Let_def)
  then show "recording (LoadPersistedJournal w)" "covered (LoadPersistedJournal w)"
    using writes_LoadReopenable [OF w1(1)] writes_recording writes_covered w1 by auto
qed

lemma writes_load: "recording w \<Longrightarrow> writes w (LoadPersistedJournal w)"
proof (erule recordingE)
  fix j assume j: "journal w = Some j" "store_bound j" "store_wf (db j)"
  define w1 where "w1 = w\<lparr>journal := Some (AsyncCall (ReadAll_task Journal_loaded) j)\<rparr>"
  have w1: "recording w1" using j by (simp add: recording_def w1_def AsyncCall_def)
  have "LoadPersistedJournal w = LoadReopenableFromSidecar w1"
    using j by (simp add: LoadPersistedJournal_def GetVisits_def w1_def Let_def)
  then show "writes w (LoadPersistedJournal w)"
    using j by (auto simp: LoadReopenable_cases writes_def w1_def AsyncCall_def logs_what_it_posts_def
      intro!: exI [of _ "[ReadAll_task Journal_loaded, ReadTabStates_task (Reopenable_loaded (reopenable_generation w))]"])
qed

text \<open>Every event but a run of the store sequence and a reply only posts what it logs.\<close>

lemma event_writes:
  assumes "recording w" and "\<And>se. e \<noteq> Store_runs se" and "e \<noteq> Reply_delivered"
  shows "writes w (on_tv env e w)"
proof (cases e)
  case (Windows_change ws c)
  have w1: "writes w (OnTabStripModelChanged ch (w\<lparr>windows := ws\<rparr>))" for ch
    by (rule writes_after_same [OF writes_change]) simp_all
  then show ?thesis
    using Windows_change writes_same [of "w\<lparr>windows := ws\<rparr>" w] by (cases c) (simp_all add: on_tv_def)
next
  case (Key_event pressed escape chord_held)
  have "writes w (OnEvent env pressed escape chord_held w)"
    using writes_then_same [OF writes_Settle [of w env]] writes_then_same [OF writes_Cancel [of w]] writes_same [of w w]
    by (simp add: OnEvent_def Let_def)
  then show ?thesis using Key_event by (simp add: on_tv_def)
next
  case Journal_load
  then show ?thesis using writes_load [OF assms(1)] by (simp add: on_tv_def)
next
  case (Clear_data b e' token)
  then show ?thesis using writes_Clear [OF assms(1)] by (simp add: on_tv_def)
qed (use assms writes_command writes_Settle writes_Cancel in
  \<open>simp_all add: on_tv_def co_Shutdown_def AddJournalLoadedCallback_def writes_same\<close>)

lemma event_keeps:
  assumes "recording w" and "tv_inv w" and "sound_event e"
  shows "recording (on_tv env e w)" and "covered w \<or> e = Journal_load \<Longrightarrow> covered (on_tv env e w)"
proof -
  have "recording (on_tv env e w) \<and> (covered w \<or> e = Journal_load \<longrightarrow> covered (on_tv env e w))"
  proof (cases "(\<exists>se. e = Store_runs se) \<or> e = Reply_delivered \<or> e = Journal_load")
    case True
    then show ?thesis
      using store_runs_keeps [OF assms(1)] deliver_keeps [OF assms(1,2)] load_covers [OF assms(1)] assms(3)
      by (auto simp: on_tv_def sound_event_def)
  next
    case False
    then have "writes w (on_tv env e w)" by (intro event_writes [OF assms(1)]) auto
    then show ?thesis using False assms(1) writes_recording writes_covered by blast
  qed
  then show "recording (on_tv env e w)" "covered w \<or> e = Journal_load \<Longrightarrow> covered (on_tv env e w)" by auto
qed

lemma session_keeps:
  assumes "recording w" and "tv_inv w" and "list_all sound_event es"
  shows "recording (fold (on_tv env) es w)" and "tv_inv (fold (on_tv env) es w)"
    and "covered w \<or> Journal_load \<in> set es \<Longrightarrow> covered (fold (on_tv env) es w)"
proof -
  have "recording (fold (on_tv env) es w) \<and> tv_inv (fold (on_tv env) es w) \<and>
      (covered w \<or> Journal_load \<in> set es \<longrightarrow> covered (fold (on_tv env) es w))"
    using assms
  proof (induction es arbitrary: w)
    case (Cons e es)
    have e: "sound_event e" "list_all sound_event es" using Cons.prems(3) by simp_all
    note k = event_keeps [OF Cons.prems(1,2) e(1), of env]
    show ?case using Cons.IH [OF k(1) tv_inv_on_tv [OF Cons.prems(2)] e(2)] k(2) by auto
  qed simp
  then show "recording (fold (on_tv env) es w)" "tv_inv (fold (on_tv env) es w)"
    "covered w \<or> Journal_load \<in> set es \<Longrightarrow> covered (fold (on_tv env) es w)" by auto
qed

subsection \<open>Sessions\<close>

text \<open>
  A session of a profile: the coordinator is built on a fresh service, events happen, and at some point the
  deferred \<open>LoadPersistedJournal\<close> runs. At rest the store sequence has nothing to run and every reply
  was delivered.
\<close>

definition session :: "tv_env \<Rightarrow> bool \<Rightarrow> tv_world \<Rightarrow> tv_event list \<Rightarrow> tv_world" where
  "session env in_memory w0 es =
     fold (on_tv env) es (TabVisitTraversalCoordinator (w0\<lparr>journal := Some (SettledVisitJournalService True in_memory)\<rparr>))"

definition at_rest :: "tv_world \<Rightarrow> bool" where
  "at_rest w \<longleftrightarrow> (case journal w of None \<Rightarrow> True | Some j \<Rightarrow> queue j = [] \<and> outbox j = [])"

definition journal_db_of :: "tv_world \<Rightarrow> visits_store" where
  "journal_db_of w = (case journal w of None \<Rightarrow> None | Some j \<Rightarrow> db j)"

lemma session_start:
  "recording (TabVisitTraversalCoordinator (w0\<lparr>journal := Some (SettledVisitJournalService True in_memory)\<rparr>))"
  "tv_inv (TabVisitTraversalCoordinator (w0\<lparr>journal := Some (SettledVisitJournalService True in_memory)\<rparr>))"
proof -
  show "recording (TabVisitTraversalCoordinator (w0\<lparr>journal := Some (SettledVisitJournalService True in_memory)\<rparr>))"
    by (simp add: recording_def TabVisitTraversalCoordinator_def SettledVisitJournalService_def Let_def store_wf_def)
  have "tv_reachable demo_env (TabVisitTraversalCoordinator (w0\<lparr>journal := Some (SettledVisitJournalService True in_memory)\<rparr>))"
    by (rule tv_reachable.start [of _ True in_memory]) simp
  then show "tv_inv (TabVisitTraversalCoordinator (w0\<lparr>journal := Some (SettledVisitJournalService True in_memory)\<rparr>))"
    by (rule tv_reachable_inv)
qed

lemma session_covers:
  assumes "list_all sound_event es" and "Journal_load \<in> set es" and "at_rest (session env in_memory w0 es)"
  shows "covers (settled_uid_log (session env in_memory w0 es)) (disk_uids (journal_db_of (session env in_memory w0 es)))"
    and "store_wf (journal_db_of (session env in_memory w0 es))"
proof -
  note k = session_keeps [OF session_start assms(1), where env = env, folded session_def]
  have "covered (session env in_memory w0 es)" using k(3) assms(2) by blast
  then show "covers (settled_uid_log (session env in_memory w0 es)) (disk_uids (journal_db_of (session env in_memory w0 es)))"
    using assms(3) by (auto simp: covered_def journal_covered_def at_rest_def journal_db_of_def)
  show "store_wf (journal_db_of (session env in_memory w0 es))"
    using k(1) [of in_memory w0] by (auto simp: recording_def journal_db_of_def)
qed

text \<open>
  The next process: its service opens the file the last one left, the read of the log runs behind it and its
  reply is delivered, before any tab is activated.
\<close>

definition restart :: "tv_env \<Rightarrow> store_env \<Rightarrow> tv_world \<Rightarrow> tv_world" where
  "restart env se w0 = session env False w0 [Journal_load, Store_runs se, Store_runs se, Reply_delivered]"

lemma restart_log:
  "settled_uid_log (restart env se w0) = remdups_adj (disk_uids
     (snd (Open (env_open1 se) (env_init1 se) (env_deleted se) (env_open2 se) (env_init2 se) (env_file se))))"
  by (simp add: restart_def session_def on_tv_def TabVisitTraversalCoordinator_def LoadPersistedJournal_def GetVisits_def
      SettledVisitJournalService_def LoadReopenable_cases AsyncCall_def with_journal_def store_step_def deliver_def
      run_reply_def OnJournalLoaded_frame disk_uids_def Let_def)

text \<open>Rows of a table without the \<open>tab_uid\<close> column have no uid.\<close>

definition nameless_rows :: "visits_store \<Rightarrow> bool" where
  "nameless_rows st \<longleftrightarrow> (case st of None \<Rightarrow> True
     | Some d \<Rightarrow> visits_cols d \<noteq> Some True \<longrightarrow> list_all (\<lambda>r. vr_tab_uid r = []) (visits d))"

lemma InitSchema_rows: "visits (snd (InitSchema e d)) = visits d"
proof -
  have m: "visits (snd (migrate_v3 e x)) = visits x" for x
    using migrate_v3_rows [of e x] by (cases "migrate_v3 e x") simp
  show ?thesis
    by (simp add: InitSchema_def Let_def m create_visits_def meta_Init_def split: option.split)
qed

lemma InitSchema_cols: "visits_cols d = Some True \<Longrightarrow> visits_cols (snd (InitSchema e d)) = Some True"
  by (simp add: InitSchema_def Let_def create_visits_def meta_Init_def migrate_v3_def split: option.split)

lemma disk_uids_inv: "store_inv d \<Longrightarrow> disk_uids (Some d) = uids_of (if visits_cols d = Some True then visits d else [])"
  by (simp add: disk_uids_Some uids_of_def)

lemma Open_uids:
  assumes "store_wf file" and "nameless_rows file"
  shows "subseq (disk_uids (snd (Open o1 e1 del o2 e2 file))) (disk_uids file)"
proof -
  let ?st = "snd (Open o1 e1 del o2 e2 file)" and ?d = "case file of None \<Rightarrow> empty_db | Some d \<Rightarrow> d"
  have "?st = None \<or> (\<exists>d'. ?st = Some d' \<and> (visits d' = visits ?d \<or> visits d' = []))"
    by (cases "InitSchema e1 ?d") (auto simp: Open_def Let_def split_def InitSchema_rows empty_db_def
        dest: arg_cong [of "InitSchema e1 ?d" _ "\<lambda>x. visits (snd x)"])
  then show ?thesis
  proof (elim disjE exE conjE)
    fix d' assume d': "?st = Some d'" "visits d' = visits ?d"
    then have inv: "store_inv d'" using Open_wf [OF assms(1), of o1 e1 del o2 e2] by (simp add: store_wf_def)
    show ?thesis
    proof (cases "file")
      case None
      then show ?thesis using d' inv by (simp add: disk_uids_inv empty_db_def uids_of_def)
    next
      case (Some d)
      then show ?thesis
        using d' inv assms by (auto simp: disk_uids_inv store_wf_def nameless_rows_def uids_of_def list_all_iff filter_empty_conv)
    qed
  next
    fix d' assume d': "?st = Some d'" "visits d' = []"
    then have "store_inv d'" using Open_wf [OF assms(1), of o1 e1 del o2 e2] by (simp add: store_wf_def)
    then show ?thesis using d' by (simp add: disk_uids_inv uids_of_def)
  qed (simp add: disk_uids_def ReadAll_def uids_of_def)
qed

text \<open>A file that opens without a failure gives its visits.\<close>

lemma restart_log_good:
  assumes "store_ok (env_file se)" and "env_open1 se" and "fst (InitSchema (env_init1 se) (the (env_file se)))"
  shows "settled_uid_log (restart env se w1) =
    remdups_adj (filter (\<lambda>u. u \<noteq> []) (map vr_tab_uid (ReadAll (env_file se))))"
proof -
  obtain d where d: "env_file se = Some d" "store_inv d" "schema_ready d" using assms(1) by (rule store_okE)
  obtain d' where d': "InitSchema (env_init1 se) d = (True, d')" using assms(3) d(1) by (cases "InitSchema (env_init1 se) d") simp
  have same: "visits d' = visits d" "visits_cols d' = Some True" "store_inv d'"
    using InitSchema_rows [of "env_init1 se" d] InitSchema_cols [of d "env_init1 se"] InitSchema_inv [OF d(2), of "env_init1 se"]
      d(3) d' by (simp_all add: schema_ready_def)
  have "disk_uids (snd (Open (env_open1 se) (env_init1 se) (env_deleted se) (env_open2 se) (env_init2 se) (env_file se))) =
      disk_uids (env_file se)"
    using same d assms(2) d' by (simp add: Open_def disk_uids_inv schema_ready_def)
  then show ?thesis unfolding restart_log by (simp add: disk_uids_def uids_of_def)
qed

lemma restart_frame:
  "windows (restart env se w0) = windows w0" "tab_visit_nav (restart env se w0) = tab_visit_nav w0"
  "traversal_active (restart env se w0) = False" "reopenable (restart env se w0) = Map.empty"
  by (simp_all add: restart_def session_def on_tv_def TabVisitTraversalCoordinator_def LoadPersistedJournal_def GetVisits_def
      SettledVisitJournalService_def LoadReopenable_cases AsyncCall_def with_journal_def store_step_def deliver_def
      run_reply_def OnJournalLoaded_def Let_def)

lemma session_reachable: "tv_reachable env (session env in_memory w0 es)"
proof -
  have "tv_reachable env (fold (on_tv env) es w)" if "tv_reachable env w" for w
    using that by (induction es arbitrary: w) (simp_all add: tv_reachable.event)
  then show ?thesis unfolding session_def by (simp add: tv_reachable.start [of _ True in_memory])
qed

text \<open>
  A restart invents no visit and reorders none. Take any session of a profile: activations, gestures,
  clears of browsing data, store runs of which any statement may fail, before and after the deferred
  load, in any order. When it has come to rest, a process that opens the file it left, with whatever
  outcome of opening, migrating or resetting it, starts from a log without repetitions that is found, in this order, in the log
  of the ended session; and when the file opens without a failure it is exactly the journal's
  visits with equal neighbours merged.
\<close>

theorem restart_invents_nothing:
  assumes "w = session env in_memory w0 es" and "list_all sound_event es" and "Journal_load \<in> set es" and "at_rest w"
    and "env_file se = journal_db_of w" and "nameless_rows (env_file se)"
  shows "subseq (settled_uid_log (restart env se w1)) (settled_uid_log w) \<and>
    distinct_adj (settled_uid_log (restart env se w1)) \<and>
    (store_ok (env_file se) \<and> env_open1 se \<and> fst (InitSchema (env_init1 se) (the (env_file se))) \<longrightarrow>
       settled_uid_log (restart env se w1) = remdups_adj (filter (\<lambda>u. u \<noteq> []) (map vr_tab_uid (ReadAll (journal_db_of w)))))"
proof -
  note c = session_covers [OF assms(2,3) assms(4) [unfolded assms(1)], folded assms(1)]
  let ?st = "snd (Open (env_open1 se) (env_init1 se) (env_deleted se) (env_open2 se) (env_init2 se) (env_file se))"
  have "covers (settled_uid_log w) (disk_uids ?st)"
    by (rule covers_fewer [OF c(1)]) (use Open_uids c(2) assms(5,6) in simp)
  then show ?thesis
    using restart_log_good [of se env w1] assms(5) by (auto simp: restart_log covers_def disk_uids_def uids_of_def)
qed

text \<open>A profile whose tabs a and b are activated before the deferred load, and everything then runs.\<close>

definition demo_tab :: "string \<Rightarrow> strip_change" where
  "demo_tab u = \<lparr>change_type = kSelectionOnly, removed = [], active_changed = True,
     new_contents = Some \<lparr>tab_uid = u, tab_url = \<lparr>url_valid = True, url_spec = ''https://'' @ u, url_scheme = ''https'',
       url_host = u, url_about_blank = False\<rparr>\<rparr>\<rparr>"

definition early_visits :: "tv_event list" where
  "early_visits = [Windows_change [] (Some (demo_tab ''a'')), Windows_change [] (Some (demo_tab ''b'')), Journal_load] @
     replicate 5 (Store_runs good_env) @ replicate 2 Reply_delivered"

definition early_db :: journal_db where
  "early_db = (at_version3 empty_db)\<lparr>next_id := 3, visits :=
     [\<lparr>vr_id = 1, vr_tab_uid = ''a'', vr_url = ''https://a'', vr_visited_at = 0\<rparr>,
      \<lparr>vr_id = 2, vr_tab_uid = ''b'', vr_url = ''https://b'', vr_visited_at = 0\<rparr>]\<rparr>"

lemmas evaluate_session = session_def early_visits_def on_tv_def demo_tab_def demo_world_def TabVisitTraversalCoordinator_def
  SettledVisitJournalService_def OnTabStripModelChanged_def ShouldCommitActivation_def RecordSettledUid_def
  IsRecordableVisitUrl_def url_is_empty_def with_journal_def RecordVisit_def AsyncCall_def LoadPersistedJournal_def
  GetVisits_def LoadReopenable_cases store_step_def good_env_def Open_def all_init_ok_def InitSchema_def empty_db_def
  meta_Init_def create_visits_def migrate_v3_def kCurrentVersion_def kCompatibleVersion_def Append_def all_ok_def
  trim_visits_def kMaxVisits_def ToStorage_def FromStorage_def ReadAll_def ReadTabStates_def deliver_def run_reply_def
  OnJournalLoaded_def coalesce_def snoc_coalesced_def OnReopenableLoaded_def OnReachabilityMaybeChanged_def Let_def
  numeral_eq_Suc

lemma early_session:
  "settled_uid_log (session demo_env False demo_world early_visits) = [''a'', ''b'', ''a'', ''b''] \<and>
   journal_db_of (session demo_env False demo_world early_visits) = Some early_db \<and>
   at_rest (session demo_env False demo_world early_visits)"
  by (simp add: evaluate_session journal_db_of_def at_rest_def early_db_def at_version3_def)

lemma early_db_ok: "store_ok (Some early_db)"
  by (simp add: store_ok_def store_inv_def schema_ready_def early_db_def at_version3_def empty_db_def kMaxVisits_def)

theorem restart_invents_nothing_witness:
  "settled_uid_log (restart demo_env (good_env\<lparr>env_file := Some early_db\<rparr>) demo_world) = [''a'', ''b'']"
proof -
  let ?se = "good_env\<lparr>env_file := Some early_db\<rparr>" and ?w = "session demo_env False demo_world early_visits"
  have early: "settled_uid_log ?w = [''a'', ''b'', ''a'', ''b'']" "journal_db_of ?w = Some early_db" "at_rest ?w"
    using early_session by auto
  have sound: "list_all sound_event early_visits" "Journal_load \<in> set early_visits"
    by (simp_all add: early_visits_def sound_event_def file_wf_def store_wf_def good_env_def list_all_iff)
  have "fst (InitSchema (env_init1 ?se) early_db)" "env_open1 ?se"
    by (simp_all add: good_env_def all_init_ok_def InitSchema_def meta_Init_def create_visits_def migrate_v3_def early_db_def
        at_version3_def empty_db_def kCurrentVersion_def kCompatibleVersion_def Let_def)
  moreover have "nameless_rows (env_file ?se)" by (simp add: nameless_rows_def early_db_def at_version3_def)
  moreover have "ReadAll (Some early_db) = visits early_db"
    by (simp add: ReadAll_def early_db_def at_version3_def FromStorage_def empty_db_def)
  ultimately show ?thesis
    using restart_invents_nothing [OF refl sound early(3), of ?se demo_world] early early_db_ok
    by (simp add: early_db_def)
qed

end
