(* ===== verification/Session_Restore.thy ===== *)
theory Session_Restore
  imports Journal_Restart Tab_Uid
begin

text \<open>
  A restart with its tabs: what the uid helpers write with the session (theory Tab_Uid), the session's
  restoring of the tabs in the next process, and the journal's log of that process (theory Journal_Restart). The uids are
  what joins them: a restored tab answers to the uid under which the journal knows it.
\<close>

subsection \<open>Restoring the tabs\<close>

text \<open>
  One restored tab: the contents it was, the new contents and their session id, and the uid that would be
  minted. The session hands the extra data back before the helper is attached.
\<close>

record restored_tab =
  old_contents :: wc_id
  new_contents_id :: wc_id
  new_tab_id :: tab_id
  would_mint :: uid

definition restore_tab :: "(uid \<Rightarrow> bool) \<Rightarrow> uid_world \<Rightarrow> restored_tab \<Rightarrow> uid_world \<Rightarrow> uid_world" where
  "restore_tab parse_ok saved r w =
     MaybeCreateForTab True parse_ok (would_mint r) (new_contents_id r)
       (SetPendingRestoredUid True (new_contents_id r) (PopulateExtraData (old_contents r) saved Map.empty)
         (w\<lparr>contents := (contents w)(new_contents_id r \<mapsto> contents_of (new_tab_id r))\<rparr>))"

definition restore_tabs :: "(uid \<Rightarrow> bool) \<Rightarrow> uid_world \<Rightarrow> restored_tab list \<Rightarrow> uid_world \<Rightarrow> uid_world" where
  "restore_tabs parse_ok saved rs w = fold (restore_tab parse_ok saved) rs w"

text \<open>The uid contents show, if any.\<close>

definition uid_of :: "uid_world \<Rightarrow> wc_id \<Rightarrow> uid option" where
  "uid_of w wc = map_option helper_uid (Option.bind (contents w wc) uid_data)"

lemma held_uid_of: "held w wc t u \<Longrightarrow> uid_of w wc = Some u"
  by (auto simp: held_def uid_of_def)

lemma uid_of_held: "uid_of w wc = Some u \<Longrightarrow> \<exists>t. held w wc t u"
proof -
  assume "uid_of w wc = Some u"
  then obtain c h where c: "contents w wc = Some c" "uid_data c = Some h" "helper_uid h = u"
    by (auto simp: uid_of_def Option.bind_eq_Some_conv)
  then have "held w wc (helper_tab_id h) u" by (cases h) (auto simp: held_def)
  then show ?thesis ..
qed

text \<open>Restoring a tab whose uid is well formed and not live gives it that uid and touches no other tab.\<close>

lemma restore_tab_step:
  assumes "uid_of saved (old_contents r) = Some u" and "u \<noteq> []" and "parse_ok u" and "\<not> IsLive (registry w) u"
    and "uid_by_tab (registry w) (new_tab_id r) = None"
  shows "held (restore_tab parse_ok saved r w) (new_contents_id r) (new_tab_id r) u"
    and "b \<noteq> new_contents_id r \<Longrightarrow> held (restore_tab parse_ok saved r w) b t v = held w b t v"
    and "registry (restore_tab parse_ok saved r w) = register (new_tab_id r) u (registry w)"
proof -
  obtain c h where c: "contents saved (old_contents r) = Some c" "uid_data c = Some h" "helper_uid h = u"
    using assms(1) by (auto simp: uid_of_def Option.bind_eq_Some_conv)
  let ?w = "w\<lparr>contents := (contents w)(new_contents_id r \<mapsto> (contents_of (new_tab_id r))\<lparr>pending_uid := Some u\<rparr>)\<rparr>"
  have step: "restore_tab parse_ok saved r w =
      attach_helper parse_ok (would_mint r) (new_contents_id r) ((contents_of (new_tab_id r))\<lparr>pending_uid := Some u\<rparr>) ?w"
    using c assms(2)
    by (simp add: restore_tab_def PopulateExtraData_def SetPendingRestoredUid_def MaybeCreateForTab_def contents_of_def)
  have acq: "acquire parse_ok (would_mint r) (new_tab_id r) u (registry w) = (u, register (new_tab_id r) u (registry w))"
    using assms(2-5) by (simp add: acquire_def AdoptOrRestamp_def Unregister_def)
  have take: "Take ((contents_of (new_tab_id r))\<lparr>pending_uid := Some u\<rparr>) = (u, contents_of (new_tab_id r))"
    and id: "session_tab_id (contents_of (new_tab_id r)) = new_tab_id r"
    by (simp_all add: Take_def contents_of_def)
  show "held (restore_tab parse_ok saved r w) (new_contents_id r) (new_tab_id r) u"
    by (simp add: step held_def contents_attach take id acq)
  show "held (restore_tab parse_ok saved r w) b t v = held w b t v" if "b \<noteq> new_contents_id r"
    using that by (simp add: step held_def contents_attach)
  show "registry (restore_tab parse_ok saved r w) = register (new_tab_id r) u (registry w)"
    by (simp add: step attach_helper_eq Let_def take id acq)
qed

lemma IsLive_register: "IsLive (register t u s) v \<longleftrightarrow> v = u \<or> IsLive s v"
  by (auto simp: IsLive_def)

lemma restore_tabs_hold:
  assumes "distinct (map new_contents_id rs)" and "distinct (map new_tab_id rs)"
    and "distinct (map (uid_of saved \<circ> old_contents) rs)"
    and "\<And>r. r \<in> set rs \<Longrightarrow> \<exists>u. uid_of saved (old_contents r) = Some u \<and> u \<noteq> [] \<and> parse_ok u \<and>
           \<not> IsLive (registry w) u \<and> uid_by_tab (registry w) (new_tab_id r) = None"
  shows "\<forall>r \<in> set rs. held (restore_tabs parse_ok saved rs w) (new_contents_id r) (new_tab_id r)
           (the (uid_of saved (old_contents r)))" (is ?A)
    and "b \<notin> new_contents_id ` set rs \<Longrightarrow> held (restore_tabs parse_ok saved rs w) b t v = held w b t v" (is "?B \<Longrightarrow> ?C")
proof -
  have "?A \<and> (\<forall>b. b \<notin> new_contents_id ` set rs \<longrightarrow> (\<forall>t v. held (restore_tabs parse_ok saved rs w) b t v = held w b t v))"
    using assms
  proof (induction rs arbitrary: w)
    case (Cons r rs)
    obtain u where u: "uid_of saved (old_contents r) = Some u" "u \<noteq> []" "parse_ok u" "\<not> IsLive (registry w) u"
      "uid_by_tab (registry w) (new_tab_id r) = None" using Cons.prems(4) [of r] by auto
    let ?w = "restore_tab parse_ok saved r w"
    note st = restore_tab_step [of saved r u parse_ok w, OF u]
    have "\<exists>v. uid_of saved (old_contents q) = Some v \<and> v \<noteq> [] \<and> parse_ok v \<and> \<not> IsLive (registry ?w) v \<and>
        uid_by_tab (registry ?w) (new_tab_id q) = None" if q: "q \<in> set rs" for q
    proof -
      obtain v where v: "uid_of saved (old_contents q) = Some v" "v \<noteq> []" "parse_ok v" "\<not> IsLive (registry w) v"
        "uid_by_tab (registry w) (new_tab_id q) = None" using Cons.prems(4) [of q] q by auto
      have "uid_of saved (old_contents q) \<noteq> uid_of saved (old_contents r)" "new_tab_id q \<noteq> new_tab_id r"
        using Cons.prems(2,3) q by (auto simp: image_iff)
      then show ?thesis using u(1) v by (auto simp: st(3) IsLive_register)
    qed
    then have IH: "\<forall>q \<in> set rs. held (restore_tabs parse_ok saved rs ?w) (new_contents_id q) (new_tab_id q)
           (the (uid_of saved (old_contents q)))"
      "\<forall>b. b \<notin> new_contents_id ` set rs \<longrightarrow> (\<forall>t v. held (restore_tabs parse_ok saved rs ?w) b t v = held ?w b t v)"
      using Cons.IH [of ?w] Cons.prems(1-3) by auto
    have eq: "restore_tabs parse_ok saved (r # rs) w = restore_tabs parse_ok saved rs ?w" by (simp add: restore_tabs_def)
    have new: "new_contents_id r \<notin> new_contents_id ` set rs" using Cons.prems(1) by auto
    show ?case
      unfolding eq using IH st(1) u(1) new by (auto simp: st(2))
  qed (simp add: restore_tabs_def)
  then show ?A "?B \<Longrightarrow> ?C" by blast+
qed

text \<open>The tabs of the ended process show the same uids in the next one, and no other contents show any.\<close>

lemma restart_keeps_uids:
  assumes "uid_reachable parse_ok otr l v D" and "\<not> parse_ok []"
    and "distinct (map old_contents rs)" and "distinct (map new_contents_id rs)" and "distinct (map new_tab_id rs)"
    and "\<forall>r \<in> set rs. old_contents r \<notin> D \<and> uid_of v (old_contents r) \<noteq> None"
  shows "r \<in> set rs \<Longrightarrow>
      uid_of (restore_tabs parse_ok v rs (uid_start otr' l')) (new_contents_id r) = uid_of v (old_contents r)"
    and "wc \<notin> new_contents_id ` set rs \<Longrightarrow> uid_of (restore_tabs parse_ok v rs (uid_start otr' l')) wc = None"
proof -
  have saved: "old_contents r \<notin> D \<and> uid_of v (old_contents r) \<noteq> None" if "r \<in> set rs" for r
    using assms(6) that by blast
  let ?w = "uid_start otr' l'"
  have inv: "uid_world_inv v D" and wf: "uids_well_formed parse_ok v"
    using assms(1) uid_reachable_inv reachable_well_formed by blast+
  have ok: "\<exists>u. uid_of v (old_contents r) = Some u \<and> u \<noteq> [] \<and> parse_ok u \<and> \<not> IsLive (registry ?w) u \<and>
      uid_by_tab (registry ?w) (new_tab_id r) = None" if r: "r \<in> set rs" for r
  proof -
    obtain u where u: "uid_of v (old_contents r) = Some u" using saved [OF r] by auto
    then have "parse_ok u" using uid_of_held [OF u] wf by (auto simp: uids_well_formed_def)
    then show ?thesis using u assms(2) by (auto simp: uid_start_def new_uid_service_def IsLive_def)
  qed
  have "inj_on (uid_of v \<circ> old_contents) (set rs)"
  proof (rule inj_onI)
    fix p q assume pq: "p \<in> set rs" "q \<in> set rs" "(uid_of v \<circ> old_contents) p = (uid_of v \<circ> old_contents) q"
    obtain t t' u where "held v (old_contents p) t u" "held v (old_contents q) t' u"
      using pq saved [OF pq(1)] uid_of_held by (metis comp_apply option.exhaust)
    then have "old_contents p = old_contents q"
      using held_distinct(1) [OF inv] saved [OF pq(1)] saved [OF pq(2)] by blast
    then show "p = q" using assms(3) pq(1,2) by (auto simp: distinct_map dest: inj_onD)
  qed
  then have dist: "distinct (map (uid_of v \<circ> old_contents) rs)" using assms(3) by (simp add: distinct_map)
  note H = restore_tabs_hold [OF assms(4,5) dist ok]
  show "uid_of (restore_tabs parse_ok v rs ?w) (new_contents_id r) = uid_of v (old_contents r)" if "r \<in> set rs"
    using H(1) that ok [OF that] held_uid_of by fastforce
  show "uid_of (restore_tabs parse_ok v rs ?w) wc = None" if "wc \<notin> new_contents_id ` set rs"
  proof (rule ccontr)
    assume "uid_of (restore_tabs parse_ok v rs ?w) wc \<noteq> None"
    then obtain t u where "held (restore_tabs parse_ok v rs ?w) wc t u" using uid_of_held by (metis option.exhaust)
    then have "held ?w wc t u" using H(2) [OF _ that] by blast
    then show False by (simp add: held_def uid_start_def)
  qed
qed

subsection \<open>Back, after the restart\<close>

lemma remdups_merged: "remdups (remdups_adj xs) = remdups xs"
  by (induction xs rule: remdups_adj.induct) auto

lemma mru_merged [simp]: "DeriveMruOrder (remdups_adj xs) = DeriveMruOrder xs"
  by (simp add: DeriveMruOrder_eq remdups_merged)

text \<open>The uids the journal of a file has, in the order of the visits.\<close>

definition visited_uids :: "visits_store \<Rightarrow> uid list" where
  "visited_uids st = filter (\<lambda>u. u \<noteq> []) (map vr_tab_uid (ReadAll st))"

subsection \<open>The new process before its first gesture\<close>

text \<open>
  What may happen before the first Back: tabs are opened, moved, closed and visited, the store sequence runs
  and its replies arrive (the reopenable rows among them), the reopen preference changes.
\<close>

fun before_gesture :: "tv_event \<Rightarrow> bool" where
  "before_gesture (Windows_change ws c) = True" | "before_gesture (Entries_change es) = True"
| "before_gesture (Store_runs se) = True" | "before_gesture Reply_delivered = True"
| "before_gesture (Pref_changed p) = True" | "before_gesture Watcher_added = True"
| "before_gesture (Time_passes t) = True" | "before_gesture (Key_event pressed escape chord) = True"
| "before_gesture e = False"

text \<open>The uid of the tab an event visits.\<close>

fun visit_of :: "tv_event \<Rightarrow> uid list" where
  "visit_of (Windows_change ws (Some c)) =
     (case new_contents c of None \<Rightarrow> []
      | Some t \<Rightarrow> if ShouldCommitActivation (change_type c) (active_changed c) \<and> tab_uid t \<noteq> [] then [tab_uid t] else [])"
| "visit_of e = []"

fun quiet_task :: "continuation store_task \<Rightarrow> bool" where
  "quiet_task (Append_task u url t) = True" | "quiet_task (Upsert_task row) = True"
| "quiet_task (ReadTabStates_task k) = True" | "quiet_task _ = False"

fun quiet_reply :: "continuation reply \<Rightarrow> bool" where
  "quiet_reply (TabStates_reply k rows) = True" | "quiet_reply r = False"

text \<open>No gesture is under way, and the persisted log is no longer on its way.\<close>

definition log_loaded :: "tv_world \<Rightarrow> bool" where
  "log_loaded w \<longleftrightarrow> \<not> traversal_active w \<and>
     (\<forall>j. journal w = Some j \<longrightarrow> list_all quiet_task (queue j) \<and> list_all quiet_reply (outbox j))"

lemma log_loaded_same:
  "log_loaded w \<Longrightarrow> journal w' = journal w \<Longrightarrow> traversal_active w' = traversal_active w \<Longrightarrow> log_loaded w'"
  by (simp add: log_loaded_def)

lemma log_loaded_posts:
  assumes "log_loaded w" and "posts quiet_task w w'" and "traversal_active w' = traversal_active w"
  shows "log_loaded w'"
proof -
  obtain ts where "list_all quiet_task ts" "journal w' = map_option (\<lambda>j. j\<lparr>queue := queue j @ ts\<rparr>) (journal w)"
    using assms(2) unfolding posts_def by blast
  then show ?thesis using assms(1,3) by (cases "journal w") (simp_all add: log_loaded_def)
qed

lemma quiet_store_step:
  "list_all quiet_task (queue j) \<Longrightarrow> list_all quiet_reply (outbox j) \<Longrightarrow>
     list_all quiet_task (queue (store_step se j)) \<and> list_all quiet_reply (outbox (store_step se j))"
proof (cases "queue j")
  case (Cons t q)
  assume "list_all quiet_task (queue j)" "list_all quiet_reply (outbox j)"
  with Cons show ?thesis by (cases t) (simp_all add: store_step_Cons)
qed (simp add: store_step_def)

lemma RecordSettledUid_snoc: "u \<noteq> [] \<Longrightarrow> settled_uid_log (RecordSettledUid u w) = snoc_coalesced (settled_uid_log w) u"
  by (simp add: RecordSettledUid_def snoc_coalesced_def)

text \<open>The strip's handler logs the visit of an activation, and posts nothing but appends and sidecar rows.\<close>

lemma change_logs:
  assumes "\<not> traversal_active w"
  shows "settled_uid_log (OnTabStripModelChanged c w) = fold (\<lambda>u l. snoc_coalesced l u) (visit_of (Windows_change ws (Some c))) (settled_uid_log w)"
    and "traversal_active (OnTabStripModelChanged c w) = traversal_active w"
    and "posts quiet_task w (OnTabStripModelChanged c w)"
proof -
  have "settled_uid_log (OnTabStripModelChanged c w) = fold (\<lambda>u l. snoc_coalesced l u) (visit_of (Windows_change ws (Some c))) (settled_uid_log w) \<and>
      traversal_active (OnTabStripModelChanged c w) = traversal_active w \<and> posts quiet_task w (OnTabStripModelChanged c w)"
  proof (cases "change_type c \<noteq> kSelectionOnly")
    case True
    then have "posts is_upsert w (OnTabStripModelChanged c w)" by (intro posts_change_in_gesture disjI2)
    then have "posts quiet_task w (OnTabStripModelChanged c w)"
      by (rule posts_mono) (auto elim: is_upsert.elims)
    then show ?thesis
      using True gesture_part_fields(1,2) [OF gesture_part_change [of w c, OF disjI2]]
      by (auto simp: ShouldCommitActivation_def split: option.split)
  next
    case False
    show ?thesis
    proof (cases "active_changed c \<and> new_contents c \<noteq> None")
      case no: False
      then have "OnTabStripModelChanged c w = w"
        using False by (auto simp: OnTabStripModelChanged_def ShouldCommitActivation_def)
      then show ?thesis using no by (auto simp: ShouldCommitActivation_def split: option.split)
    next
      case yes: True
      then obtain t where t: "new_contents c = Some t" by blast
      define w3 where "w3 = (if tab_uid t \<noteq> [] then RecordSettledUid (tab_uid t) w else w)"
      have eq: "OnTabStripModelChanged c w = (if \<not> IsRecordableVisitUrl (tab_url t) then w3
           else with_journal (RecordVisit (tab_uid t) (tab_url t) (clock w3)) w3)"
        using False yes t assms by (simp add: OnTabStripModelChanged_def ShouldCommitActivation_def w3_def Let_def)
      have p3: "posts quiet_task w w3" by (rule posts_same) (simp_all add: w3_def RecordSettledUid_def)
      have "posts quiet_task w3 (with_journal (RecordVisit (tab_uid t) (tab_url t) (clock w3)) w3)"
        by (rule posts_mono [OF posts_RecordVisit]) (auto elim: is_append.elims)
      from posts_trans [OF p3 this] p3 have "posts quiet_task w (OnTabStripModelChanged c w)" by (simp add: eq)
      moreover have "settled_uid_log (with_journal f w3) = settled_uid_log w3" "traversal_active (with_journal f w3) = traversal_active w3"
        for f by (simp_all add: with_journal_def split: option.split)
      moreover have "traversal_active w3 = traversal_active w" by (simp add: w3_def RecordSettledUid_def)
      ultimately show ?thesis
        using False yes t by (simp add: eq ShouldCommitActivation_def w3_def RecordSettledUid_snoc)
    qed
  qed
  then show "settled_uid_log (OnTabStripModelChanged c w) = fold (\<lambda>u l. snoc_coalesced l u) (visit_of (Windows_change ws (Some c))) (settled_uid_log w)"
    "traversal_active (OnTabStripModelChanged c w) = traversal_active w" "posts quiet_task w (OnTabStripModelChanged c w)" by blast+
qed

lemma before_gesture_step:
  assumes "log_loaded w" and "before_gesture e"
  shows "settled_uid_log (on_tv env e w) = fold (\<lambda>u l. snoc_coalesced l u) (visit_of e) (settled_uid_log w)"
    and "log_loaded (on_tv env e w)"
proof -
  have idle: "\<not> traversal_active w" using assms(1) by (simp add: log_loaded_def)
  have "settled_uid_log (on_tv env e w) = fold (\<lambda>u l. snoc_coalesced l u) (visit_of e) (settled_uid_log w) \<and> log_loaded (on_tv env e w)"
  proof (cases e)
    case (Windows_change ws c)
    let ?w1 = "w\<lparr>windows := ws\<rparr>"
    have l1: "log_loaded ?w1" using assms(1) by (rule log_loaded_same) simp_all
    show ?thesis
    proof (cases c)
      case (Some ch)
      from l1 change_logs(1) [where w = ?w1 and c = ch and ws = ws] change_logs(2,3) [where w = ?w1 and c = ch] idle show ?thesis
        by (simp add: Windows_change Some on_tv_def log_loaded_posts)
    qed (use l1 in \<open>simp add: Windows_change on_tv_def\<close>)
  next
    case (Store_runs se)
    show ?thesis
      using assms(1) quiet_store_step
      by (auto simp: Store_runs on_tv_def with_journal_def log_loaded_def split: option.split)
  next
    case Reply_delivered
    show ?thesis
    proof (cases "\<exists>j r rs. journal w = Some j \<and> outbox j = r # rs")
      case True
      then obtain j r rs where j: "journal w = Some j" "outbox j = r # rs" by blast
      then have "quiet_reply r" using assms(1) by (simp add: log_loaded_def)
      then obtain k rows where r: "r = TabStates_reply k rows" by (cases r) simp_all
      let ?w1 = "w\<lparr>journal := Some (j\<lparr>outbox := rs\<rparr>)\<rparr>"
      have l1: "log_loaded ?w1" using assms(1) j by (simp add: log_loaded_def)
      have d: "deliver w = run_reply r ?w1" using j by (simp add: deliver_def)
      have "gesture_part (run_reply r ?w1) = gesture_part ?w1"
        by (cases k) (simp_all add: r run_reply_def)
      moreover have "journal (fold keep_row rows x) = journal x" for x
        by (induction rows arbitrary: x) (simp_all add: keep_row_def)
      then have "journal (run_reply r ?w1) = journal ?w1"
        by (cases k) (simp_all add: r run_reply_def OnReopenableLoaded_def OnReachabilityMaybeChanged_def)
      ultimately show ?thesis
        using l1 gesture_part_fields(1,2) [of "run_reply r ?w1" ?w1] log_loaded_same [OF l1]
        by (simp add: Reply_delivered on_tv_def d)
    next
      case False
      then have "deliver w = w" by (auto simp: deliver_def split: option.split list.split)
      then show ?thesis using assms(1) by (simp add: Reply_delivered on_tv_def)
    qed
  next
    case (Key_event pressed escape chord)
    then show ?thesis using assms(1) idle by (simp add: on_tv_def OnEvent_def)
  qed (use assms in \<open>simp_all add: on_tv_def log_loaded_def AddJournalLoadedCallback_def\<close>)
  then show "settled_uid_log (on_tv env e w) = fold (\<lambda>u l. snoc_coalesced l u) (visit_of e) (settled_uid_log w)"
    "log_loaded (on_tv env e w)" by blast+
qed

lemma fold_snoc_merged: "fold (\<lambda>u l. snoc_coalesced l u) us (remdups_adj xs) = remdups_adj (xs @ us)"
proof (induction us arbitrary: xs)
  case (Cons u us)
  from Cons [of "xs @ [u]"] show ?case by (simp add: remdups_adj_snoc)
qed simp

lemma before_gesture_log:
  assumes "log_loaded w" and "list_all before_gesture es" and "settled_uid_log w = remdups_adj xs"
  shows "settled_uid_log (fold (on_tv env) es w) = remdups_adj (xs @ concat (map visit_of es))"
    and "log_loaded (fold (on_tv env) es w)"
proof -
  have "settled_uid_log (fold (on_tv env) es w) = remdups_adj (xs @ concat (map visit_of es)) \<and> log_loaded (fold (on_tv env) es w)"
    using assms
  proof (induction es arbitrary: w xs)
    case (Cons e es)
    have b: "before_gesture e" "list_all before_gesture es" using Cons.prems(2) by simp_all
    have "settled_uid_log (on_tv env e w) = remdups_adj (xs @ visit_of e)"
      using before_gesture_step(1) [OF Cons.prems(1) b(1)] Cons.prems(3) by (simp add: fold_snoc_merged)
    from Cons.IH [OF before_gesture_step(2) [OF Cons.prems(1) b(1)] b(2) this] show ?case by simp
  qed simp
  then show "settled_uid_log (fold (on_tv env) es w) = remdups_adj (xs @ concat (map visit_of es))"
    "log_loaded (fold (on_tv env) es w)" by blast+
qed

lemma restart_loaded: "log_loaded (restart env se w0)"
  by (simp add: log_loaded_def restart_def session_def on_tv_def TabVisitTraversalCoordinator_def LoadPersistedJournal_def
      GetVisits_def SettledVisitJournalService_def LoadReopenable_cases AsyncCall_def with_journal_def store_step_def deliver_def
      run_reply_def OnJournalLoaded_def Let_def)

lemma later_reachable: "tv_reachable env w \<Longrightarrow> tv_reachable env (fold (on_tv env) es w)"
  by (induction es arbitrary: w) (simp_all add: tv_reachable.event)


text \<open>Two tabs a and b, visited in this order before the restart, restored the other way round under new ids.\<close>

definition restored_two :: "restored_tab list" where
  "restored_two = [\<lparr>old_contents = 1, new_contents_id = 5, new_tab_id = 20, would_mint = ''x''\<rparr>,
     \<lparr>old_contents = 0, new_contents_id = 6, new_tab_id = 21, would_mint = ''y''\<rparr>]"

definition ended_tabs :: uid_world where
  "ended_tabs = MaybeCreateForTab True (\<lambda>u. u \<noteq> []) ''b'' 1 two_tabs"

lemma ended_tabs_uids: "uid_of ended_tabs 0 = Some ''a''" "uid_of ended_tabs (Suc 0) = Some ''b''"
  by (simp_all add: ended_tabs_def two_tabs_def uid_start_def contents_of_def MaybeCreateForTab_def uid_of_def
      contents_attach Take_def acquire_def MintAndRegister_def)

text \<open>Before Back, the closed tabs' rows arrive and tab a is visited again.\<close>

definition visit_again :: "tv_event list" where
  "visit_again = [Windows_change (windows demo_world) (Some (demo_tab ''a'')), Store_runs good_env, Reply_delivered]"

lemma change_frame: "windows (OnTabStripModelChanged c w) = windows w \<and> tab_visit_nav (OnTabStripModelChanged c w) = tab_visit_nav w"
proof -
  have "windows (fold persist_closed_tab rs w) = windows w \<and> tab_visit_nav (fold persist_closed_tab rs w) = tab_visit_nav w" for rs w
    by (induction rs arbitrary: w)
      (simp_all add: persist_closed_tab_def AddReopenable_def OnReachabilityMaybeChanged_def with_journal_def split: option.split)
  then show ?thesis
    by (auto simp: OnTabStripModelChanged_def PersistClosedTabsToSidecar_def OnReachabilityMaybeChanged_def RecordSettledUid_def
        with_journal_def Let_def split: option.split)
qed

lemma store_frame: "windows (on_tv env (Store_runs se) w) = windows w \<and> tab_visit_nav (on_tv env (Store_runs se) w) = tab_visit_nav w"
  by (simp add: on_tv_def with_journal_def split: option.split)

lemma OnReopenableLoaded_frame:
  "windows (OnReopenableLoaded g rows w) = windows w \<and> tab_visit_nav (OnReopenableLoaded g rows w) = tab_visit_nav w"
proof -
  have "windows (fold keep_row rows w) = windows w \<and> tab_visit_nav (fold keep_row rows w) = tab_visit_nav w"
    by (induction rows arbitrary: w) (simp_all add: keep_row_def)
  then show ?thesis by (simp add: OnReopenableLoaded_def OnReachabilityMaybeChanged_def)
qed

lemma deliver_frame:
  assumes "log_loaded w"
  shows "windows (on_tv env Reply_delivered w) = windows w \<and> tab_visit_nav (on_tv env Reply_delivered w) = tab_visit_nav w"
proof (cases "journal w")
  case (Some j)
  then have "list_all quiet_reply (outbox j)" using assms by (simp add: log_loaded_def)
  then show ?thesis
    using OnReopenableLoaded_frame
    by (cases "outbox j"; cases "hd (outbox j)") (auto simp: Some on_tv_def deliver_def run_reply_def split: continuation.split)
qed (simp add: on_tv_def deliver_def)

lemma visit_again_frame:
  assumes "w = restart demo_env se demo_world"
  shows "windows (fold (on_tv demo_env) visit_again w) = windows demo_world"
    "tab_visit_nav (fold (on_tv demo_env) visit_again w)"
proof -
  define wa where "wa = on_tv demo_env (Windows_change (windows demo_world) (Some (demo_tab ''a''))) w"
  define wb where "wb = on_tv demo_env (Store_runs good_env) wa"
  have "log_loaded w" using restart_loaded by (simp add: assms)
  then have "log_loaded wa" "log_loaded wb" by (simp_all add: wa_def wb_def before_gesture_step(2))
  moreover have "fold (on_tv demo_env) visit_again w = on_tv demo_env Reply_delivered wb"
    by (simp add: visit_again_def wa_def wb_def)
  moreover have "windows wa = windows demo_world" "tab_visit_nav wa = tab_visit_nav w"
    using change_frame by (simp_all add: wa_def on_tv_def)
  moreover have "tab_visit_nav w" by (simp add: assms restart_frame demo_world_def)
  ultimately show "windows (fold (on_tv demo_env) visit_again w) = windows demo_world"
    "tab_visit_nav (fold (on_tv demo_env) visit_again w)"
    using deliver_frame [of wb demo_env] store_frame [of demo_env good_env wa] by (simp_all add: wb_def)
qed


end
