(* ===== verification/Crash_Safety.thy ===== *)
theory Crash_Safety
  imports Journal_Restart
begin

text \<open>
  The journal when the process is killed. Once the read of the persisted log was delivered, the visits in the
  file and those still queued are at every moment found in the coordinator's log, so a process that dies between any two
  events, with tasks of the store sequence not yet run and replies not yet delivered, leaves a file from which
  the next one starts with a part of that log. The theory Journal_Restart has the sessions, the relation \<open>covers\<close>
  and the restarted process.
\<close>

subsection \<open>The log covers the file and the queue\<close>

definition safe_on_disk :: "tv_world \<Rightarrow> bool" where
  "safe_on_disk w \<longleftrightarrow> (case journal w of None \<Rightarrow> False
     | Some j \<Rightarrow> no_opens (queue j) \<and> covers (settled_uid_log w) (disk_uids (db j) @ queued_uids (queue j)))"

text \<open>The read of the persisted log was delivered.\<close>

definition load_answered :: "tv_world \<Rightarrow> bool" where
  "load_answered w \<longleftrightarrow> (case journal w of None \<Rightarrow> False
     | Some j \<Rightarrow> ReadAll_task Journal_loaded \<notin> set (queue j) \<and>
         (\<forall>r \<in> set (outbox j). case r of Visits_reply k rows \<Rightarrow> k \<noteq> Journal_loaded | _ \<Rightarrow> True))"

lemma answered_safe: "covered w \<Longrightarrow> load_answered w \<Longrightarrow> safe_on_disk w"
  by (fastforce simp: covered_def load_answered_def safe_on_disk_def journal_covered_def)

lemma writes_safe: "writes w w' \<Longrightarrow> safe_on_disk w \<Longrightarrow> safe_on_disk w'"
proof -
  assume w: "writes w w'" and s: "safe_on_disk w"
  obtain ts where ts: "journal w' = map_option (\<lambda>j. j\<lparr>queue := queue j @ ts\<rparr>) (journal w)" "no_opens ts"
    "logs_what_it_posts (settled_uid_log w) (settled_uid_log w') (queued_uids ts)" using w by (auto simp: writes_def)
  then show ?thesis
    using s logs_covers [OF ts(3)] by (cases "journal w") (simp_all add: safe_on_disk_def flip: append_assoc)
qed

lemma store_runs_safe: "recording w \<Longrightarrow> safe_on_disk w \<Longrightarrow> safe_on_disk (with_journal (store_step se) w)"
proof (erule recordingE)
  fix j assume j: "safe_on_disk w" "journal w = Some j" "store_wf (db j)"
  then show "safe_on_disk (with_journal (store_step se) w)"
  proof (cases "queue j")
    case (Cons t q)
    then show ?thesis
      using j covers_run [OF j(3), of "settled_uid_log w" t q se] store_step_Cons [OF Cons, of se]
      by (simp add: safe_on_disk_def with_journal_def)
  qed (simp add: with_journal_def store_step_def safe_on_disk_def)
qed

lemma deliver_safe:
  assumes "recording w" and "tv_inv w" and "safe_on_disk w"
  shows "safe_on_disk (deliver w)"
  using assms(1)
proof (rule recordingE)
  fix j assume j: "journal w = Some j" "store_bound j" "store_wf (db j)"
  have l: "distinct_adj (settled_uid_log w)" using assms(2) by (simp add: tv_inv_def gesture_ok_def no_stutter_def)
  show ?thesis
  proof (cases "outbox j")
    case Nil
    then show ?thesis using assms(3) j by (simp add: deliver_def)
  next
    case (Cons r rs)
    define w1 where "w1 = w\<lparr>journal := Some (j\<lparr>outbox := rs\<rparr>)\<rparr>"
    have d: "deliver w = run_reply r w1" using j Cons by (simp add: deliver_def w1_def)
    have w1: "recording w1" "safe_on_disk w1" using j assms(3) by (simp_all add: recording_def safe_on_disk_def w1_def)
    show ?thesis
    proof (cases "\<exists>rows. r = Visits_reply Journal_loaded rows")
      case True
      then obtain rows where r: "r = Visits_reply Journal_loaded rows" by blast
      have "subseq (settled_uid_log w1) (remdups_adj (uids_of rows @ settled_uid_log w1))"
        using l by (intro subseq_merged) (simp_all add: subseq_drop_many w1_def)
      then show ?thesis
        using w1(2) covers_longer unfolding d r by (auto simp: run_reply_def safe_on_disk_def OnJournalLoaded_frame w1_def)
    next
      case False
      then show ?thesis unfolding d using writes_safe [OF writes_reply [OF w1(1), of r]] w1(2) by blast
    qed
  qed
qed

lemma event_safe:
  assumes "recording w" and "tv_inv w" and "safe_on_disk w"
  shows "safe_on_disk (on_tv env e w)"
proof (cases "(\<exists>se. e = Store_runs se) \<or> e = Reply_delivered")
  case True
  then show ?thesis using store_runs_safe [OF assms(1,3)] deliver_safe [OF assms] by (auto simp: on_tv_def)
next
  case False
  then show ?thesis using writes_safe [OF event_writes [OF assms(1)] assms(3)] by blast
qed

lemma session_safe:
  assumes "recording w" and "tv_inv w" and "safe_on_disk w" and "list_all sound_event es"
  shows "recording (fold (on_tv env) es w) \<and> safe_on_disk (fold (on_tv env) es w)"
  using assms
proof (induction es arbitrary: w)
  case (Cons e es)
  have e: "sound_event e" "list_all sound_event es" using Cons.prems(4) by simp_all
  show ?case
    using Cons.IH [OF event_keeps(1) [OF Cons.prems(1,2) e(1)] tv_inv_on_tv [OF Cons.prems(2)] event_safe [OF Cons.prems(1-3)] e(2)]
    by simp
qed simp

lemma safe_file: "safe_on_disk w \<Longrightarrow> covers (settled_uid_log w) (disk_uids (journal_db_of w))"
  by (auto simp: safe_on_disk_def journal_db_of_def subseq_rev_drop_many intro: covers_fewer split: option.splits)

subsection \<open>The process is killed\<close>

text \<open>
  C4: a crash invents no visit and reorders none. Take any session of a profile in which the read of the persisted
  log was posted and delivered, and then anything more happens: visits, gestures, clears, runs of the store
  sequence of which any statement may fail, a second load. Kill the process between any two events, with appends still
  queued and replies under way. The process that opens the file as it lies there, with whatever outcome of opening,
  migrating or resetting it, starts from a log without repetitions that is found, in this order, in the log of
  the killed process; and when the file opens without a failure it is exactly the file's visits with equal
  neighbours merged.
\<close>

theorem crash_invents_nothing:
  assumes "w1 = session env in_memory w0 es1" and "list_all sound_event es1" and "Journal_load \<in> set es1" and "load_answered w1"
    and "w = fold (on_tv env) es2 w1" and "list_all sound_event es2"
    and "env_file se = journal_db_of w" and "nameless_rows (env_file se)"
  shows "subseq (settled_uid_log (restart env se w2)) (settled_uid_log w) \<and>
    distinct_adj (settled_uid_log (restart env se w2)) \<and>
    (store_ok (env_file se) \<and> env_open1 se \<and> fst (InitSchema (env_init1 se) (the (env_file se))) \<longrightarrow>
       settled_uid_log (restart env se w2) = remdups_adj (filter (\<lambda>u. u \<noteq> []) (map vr_tab_uid (ReadAll (journal_db_of w)))))"
proof -
  note k = session_keeps [OF session_start assms(2), where env = env, folded session_def]
  have w1: "recording w1" "tv_inv w1" "covered w1" unfolding assms(1) using k assms(3) by blast+
  note s = session_safe [OF w1(1,2) answered_safe [OF w1(3) assms(4)] assms(6), of env, folded assms(5)]
  let ?st = "snd (Open (env_open1 se) (env_init1 se) (env_deleted se) (env_open2 se) (env_init2 se) (env_file se))"
  have wf: "store_wf (env_file se)" using s assms(7) by (auto simp: recording_def journal_db_of_def)
  have "covers (settled_uid_log w) (disk_uids ?st)"
    by (rule covers_fewer [OF safe_file]) (use s Open_uids [OF wf assms(8)] assms(7) in auto)
  then show ?thesis
    using restart_log_good [of se env w2] assms(7) by (auto simp: restart_log covers_def disk_uids_def uids_of_def)
qed

text \<open>The early visits of before, then a third one to tab a whose append is still queued when the process dies.\<close>

lemma killed_session:
  "let w = fold (on_tv demo_env) [Windows_change [] (Some (demo_tab ''a''))] (session demo_env False demo_world early_visits)
   in settled_uid_log w = [''a'', ''b'', ''a'', ''b'', ''a''] \<and> journal_db_of w = Some early_db \<and> \<not> at_rest w"
  by (simp add: evaluate_session journal_db_of_def at_rest_def early_db_def at_version3_def)

theorem crash_invents_nothing_witness:
  "settled_uid_log (restart demo_env (good_env\<lparr>env_file := Some early_db\<rparr>) demo_world) = [''a'', ''b'']"
proof -
  let ?se = "good_env\<lparr>env_file := Some early_db\<rparr>" and ?w1 = "session demo_env False demo_world early_visits"
  let ?more = "[Windows_change [] (Some (demo_tab ''a''))]"
  have sound: "list_all sound_event early_visits" "Journal_load \<in> set early_visits" "list_all sound_event ?more"
    by (simp_all add: early_visits_def sound_event_def file_wf_def store_wf_def good_env_def list_all_iff)
  have "at_rest ?w1" "journal ?w1 \<noteq> None" using early_session by (auto simp: journal_db_of_def split: option.splits)
  then have answered: "load_answered ?w1" by (auto simp: at_rest_def load_answered_def)
  have left: "journal_db_of (fold (on_tv demo_env) ?more ?w1) = Some early_db" using killed_session by (simp add: Let_def)
  have "fst (InitSchema (env_init1 ?se) early_db)" "env_open1 ?se"
    by (simp_all add: good_env_def all_init_ok_def InitSchema_def meta_Init_def create_visits_def migrate_v3_def early_db_def
        at_version3_def empty_db_def kCurrentVersion_def kCompatibleVersion_def Let_def)
  moreover have "nameless_rows (env_file ?se)" by (simp add: nameless_rows_def early_db_def at_version3_def)
  moreover have "ReadAll (Some early_db) = visits early_db"
    by (simp add: ReadAll_def early_db_def at_version3_def FromStorage_def empty_db_def)
  ultimately show ?thesis
    using crash_invents_nothing [OF refl sound(1,2) answered refl sound(3), of ?se demo_world] left early_db_ok
    by (simp add: early_db_def)
qed

end
