(* ===== verification/Url_Restart.thy ===== *)
theory Url_Restart
  imports Initial_Url
begin

text \<open>
  The initial URL of a tab over restarts. A process restores the tab from the session file; then the tab
  navigates and may be discarded, and the file may be rebuilt; the next process restores it from what the
  file then has. The operations are those of theory Initial_Url.

  The session file is Chromium's. Of it the code relies on what \<open>roamux/patches/README.md\<close> says at
  \<open>0071-session-extra-data-rebuild.patch\<close>: extra data is appended under the tab's session id, the last entry of a
  key counts, a rebuild replaces the file by commands derived from the live tabs, to which the patch adds those of
  \<open>BuildTabExtraDataCommands\<close>, and a discard's replacement contents have a new session id. So an entry is filed
  under the contents it was written for. The profile has a session service; without one nothing is restored.
\<close>

subsection \<open>A tab's life in one process\<close>

datatype tab_step = Navigates navigation | Is_discarded | File_rebuilt

text \<open>The tab's current contents, the world, and the entries of the session file for the key, in order.\<close>

record live_tab =
  current :: wc_id
  url_world_of :: url_world
  session_file :: "(wc_id \<times> string) list"

definition restored_contents :: url_contents where
  "restored_contents = \<lparr>last_committed = empty_url, can_persist = True, url_data = None\<rparr>"

text \<open>What \<open>AddTabExtraData\<close> got in the step is appended.\<close>

definition appended :: "url_world \<Rightarrow> url_world \<Rightarrow> (wc_id \<times> string) list" where
  "appended w w' = drop (length (session_writes w)) (session_writes w')"

fun live_step :: "tab_step \<Rightarrow> live_tab \<Rightarrow> live_tab" where
  "live_step (Navigates n) x =
     (let w' = DidFinishNavigation (current x) n (url_world_of x)
      in x\<lparr>url_world_of := w', session_file := session_file x @ appended (url_world_of x) w'\<rparr>)"
| "live_step Is_discarded x =
     (let old = current x; new = old + 1;
          w1 = (url_world_of x)\<lparr>tabs := (tabs (url_world_of x))(new \<mapsto> restored_contents)\<rparr>;
          w2 = url_WillDiscardContents True old new w1
      in x\<lparr>current := new, url_world_of := w2\<lparr>tabs := (tabs w2)(old := None)\<rparr>,
           session_file := session_file x @ appended (url_world_of x) w2\<rparr>)"
| "live_step File_rebuilt x =
     x\<lparr>session_file := map (\<lambda>(k, v). (current x, v))
         (BuildTabExtraDataCommands (helper_of (url_world_of x) (current x)) None True)\<rparr>"

text \<open>The entry from which the next process would restore the tab.\<close>

definition filed :: "live_tab \<Rightarrow> string option" where
  "filed x = map_of (rev (session_file x)) (current x)"

text \<open>A process restores the entry before the tab's helper is attached; its own file starts empty.\<close>

definition restored_tab :: "(string \<Rightarrow> gurl) \<Rightarrow> string option \<Rightarrow> live_tab" where
  "restored_tab parse entry =
     \<lparr>current = 0,
      url_world_of = MaybeCreateForWebContents True 0
        (SetPendingRestoredInitialUrl True parse 0 (\<lambda>k. if k = kInitialUrlKey then entry else None)
          (no_tabs\<lparr>tabs := [0 \<mapsto> restored_contents]\<rparr>)),
      session_file = []\<rparr>"

definition tab_after :: "(string \<Rightarrow> gurl) \<Rightarrow> string option \<Rightarrow> tab_step list \<Rightarrow> live_tab" where
  "tab_after parse entry life = fold live_step life (restored_tab parse entry)"

definition filed_after :: "(string \<Rightarrow> gurl) \<Rightarrow> string option \<Rightarrow> tab_step list list \<Rightarrow> string option" where
  "filed_after parse entry lives = fold (\<lambda>life e. filed (tab_after parse e life)) lives entry"

text \<open>
  When the file has the value at the end of a life: since the last discard it was rebuilt, or there was no discard and
  some navigation of the primary main frame committed.
\<close>

definition durable :: "tab_step list \<Rightarrow> bool" where
  "durable life \<longleftrightarrow> File_rebuilt \<in> set (takeWhile (\<lambda>s. s \<noteq> Is_discarded) (rev life)) \<or>
     Is_discarded \<notin> set life \<and> (\<exists>n. Navigates n \<in> set life \<and> committed_main n)"

subsection \<open>The value is carried, and filed exactly when the life is durable\<close>

text \<open>
  The tab's helper holds this value and lock, the session got no other, contents to come have no entry, and the
  restore's write is still pending exactly as long as the tab was neither discarded nor committed a navigation.
\<close>

definition carries :: "gurl \<Rightarrow> bool \<Rightarrow> tab_step list \<Rightarrow> live_tab \<Rightarrow> bool" where
  "carries u l life x \<longleftrightarrow>
     (\<exists>h c. tabs (url_world_of x) (current x) = Some c \<and> url_data c = Some h \<and> can_persist c \<and>
        captured h \<and> initial_url h = u \<and> user_locked h = l \<and>
        pending_session_write h = (Is_discarded \<notin> set life \<and> (\<forall>n. Navigates n \<in> set life \<longrightarrow> \<not> committed_main n))) \<and>
     (\<forall>(wc, v) \<in> set (session_writes (url_world_of x)). v = EncodeExtraData u l) \<and>
     (\<forall>(wc, v) \<in> set (session_file x). v = EncodeExtraData u l \<and> wc \<le> current x) \<and>
     ((\<exists>v. (current x, v) \<in> set (session_file x)) \<longleftrightarrow> durable life)"

lemma durable_snoc [simp]:
  "durable (life @ [File_rebuilt])" "\<not> durable (life @ [Is_discarded])"
  "durable (life @ [Navigates n]) \<longleftrightarrow> durable life \<or> Is_discarded \<notin> set life \<and> committed_main n"
  by (auto simp: durable_def)

lemma carries_step: "carries u l life x \<Longrightarrow> carries u l (life @ [s]) (live_step s x)"
proof -
  assume x: "carries u l life x"
  let ?w = "url_world_of x" and ?p = "Is_discarded \<notin> set life \<and> (\<forall>n. Navigates n \<in> set life \<longrightarrow> \<not> committed_main n)"
  obtain h c where c: "tabs ?w (current x) = Some c" "url_data c = Some h" "can_persist c" "captured h" "initial_url h = u"
    "user_locked h = l" "pending_session_write h = ?p"
    and wr: "\<forall>(wc, v) \<in> set (session_writes ?w). v = EncodeExtraData u l"
    and fl: "\<forall>(wc, v) \<in> set (session_file x). v = EncodeExtraData u l \<and> wc \<le> current x"
    and dur: "(\<exists>v. (current x, v) \<in> set (session_file x)) \<longleftrightarrow> durable life"
    using x unfolding carries_def by blast
  have h: "helper_of ?w (current x) = Some h" using c(1,2) by (simp add: helper_of_def)
  show ?thesis
  proof (cases s)
    case (Navigates n)
    show ?thesis
    proof (cases "?p \<and> committed_main n")
      case True
      let ?c = "c\<lparr>url_data := Some (h\<lparr>pending_session_write := False\<rparr>)\<rparr>"
      have "DidFinishNavigation (current x) n ?w =
          ?w\<lparr>tabs := (tabs ?w)(current x \<mapsto> ?c), session_writes := session_writes ?w @ [(current x, EncodeExtraData u l)]\<rparr>"
        using True c h by (simp add: DidFinishNavigation_def committed_main_def PersistToSession_def put_helper_def)
      then show ?thesis
        using True c wr fl by (auto simp: Navigates carries_def appended_def Let_def)
    next
      case False
      have "DidFinishNavigation (current x) n ?w = ?w"
        using False c h by (auto simp: DidFinishNavigation_def committed_main_def)
      then have eq: "live_step s x = x" by (simp add: Navigates appended_def)
      have "durable (life @ [s]) = durable life" using False by (auto simp: Navigates durable_def)
      moreover have "(Is_discarded \<notin> set (life @ [s]) \<and> (\<forall>n. Navigates n \<in> set (life @ [s]) \<longrightarrow> \<not> committed_main n)) = ?p"
        using False by (auto simp: Navigates)
      ultimately show ?thesis using c wr fl dur unfolding carries_def eq by auto
    qed
  next
    case Is_discarded
    have "live_step s x = x\<lparr>current := current x + 1,
        url_world_of := ?w\<lparr>tabs := (tabs ?w)(current x + 1 \<mapsto> restored_contents\<lparr>url_data :=
          Some (new_url_helper\<lparr>initial_url := u, captured := True, user_locked := l\<rparr>)\<rparr>, current x := None)\<rparr>\<rparr>"
      using c h by (simp add: Is_discarded Let_def url_WillDiscardContents_def MaybeCreateForWebContents_def helper_of_def
          put_helper_def restored_contents_def appended_def fun_upd_twist)
    then show ?thesis
      using wr fl by (fastforce simp: Is_discarded carries_def restored_contents_def new_url_helper_def)
  next
    case File_rebuilt
    then show ?thesis
      using c h wr by (auto simp: carries_def BuildTabExtraDataCommands_def)
  qed
qed

lemma restored_carries:
  assumes "entry = Some (EncodeExtraData u l)" and "parse (url_spec u) = u" and "url_spec u \<noteq> []"
  shows "IsAllowedInitialUrl u \<Longrightarrow> carries u l [] (restored_tab parse entry)"
    and "\<not> IsAllowedInitialUrl u \<Longrightarrow> helper_of (url_world_of (restored_tab parse entry)) 0 = Some new_url_helper"
  using decode_encode [of parse u l, OF assms(2,3)] assms(1)
  by (simp_all add: restored_tab_def restored_contents_def SetPendingRestoredInitialUrl_def SetRestoredInitialUrl_def
      MaybeCreateForWebContents_def helper_of_put carries_def no_tabs_def helper_of_def put_helper_def durable_def)

lemma carries_life: "carries u l before x \<Longrightarrow> carries u l (before @ life) (fold live_step life x)"
proof (induction life arbitrary: before x)
  case (Cons s life)
  then show ?case using carries_step [OF Cons.prems, of s] by fastforce
qed simp

lemma carries_filed:
  assumes "carries u l life x"
  shows "filed x = (if durable life then Some (EncodeExtraData u l) else None)"
proof (cases "durable life")
  case True
  then obtain v where "(current x, v) \<in> set (rev (session_file x))" using assms by (auto simp: carries_def)
  then obtain v' where v': "map_of (rev (session_file x)) (current x) = Some v'"
    using weak_map_of_SomeI by fastforce
  then have "(current x, v') \<in> set (session_file x)" using map_of_SomeD by fastforce
  then show ?thesis using assms True v' by (auto simp: filed_def carries_def)
next
  case False
  then have "map_of (rev (session_file x)) (current x) = None"
    using assms by (auto simp: carries_def map_of_eq_None_iff)
  then show ?thesis using False by (simp add: filed_def)
qed

lemma tab_after_carries:
  assumes "entry = Some (EncodeExtraData u l)" and "parse (url_spec u) = u" and "url_spec u \<noteq> []" and "IsAllowedInitialUrl u"
  shows "carries u l life (tab_after parse entry life)"
  using carries_life [OF restored_carries(1) [OF assms(1) _ assms(3,4), of parse], of life] assms(2) by (simp add: tab_after_def)

lemma filed_after_durable:
  assumes "entry = Some (EncodeExtraData u l)" and "parse (url_spec u) = u" and "url_spec u \<noteq> []" and "IsAllowedInitialUrl u"
  shows "\<forall>life \<in> set lives. durable life \<Longrightarrow> filed_after parse entry lives = entry"
proof (induction lives)
  case (Cons life lives)
  have "filed (tab_after parse entry life) = entry"
    using carries_filed [OF tab_after_carries [where parse = parse, OF assms]] Cons.prems assms(1) by simp
  then show ?case using Cons by (simp add: filed_after_def)
qed (simp add: filed_after_def)

text \<open>A helper that holds nothing takes the first navigation that passes the gates.\<close>

lemma empty_helper_captures:
  "helper_of w wc = Some new_url_helper \<Longrightarrow> captures n \<Longrightarrow>
   \<exists>g. helper_of (DidFinishNavigation wc n w) wc = Some g \<and> captured g \<and> initial_url g = capture_head n \<and> \<not> user_locked g"
  using helper_of_Some_tabs [of w wc] by (auto simp: DidFinishNavigation_def helper_of_put new_url_helper_def)



end
