(* ===== verification/Edge_Files.thy ===== *)
theory Edge_Files
  imports Prelude
begin

text \<open>
  What the Edge import asks of the file system. A path is the list of its components (\<open>FilePath::Append\<close>
  adds one, \<open>DirName\<close> drops the last); the source's and the destination's files are fixed while facts are
  gathered, as \<open>base::PathExists\<close> and its kin report them.
\<close>

type_synonym path = "string list"

record edge_files =
  PathExists :: "path \<Rightarrow> bool"
  DirectoryExists :: "path \<Rightarrow> bool"
  IsDirectoryEmpty :: "path \<Rightarrow> bool"
  IsLink :: "path \<Rightarrow> bool"
  ReadFile :: "path \<Rightarrow> string option"
  ReadSymbolicLink :: "path \<Rightarrow> string option"
  EnumerateDirectories :: "path \<Rightarrow> string list"

definition append_path :: "path \<Rightarrow> string \<Rightarrow> path" where "append_path p n = p @ [n]"

definition DirName :: "path \<Rightarrow> path" where "DirName p = butlast p"

lemma DirName_append [simp]: "DirName (append_path p n) = p"
  by (simp add: DirName_def append_path_def)

end
