(* ===== verification/Edge_Stages.thy ===== *)
theory Edge_Stages
  imports Prelude "HOL-Library.Word"
begin

text \<open>
  The localStorage and secret stages of the Edge import, \<open>roamux/browser/importer/\<close>: the LevelDB reader
  (\<open>edge_local_storage_reader.cc\<close>), the stage that writes what it read
  (\<open>roamux_origin_storage_import_stage.cc\<close>), the decryptor (\<open>edge_secret_decryptor.mm\<close>) and the secret stage
  (\<open>roamux_secret_import_stage.mm\<close>). Bytes are characters. The outcomes of file and database
  calls, LevelDB's records in iteration order, and Chromium's parsers and ciphers are arguments.
\<close>

unbundle bit_operations_syntax

type_synonym bytes = string

subsection \<open>Reading localStorage\<close>

definition kDataPrefix :: char where "kDataPrefix = CHR ''_''"
definition kSeparator :: char where "kSeparator = CHR 0x00"

fun find_separator :: "nat \<Rightarrow> bytes \<Rightarrow> nat option" where
  "find_separator i [] = None"
| "find_separator i (b # bs) = (if b = kSeparator then Some i else find_separator (i + 1) bs)"

text \<open>The serialized storage key and the script key of a data record.\<close>

definition split_key :: "bytes \<Rightarrow> (bytes \<times> bytes) option" where
  "split_key key =
     (if length key < 2 \<or> key ! 0 \<noteq> kDataPrefix then None
      else let after_prefix = drop 1 key
           in (case find_separator 0 after_prefix of
                 None \<Rightarrow> None
               | Some sep \<Rightarrow> Some (take sep after_prefix, drop (sep + 1) after_prefix)))"

record 'k OriginLocalStorage =
  storage_key :: 'k
  ls_entries :: "(bytes \<times> bytes) list"

text \<open>\<open>deserialize\<close> and \<open>first_party\<close> are \<open>blink::StorageKey\<close>'s.\<close>

definition read_record ::
  "(bytes \<Rightarrow> 'k option) \<Rightarrow> ('k \<Rightarrow> bool) \<Rightarrow> bytes \<times> bytes \<Rightarrow>
   (bytes \<rightharpoonup> nat) \<times> 'k OriginLocalStorage list \<Rightarrow> (bytes \<rightharpoonup> nat) \<times> 'k OriginLocalStorage list" where
  "read_record deserialize first_party r x =
     (let (index_by_key, result) = x
      in case split_key (fst r) of
           None \<Rightarrow> x
         | Some (serialized_key, script_key) \<Rightarrow>
             (case deserialize serialized_key of
                None \<Rightarrow> x
              | Some sk \<Rightarrow>
                  if \<not> first_party sk then x
                  else let (i, index', result') =
                             (case index_by_key serialized_key of
                                Some i \<Rightarrow> (i, index_by_key, result)
                              | None \<Rightarrow> (length result, index_by_key(serialized_key \<mapsto> length result),
                                         result @ [\<lparr>storage_key = sk, ls_entries = []\<rparr>]));
                           origin = result' ! i
                       in (index', result'[i := origin\<lparr>ls_entries := ls_entries origin @ [(script_key, snd r)]\<rparr>])))"

record leveldb_source =
  source_exists :: bool
  temp_dir_ok :: bool
  copy_directory_ok :: bool
  open_db_ok :: bool
  records :: "(bytes \<times> bytes) list"
  iterator_ok :: bool

definition ReadEdgeLocalStorage ::
  "(bytes \<Rightarrow> 'k option) \<Rightarrow> ('k \<Rightarrow> bool) \<Rightarrow> leveldb_source \<Rightarrow> 'k OriginLocalStorage list" where
  "ReadEdgeLocalStorage deserialize first_party src =
     (if \<not> source_exists src then []
      else if \<not> temp_dir_ok src then []
      else if \<not> copy_directory_ok src then []
      else if \<not> open_db_ok src then []
      else let result = snd (fold (read_record deserialize first_party) (records src) (Map.empty, []))
           in if \<not> iterator_ok src then [] else result)"

subsection \<open>Writing localStorage\<close>

text \<open>
  \<open>done_calls\<close> has the arguments of the runs of \<open>done_\<close>. \<open>replies\<close> gives for each \<open>Put\<close>, in order,
  the answer that comes from inside the call, or None for one that comes later.
\<close>

record storage_stage =
  pending :: nat
  accepted :: nat
  done_calls :: "nat list"

definition new_storage_stage :: storage_stage where
  "new_storage_stage = \<lparr>pending = 0, accepted = 0, done_calls = []\<rparr>"

definition OnPutComplete :: "bool \<Rightarrow> storage_stage \<Rightarrow> storage_stage" where
  "OnPutComplete success s =
     (let s1 = (if success then s\<lparr>accepted := accepted s + 1\<rparr> else s);
          s2 = s1\<lparr>pending := pending s1 - 1\<rparr>
      in if pending s2 = 0 then s2\<lparr>done_calls := done_calls s2 @ [accepted s2]\<rparr> else s2)"

definition put_reply :: "bool option \<Rightarrow> storage_stage \<Rightarrow> storage_stage" where
  "put_reply r s = (case r of None \<Rightarrow> s | Some b \<Rightarrow> OnPutComplete b s)"

definition OnRead :: "'k OriginLocalStorage list \<Rightarrow> bool option list \<Rightarrow> storage_stage \<Rightarrow> storage_stage" where
  "OnRead origins replies s =
     (let s1 = s\<lparr>pending := pending s + sum_list (map (\<lambda>origin. length (ls_entries origin)) origins)\<rparr>
      in if pending s1 = 0 then s1\<lparr>done_calls := done_calls s1 @ [0]\<rparr>
         else fold put_reply replies s1)"

subsection \<open>Secrets\<close>

text \<open>The decryptor: None is \<open>kKeychainUnavailable\<close>, else the derived key; \<open>aes\<close> is \<open>aes_cbc::Decrypt\<close> of a key, an IV and the data.\<close>

type_synonym decryptor = "bytes option"

definition kEdgeService :: string where "kEdgeService = ''Microsoft Edge Safe Storage''"

definition kEdgeAccount :: string where "kEdgeAccount = ''Microsoft Edge''"

definition kIterations :: nat where "kIterations = 1003"

definition kDerivedKeySize :: nat where "kDerivedKeySize = 16"

definition kSalt :: bytes where "kSalt = ''saltysalt''"

definition kIv :: bytes where "kIv = replicate 16 (CHR '' '')"

text \<open>
  \<open>keychain\<close> is \<open>FindGenericPassword\<close> and \<open>pbkdf2\<close> the key derivation: the iterations, the password, the salt
  and the size of the key.
\<close>

type_synonym key_derivation = "nat \<Rightarrow> bytes \<Rightarrow> bytes \<Rightarrow> nat \<Rightarrow> bytes"

definition EdgeSecretDecryptor :: "key_derivation \<Rightarrow> (string \<Rightarrow> string \<Rightarrow> bytes option) \<Rightarrow> decryptor" where
  "EdgeSecretDecryptor pbkdf2 keychain =
     (case keychain kEdgeService kEdgeAccount of
        None \<Rightarrow> None
      | Some p \<Rightarrow> if p = [] then None else Some (pbkdf2 kIterations p kSalt kDerivedKeySize))"

definition kVersionPrefix :: string where "kVersionPrefix = ''v10''"

definition DecryptV10 :: "(bytes \<Rightarrow> bytes \<Rightarrow> bytes \<Rightarrow> bytes option) \<Rightarrow> decryptor \<Rightarrow> bytes \<Rightarrow> bytes option" where
  "DecryptV10 aes d blob =
     (case d of
        None \<Rightarrow> None
      | Some key \<Rightarrow>
          if length blob < length kVersionPrefix \<or> take (length kVersionPrefix) blob \<noteq> kVersionPrefix then None
          else aes key kIv (drop (length kVersionPrefix) blob))"

text \<open>A row of \<open>logins\<close>, and the password form built from it; \<open>utf16\<close> texts are what SQLite gives.\<close>

record login_row =
  origin_url :: string
  action_url :: string
  username_element :: string
  username_value :: string
  password_element :: string
  password_value :: bytes
  signon_realm :: string
  scheme_column :: int
  blacklisted_by_user :: int

record PasswordForm =
  form_url :: gurl
  form_action :: gurl
  form_username_element :: string
  form_password_element :: string
  form_signon_realm :: string
  form_scheme :: int
  form_blocked :: bool
  form_username_value :: string
  form_password_value :: string

text \<open>A row of \<open>cookies\<close>: the columns the code reads itself, and those it hands on.\<close>

record 'r cookie_row =
  host_key :: bytes
  top_frame_site_key :: bytes
  encrypted_value :: bytes
  other_columns :: 'r

text \<open>What the stage runs with: the URL parser, the decryptor's parts, and Chromium's cookie store.\<close>

record ('r, 'c) secret_env =
  parse_gurl :: "string \<Rightarrow> gurl"
  kdf_of :: key_derivation
  aes_of :: "bytes \<Rightarrow> bytes \<Rightarrow> bytes \<Rightarrow> bytes option"
  keychain_password :: "string \<Rightarrow> string \<Rightarrow> bytes option"
  utf8_to_16 :: "bytes \<Rightarrow> string"
  sha256 :: "bytes \<Rightarrow> bytes"
  from_storage :: "'r cookie_row \<Rightarrow> bytes \<Rightarrow> 'c option"
  add_cookies :: "'c list \<Rightarrow> nat"

definition login_form :: "('r, 'c) secret_env \<Rightarrow> decryptor \<Rightarrow> login_row \<Rightarrow> PasswordForm option" where
  "login_form env d r =
     (let form = \<lparr>form_url = parse_gurl env (origin_url r), form_action = parse_gurl env (action_url r),
                  form_username_element = username_element r, form_password_element = password_element r,
                  form_signon_realm = signon_realm r, form_scheme = scheme_column r, form_blocked = False,
                  form_username_value = [], form_password_value = []\<rparr>
      in if \<not> url_valid (form_url form) \<or> signon_realm r = [] then None
         else if blacklisted_by_user r \<noteq> 0 then Some (form\<lparr>form_blocked := True\<rparr>)
         else (case DecryptV10 (aes_of env) d (password_value r) of
                 None \<Rightarrow> None
               | Some password \<Rightarrow> Some (form\<lparr>form_username_value := username_value r,
                                            form_password_value := utf8_to_16 env password\<rparr>)))"

text \<open>
  A database of the source: absent, or the outcome of each step of copying and opening it, and its rows.
\<close>

record 'r source_db =
  db_exists :: bool
  db_temp_ok :: bool
  db_copy_ok :: bool
  db_open_ok :: bool
  db_schema_ok :: bool
  db_rows :: "'r list"

definition open_copied :: "'r source_db \<Rightarrow> 'r list option" where
  "open_copied s =
     (if \<not> db_exists s then None else if \<not> db_temp_ok s then None else if \<not> db_copy_ok s then None
      else if \<not> db_open_ok s then None else if \<not> db_schema_ok s then None else Some (db_rows s))"

definition ImportPasswords :: "('r, 'c) secret_env \<Rightarrow> login_row source_db \<Rightarrow> bool \<times> PasswordForm list" where
  "ImportPasswords env logins =
     (let d = EdgeSecretDecryptor (kdf_of env) (keychain_password env)
      in if d = None then (False, [])
         else (True, case open_copied logins of None \<Rightarrow> [] | Some rows \<Rightarrow> List.map_filter (login_form env d) rows))"

definition cookie_of :: "('r, 'c) secret_env \<Rightarrow> decryptor \<Rightarrow> 'r cookie_row \<Rightarrow> 'c option" where
  "cookie_of env d r =
     (if top_frame_site_key r \<noteq> [] then None
      else case DecryptV10 (aes_of env) d (encrypted_value r) of
             None \<Rightarrow> None
           | Some plain \<Rightarrow>
               let expected = sha256 env (host_key r)
               in if length plain < length expected \<or> take (length expected) plain \<noteq> expected then None
                  else from_storage env r (drop (length expected) plain))"

definition ParseCookies :: "('r, 'c) secret_env \<Rightarrow> 'r cookie_row source_db \<Rightarrow> bool \<times> 'c list" where
  "ParseCookies env cookies =
     (let d = EdgeSecretDecryptor (kdf_of env) (keychain_password env)
      in if d = None then (False, [])
         else (True, case open_copied cookies of None \<Rightarrow> [] | Some rows \<Rightarrow> List.map_filter (cookie_of env d) rows))"

text \<open>The bits of \<open>user_data_importer::ImportItem\<close> the code names.\<close>

record item_bits =
  HISTORY :: "16 word"
  FAVORITES :: "16 word"
  COOKIES :: "16 word"
  PASSWORDS :: "16 word"
  SEARCH_ENGINES :: "16 word"
  AUTOFILL_FORM_DATA :: "16 word"

record secret_result =
  passwords_imported :: nat
  cookies_imported :: nat
  keychain_available :: bool

text \<open>The result, and the password forms written. \<open>keychain_available_\<close> is False until a reader sets it.\<close>

definition secret_Run ::
  "item_bits \<Rightarrow> ('r, 'c) secret_env \<Rightarrow> login_row source_db \<Rightarrow> 'r cookie_row source_db \<Rightarrow> 16 word \<Rightarrow>
   secret_result \<times> PasswordForm list" where
  "secret_Run bits env logins cookies items =
     (let (available, forms) = (if items AND PASSWORDS bits \<noteq> 0 then ImportPasswords env logins else (False, []));
          result = \<lparr>passwords_imported = length forms, cookies_imported = 0, keychain_available = available\<rparr>
      in if items AND COOKIES bits \<noteq> 0
         then (result\<lparr>cookies_imported := add_cookies env (snd (ParseCookies env cookies))\<rparr>, forms)
         else (result, forms))"

text \<open>
  What Edge encrypted with its key comes back: a login with its password, and a cookie with its value if the
  plain text starts with the hash of the cookie's own host; another host's, or another version's, is dropped.
\<close>

lemma secrets_are_read_back:
  assumes "keychain_password env ''Microsoft Edge Safe Storage'' ''Microsoft Edge'' = Some pw" and "pw \<noteq> []"
    and "\<forall>x. aes_of env (kdf_of env 1003 pw ''saltysalt'' 16) (replicate 16 (CHR '' '')) (encrypt x) = Some x"
    and "\<forall>h. length (sha256 env h) = 32"
  shows "fst (ImportPasswords env logins) \<and> fst (ParseCookies env cookies) \<and>
    (\<forall>r p. password_value r = ''v10'' @ encrypt p \<longrightarrow> url_valid (parse_gurl env (origin_url r)) \<longrightarrow> signon_realm r \<noteq> [] \<longrightarrow>
       blacklisted_by_user r = 0 \<longrightarrow>
       map_option form_password_value (login_form env (EdgeSecretDecryptor (kdf_of env) (keychain_password env)) r) = Some (utf8_to_16 env p)) \<and>
    (\<forall>r host v. encrypted_value r = ''v10'' @ encrypt (sha256 env host @ v) \<longrightarrow> top_frame_site_key r = [] \<longrightarrow>
       cookie_of env (EdgeSecretDecryptor (kdf_of env) (keychain_password env)) r =
         (if sha256 env host = sha256 env (host_key r) then from_storage env r v else None))"
proof -
  have d: "EdgeSecretDecryptor (kdf_of env) (keychain_password env) = Some (kdf_of env 1003 pw ''saltysalt'' 16)"
    using assms(1,2) by (simp add: EdgeSecretDecryptor_def kEdgeService_def kEdgeAccount_def kIterations_def kSalt_def kDerivedKeySize_def)
  have plain: "DecryptV10 (aes_of env) (EdgeSecretDecryptor (kdf_of env) (keychain_password env)) (''v10'' @ encrypt x) = Some x" for x
    using assms(3) unfolding d by (simp add: DecryptV10_def kVersionPrefix_def kIv_def)
  have "map_option form_password_value (login_form env (EdgeSecretDecryptor (kdf_of env) (keychain_password env)) r) = Some (utf8_to_16 env p)"
    if "password_value r = ''v10'' @ encrypt p" "url_valid (parse_gurl env (origin_url r))" "signon_realm r \<noteq> []" "blacklisted_by_user r = 0" for r p
    using that(2-4) unfolding login_form_def that(1) plain by (simp add: Let_def)
  moreover have "cookie_of env (EdgeSecretDecryptor (kdf_of env) (keychain_password env)) r =
      (if sha256 env host = sha256 env (host_key r) then from_storage env r v else None)"
    if "encrypted_value r = ''v10'' @ encrypt (sha256 env host @ v)" "top_frame_site_key r = []" for r host v
    using that(2) assms(4) unfolding cookie_of_def that(1) plain by (simp add: Let_def)
  ultimately show ?thesis by (simp add: ImportPasswords_def ParseCookies_def d)
qed

subsection \<open>The reader groups by origin\<close>

definition first_seen :: "'a list \<Rightarrow> 'a list" where "first_seen xs = rev (remdups (rev xs))"

lemma first_seen_snoc: "first_seen (xs @ [x]) = (if x \<in> set xs then first_seen xs else first_seen xs @ [x])"
  by (simp add: first_seen_def)

lemma set_first_seen [simp]: "set (first_seen xs) = set xs" and distinct_first_seen [simp]: "distinct (first_seen xs)"
  by (simp_all add: first_seen_def)

text \<open>A data record of a first-party origin: its serialized storage key, script key and value.\<close>

definition data_of :: "(bytes \<Rightarrow> 'k option) \<Rightarrow> ('k \<Rightarrow> bool) \<Rightarrow> bytes \<times> bytes \<Rightarrow> (bytes \<times> bytes \<times> bytes) option" where
  "data_of deserialize first_party r =
     (case split_key (fst r) of
        None \<Rightarrow> None
      | Some (serialized, script) \<Rightarrow>
          (case deserialize serialized of
             None \<Rightarrow> None
           | Some sk \<Rightarrow> if first_party sk then Some (serialized, script, snd r) else None))"

definition origin_of :: "(bytes \<Rightarrow> 'k option) \<Rightarrow> (bytes \<times> bytes \<times> bytes) list \<Rightarrow> bytes \<Rightarrow> 'k OriginLocalStorage" where
  "origin_of deserialize ds s =
     \<lparr>storage_key = the (deserialize s), ls_entries = map snd (filter (\<lambda>d. fst d = s) ds)\<rparr>"

definition grouped :: "(bytes \<Rightarrow> 'k option) \<Rightarrow> (bytes \<times> bytes \<times> bytes) list \<Rightarrow>
    (bytes \<rightharpoonup> nat) \<times> 'k OriginLocalStorage list \<Rightarrow> bool" where
  "grouped deserialize ds x \<longleftrightarrow>
     snd x = map (origin_of deserialize ds) (first_seen (map fst ds)) \<and>
     (\<forall>s i. fst x s = Some i \<longleftrightarrow> i < length (first_seen (map fst ds)) \<and> first_seen (map fst ds) ! i = s)"

lemma origin_of_snoc:
  "origin_of deserialize (ds @ [d]) s =
     (if fst d = s then (origin_of deserialize ds s)\<lparr>ls_entries := ls_entries (origin_of deserialize ds s) @ [snd d]\<rparr>
      else origin_of deserialize ds s)"
  by (simp add: origin_of_def)

lemma read_record_none:
  "data_of deserialize first_party r = None \<Longrightarrow> read_record deserialize first_party r x = x"
  by (auto simp: data_of_def read_record_def split: option.splits prod.splits if_splits)

lemma read_record_some:
  assumes d: "data_of deserialize first_party r = Some d" and g: "grouped deserialize ds x"
  shows "grouped deserialize (ds @ [d]) (read_record deserialize first_party r x)"
proof -
  obtain s script sk where d': "d = (s, script, snd r)" "split_key (fst r) = Some (s, script)"
    "deserialize s = Some sk" "first_party sk"
    using d by (auto simp: data_of_def split: option.splits if_splits)
  obtain index result where x: "x = (index, result)" by (cases x)
  let ?F = "first_seen (map fst ds)" and ?o = "origin_of deserialize ds"
  have res: "result = map ?o ?F" and idx: "\<And>s i. index s = Some i \<longleftrightarrow> i < length ?F \<and> ?F ! i = s"
    using g by (auto simp: grouped_def x)
  let ?up = "\<lambda>o'. o'\<lparr>ls_entries := ls_entries o' @ [(script, snd r)]\<rparr>"
  show ?thesis
  proof (cases "index s")
    case (Some i)
    then have i: "i < length ?F" "?F ! i = s" using idx by auto
    then have mem: "s \<in> set (map fst ds)" by (metis nth_mem set_first_seen)
    have "read_record deserialize first_party r x = (index, result[i := ?up (result ! i)])"
      by (simp add: read_record_def x d' Some Let_def)
    moreover have "result[i := ?up (result ! i)] = map (origin_of deserialize (ds @ [d])) ?F"
    proof (rule nth_equalityI)
      fix j assume "j < length (result[i := ?up (result ! i)])"
      moreover have "?F ! j = s \<longleftrightarrow> j = i" if "j < length ?F"
        using i that by (metis distinct_first_seen nth_eq_iff_index_eq)
      ultimately show "result[i := ?up (result ! i)] ! j = map (origin_of deserialize (ds @ [d])) ?F ! j"
        using i by (auto simp: res nth_list_update origin_of_snoc d')
    qed (simp add: res)
    ultimately show ?thesis using mem idx by (simp add: grouped_def first_seen_snoc d')
  next
    case None
    have fresh: "s \<notin> set (map fst ds)"
    proof
      assume "s \<in> set (map fst ds)"
      then obtain i where "i < length ?F" "?F ! i = s" by (metis in_set_conv_nth set_first_seen)
      then have "index s = Some i" using idx by blast
      with None show False by simp
    qed
    have "read_record deserialize first_party r x =
        (index(s \<mapsto> length result), result @ [?up \<lparr>storage_key = sk, ls_entries = []\<rparr>])"
      by (simp add: read_record_def x d' None Let_def)
    moreover have "map (origin_of deserialize (ds @ [d])) ?F = result"
      using fresh by (auto simp: res origin_of_snoc d')
    moreover have "filter (\<lambda>d. fst d = s) ds = []" using fresh by (auto simp: filter_empty_conv)
    then have "origin_of deserialize (ds @ [d]) s = ?up \<lparr>storage_key = sk, ls_entries = []\<rparr>"
      by (simp add: origin_of_def d')
    moreover have "length result = length ?F" by (simp add: res)
    moreover have "?F ! i \<in> fst ` set ds" if "i < length ?F" for i
      using nth_mem [OF that] by (simp only: set_first_seen set_map)
    ultimately show ?thesis using fresh idx
      by (auto simp: grouped_def first_seen_snoc d' nth_append less_Suc_eq)
  qed
qed

text \<open>
  C37: the localStorage reader groups. When the copy opens and iterates to its end, the result has one
  origin per distinct serialized storage key of a well-formed first-party data record, in the order they are
  first met, each with exactly that key's script keys and values, in LevelDB's order; otherwise it is empty.
\<close>

theorem local_storage_is_grouped:
  "ReadEdgeLocalStorage deserialize first_party src =
     (if source_exists src \<and> temp_dir_ok src \<and> copy_directory_ok src \<and> open_db_ok src \<and> iterator_ok src
      then let ds = List.map_filter (data_of deserialize first_party) (records src)
           in map (origin_of deserialize ds) (first_seen (map fst ds))
      else [])"
proof -
  have "grouped deserialize (List.map_filter (data_of deserialize first_party) rs)
      (fold (read_record deserialize first_party) rs (Map.empty, []))" for rs
  proof (induction rs rule: rev_induct)
    case Nil
    then show ?case by (simp add: grouped_def first_seen_def map_filter_simps)
  next
    case (snoc r rs)
    then show ?case
      by (cases "data_of deserialize first_party r")
        (simp_all add: read_record_none read_record_some map_filter_snoc)
  qed
  then show ?thesis by (simp add: ReadEdgeLocalStorage_def grouped_def Let_def)
qed

subsection \<open>Every write is answered before the stage is done\<close>

definition put_progress :: "nat \<Rightarrow> nat \<Rightarrow> nat \<Rightarrow> storage_stage \<Rightarrow> bool" where
  "put_progress n m k s \<longleftrightarrow>
     pending s + m = n \<and> accepted s = k \<and> done_calls s = (if m = n then [k] else [])"

lemma put_progress_step:
  "put_progress n m k s \<Longrightarrow> m < n \<Longrightarrow> put_progress n (m + 1) (k + of_bool b) (OnPutComplete b s)"
  by (auto simp: put_progress_def OnPutComplete_def Let_def)

lemma put_progress_fold:
  "put_progress n m k s \<Longrightarrow> m + length bs \<le> n \<Longrightarrow>
     put_progress n (m + length bs) (k + count_list bs True) (fold OnPutComplete bs s)"
proof (induction bs arbitrary: m k s)
  case (Cons b bs)
  have "put_progress n (m + 1) (k + of_bool b) (OnPutComplete b s)"
    using Cons.prems by (intro put_progress_step) simp_all
  from Cons.IH [OF this] Cons.prems(2) show ?case by (cases b) simp_all
qed simp

lemma fold_put_reply: "fold put_reply replies s = fold OnPutComplete (List.map_filter (\<lambda>r. r) replies) s"
  by (induction replies arbitrary: s) (auto simp: put_reply_def map_filter_simps split: option.split)

lemma length_replies: "length (List.map_filter (\<lambda>r. r) replies) + count_list replies None = length replies"
  by (induction replies) (auto simp: map_filter_simps split: option.split)

text \<open>
  The stage reports once, when every write is answered. However the answers of the \<open>Put\<close>s are split into
  those that come from inside the call and those that come later, and in whatever order the later
  ones come: while some are missing the callback has not run, and with the last one it runs exactly
  once, with the number of accepted writes.
\<close>

theorem storage_stage_reports_once:
  assumes "length replies = sum_list (map (\<lambda>origin. length (ls_entries origin)) origins)"
    and "length later \<le> count_list replies None"
  shows "done_calls (fold OnPutComplete later (OnRead origins replies new_storage_stage)) =
    (if length later = count_list replies None
     then [count_list (List.map_filter (\<lambda>r. r) replies) True + count_list later True] else [])"
proof (cases "length replies = 0")
  case True
  then have "replies = []" "later = []" using assms(2) by simp_all
  then show ?thesis using assms(1)
    by (simp add: OnRead_def new_storage_stage_def Let_def map_filter_simps)
next
  case False
  let ?now = "List.map_filter (\<lambda>r. r) replies" and ?n = "length replies"
  have "put_progress ?n 0 0 (new_storage_stage\<lparr>pending := ?n\<rparr>)"
    using False by (simp add: put_progress_def new_storage_stage_def)
  moreover have "OnRead origins replies new_storage_stage =
      fold OnPutComplete ?now (new_storage_stage\<lparr>pending := ?n\<rparr>)"
    using False by (simp add: OnRead_def new_storage_stage_def Let_def fold_put_reply assms(1) [symmetric]
        del: sum_list_eq_0_iff)
  ultimately have "put_progress ?n (length ?now + length later) (count_list ?now True + count_list later True)
      (fold OnPutComplete later (OnRead origins replies new_storage_stage))"
    using put_progress_fold [of ?n 0 0 _ "?now @ later"] length_replies [of replies] assms(2) by simp
  then show ?thesis using length_replies [of replies] assms(2) by (auto simp: put_progress_def)
qed

theorem storage_stage_reports_once_witness:
  "done_calls (fold OnPutComplete [True] (OnRead [\<lparr>storage_key = (), ls_entries = [(''a'', ''1''), (''b'', ''2'')]\<rparr>]
     [Some False, None] new_storage_stage)) = [1]"
  by (subst storage_stage_reports_once) (simp_all add: map_filter_simps)

end
