(* ===== verification/Edge_Import.thy ===== *)
theory Edge_Import
  imports Edge_Files Edge_Stages
begin

text \<open>
  The browser-side half of an Edge import, \<open>roamux/browser/importer/\<close>: carriers and report
  (\<open>edge_import_types.h\<close>, \<open>edge_import_report.cc\<close>), the versioned adapter, the preflight, the coordinator that
  runs one carrier after another (\<open>roamux_edge_import_coordinator.cc\<close>) and the driver with the plan
  of items (\<open>roamux_edge_import_driver.cc\<close>). The coordinator is a state machine: each stage it starts is
  what it waits for, and the stage's answer is the next event.
\<close>

subsection \<open>Carriers and the report\<close>

datatype EdgeCarrier = kPasswords | kCookies | kLocalStorage | kIndexedDb

definition kAllEdgeCarriers :: "EdgeCarrier list" where
  "kAllEdgeCarriers = [kPasswords, kCookies, kLocalStorage, kIndexedDb]"

datatype CarrierStatus = kImported | kSkipped | kBlocked | kFailed | kDegraded | kUnsupported | kFeatureDisabled

record CarrierOutcome =
  carrier :: EdgeCarrier
  carrier_status :: CarrierStatus
  carrier_item_count :: nat
  reason :: string

definition outcome :: "EdgeCarrier \<Rightarrow> CarrierStatus \<Rightarrow> nat \<Rightarrow> string \<Rightarrow> CarrierOutcome" where
  "outcome c s n r = \<lparr>carrier = c, carrier_status = s, carrier_item_count = n, reason = r\<rparr>"

record EdgeImportReport =
  source_version :: "nat list option"
  report_version_supported :: bool
  edge_running_detected :: bool
  outcomes :: "CarrierOutcome list"

definition new_report :: EdgeImportReport where
  "new_report = \<lparr>source_version = None, report_version_supported = False, edge_running_detected = False,
                 outcomes = []\<rparr>"

definition report_Add :: "CarrierOutcome \<Rightarrow> EdgeImportReport \<Rightarrow> EdgeImportReport" where
  "report_Add x r = r\<lparr>outcomes := outcomes r @ [x]\<rparr>"

definition report_Find :: "EdgeImportReport \<Rightarrow> EdgeCarrier \<Rightarrow> CarrierOutcome option" where
  "report_Find r c = find (\<lambda>x. carrier x = c) (outcomes r)"

definition total_imported :: "EdgeImportReport \<Rightarrow> nat" where
  "total_imported r = fold (\<lambda>x total. total + carrier_item_count x) (outcomes r) 0"

fun clean_status :: "CarrierStatus \<Rightarrow> bool" where
  "clean_status kImported = True" | "clean_status kSkipped = True" | "clean_status _ = False"

definition any_degraded :: "EdgeImportReport \<Rightarrow> bool" where
  "any_degraded r \<longleftrightarrow> list_ex (\<lambda>x. \<not> clean_status (carrier_status x)) (outcomes r)"

fun EdgeCarrierName :: "EdgeCarrier \<Rightarrow> string" where
  "EdgeCarrierName kPasswords = ''passwords''"
| "EdgeCarrierName kCookies = ''cookies''"
| "EdgeCarrierName kLocalStorage = ''localStorage''"
| "EdgeCarrierName kIndexedDb = ''indexedDB''"

fun CarrierStatusName :: "CarrierStatus \<Rightarrow> string" where
  "CarrierStatusName kImported = ''imported''"
| "CarrierStatusName kSkipped = ''skipped''"
| "CarrierStatusName kBlocked = ''blocked''"
| "CarrierStatusName kFailed = ''failed''"
| "CarrierStatusName kDegraded = ''degraded''"
| "CarrierStatusName kUnsupported = ''unsupported''"
| "CarrierStatusName kFeatureDisabled = ''feature-disabled''"

subsection \<open>The adapter and the preflight\<close>

text \<open>\<open>parse_version\<close> is \<open>base::Version\<close>'s parser, None when not valid; \<open>trim\<close> is \<open>TrimWhitespaceASCII\<close>.\<close>

record version_env =
  trim :: "string \<Rightarrow> string"
  parse_version :: "string \<Rightarrow> nat list option"

definition kEdgeUserData :: string where "kEdgeUserData = ''Microsoft Edge''"
definition kSupportedMilestone :: nat where "kSupportedMilestone = 150"

definition DetectEdgeVersion :: "version_env \<Rightarrow> edge_files \<Rightarrow> path \<Rightarrow> nat list option" where
  "DetectEdgeVersion v fs user_data_dir =
     (case ReadFile fs (append_path user_data_dir ''Last Version'') of
        None \<Rightarrow> None
      | Some contents \<Rightarrow> parse_version v (trim v contents))"

record EdgeImportAdapter =
  adapter_user_data_dir :: path
  adapter_profile_dir :: path
  adapter_version :: "nat list option"
  adapter_version_supported :: bool

definition adapter_Detect :: "version_env \<Rightarrow> edge_files \<Rightarrow> path \<Rightarrow> path \<Rightarrow> EdgeImportAdapter" where
  "adapter_Detect v fs app_data_root profile_dir =
     (let user_data_dir = append_path app_data_root kEdgeUserData;
          version = DetectEdgeVersion v fs user_data_dir;
          supported = (case version of
                         None \<Rightarrow> False
                       | Some components \<Rightarrow> components \<noteq> [] \<and> components ! 0 = kSupportedMilestone)
      in \<lparr>adapter_user_data_dir = user_data_dir, adapter_profile_dir = profile_dir,
          adapter_version = version, adapter_version_supported = supported\<rparr>)"

fun CarrierAvailable :: "edge_files \<Rightarrow> EdgeImportAdapter \<Rightarrow> EdgeCarrier \<Rightarrow> bool" where
  "CarrierAvailable fs a kPasswords = PathExists fs (append_path (adapter_profile_dir a) ''Login Data'')"
| "CarrierAvailable fs a kCookies = PathExists fs (append_path (adapter_profile_dir a) ''Cookies'')"
| "CarrierAvailable fs a kLocalStorage =
     DirectoryExists fs (append_path (append_path (adapter_profile_dir a) ''Local Storage'') ''leveldb'')"
| "CarrierAvailable fs a kIndexedDb = DirectoryExists fs (append_path (adapter_profile_dir a) ''IndexedDB'')"

text \<open>The lock's target when Edge is running, else None.\<close>

definition DetectEdgeRunning :: "edge_files \<Rightarrow> path \<Rightarrow> string option" where
  "DetectEdgeRunning fs user_data_dir = ReadSymbolicLink fs (append_path user_data_dir ''SingletonLock'')"

definition DirHasEntries :: "edge_files \<Rightarrow> path \<Rightarrow> bool" where
  "DirHasEntries fs d \<longleftrightarrow> DirectoryExists fs d \<and> \<not> IsDirectoryEmpty fs d"

fun DestCarrierInitialized :: "edge_files \<Rightarrow> path \<Rightarrow> EdgeCarrier \<Rightarrow> bool" where
  "DestCarrierInitialized fs dest kIndexedDb = DirHasEntries fs (append_path dest ''IndexedDB'')"
| "DestCarrierInitialized fs dest kLocalStorage = False"
| "DestCarrierInitialized fs dest kPasswords = False"
| "DestCarrierInitialized fs dest kCookies = False"

record EdgeImportPreflightResult =
  user_data_dir :: path
  profile_dir :: path
  version :: "nat list option"
  version_supported :: bool
  running_lock :: "string option"
  source_available :: "EdgeCarrier \<rightharpoonup> bool"
  dest_initialized :: "EdgeCarrier \<rightharpoonup> bool"

definition edge_is_running :: "EdgeImportPreflightResult \<Rightarrow> bool" where "edge_is_running p \<longleftrightarrow> running_lock p \<noteq> None"

definition SourceAvailable :: "EdgeImportPreflightResult \<Rightarrow> EdgeCarrier \<Rightarrow> bool" where
  "SourceAvailable p c \<longleftrightarrow> source_available p c = Some True"

definition DestInitialized :: "EdgeImportPreflightResult \<Rightarrow> EdgeCarrier \<Rightarrow> bool" where
  "DestInitialized p c \<longleftrightarrow> dest_initialized p c = Some True"

definition ComputeEdgeImportPreflight ::
  "version_env \<Rightarrow> edge_files \<Rightarrow> path \<Rightarrow> path \<Rightarrow> path \<Rightarrow> EdgeCarrier set \<Rightarrow> EdgeImportPreflightResult" where
  "ComputeEdgeImportPreflight v fs app_data_root source_dir dest_dir carriers =
     (let a = adapter_Detect v fs app_data_root source_dir
      in \<lparr>user_data_dir = adapter_user_data_dir a, profile_dir = adapter_profile_dir a,
          version = adapter_version a, version_supported = adapter_version_supported a,
          running_lock = DetectEdgeRunning fs (adapter_user_data_dir a),
          source_available = (\<lambda>c. if c \<in> carriers then Some (CarrierAvailable fs a c) else None),
          dest_initialized = (\<lambda>c. if c \<in> carriers then Some (DestCarrierInitialized fs dest_dir c) else None)\<rparr>)"

subsection \<open>The coordinator\<close>

datatype await = Not_started | Await_preflight | Await_secret "16 word" bool bool | Await_usage | Await_local_storage
  | Await_indexed_db | Finished

record RoamuxEdgeImportCoordinator =
  carriers :: "EdgeCarrier set"
  preflight :: "EdgeImportPreflightResult option"
  report :: EdgeImportReport
  awaiting :: await
  done_reports :: "EdgeImportReport list"

definition new_coordinator :: "EdgeCarrier set \<Rightarrow> RoamuxEdgeImportCoordinator" where
  "new_coordinator cs = \<lparr>carriers = cs, preflight = None, report = new_report, awaiting = Not_started, done_reports = []\<rparr>"

definition Requested :: "RoamuxEdgeImportCoordinator \<Rightarrow> EdgeCarrier \<Rightarrow> bool" where
  "Requested c x \<longleftrightarrow> x \<in> carriers c"

definition add_outcome ::
  "EdgeCarrier \<Rightarrow> CarrierStatus \<Rightarrow> nat \<Rightarrow> string \<Rightarrow> RoamuxEdgeImportCoordinator \<Rightarrow> RoamuxEdgeImportCoordinator" where
  "add_outcome x s n r c = c\<lparr>report := report_Add (outcome x s n r) (report c)\<rparr>"

definition import_Finish :: "RoamuxEdgeImportCoordinator \<Rightarrow> RoamuxEdgeImportCoordinator" where
  "import_Finish c = c\<lparr>done_reports := done_reports c @ [report c], awaiting := Finished\<rparr>"

text \<open>The facts of the preflight; before it answers nothing is available.\<close>

definition source_of :: "RoamuxEdgeImportCoordinator \<Rightarrow> EdgeCarrier \<Rightarrow> bool" where
  "source_of c x \<longleftrightarrow> (case preflight c of None \<Rightarrow> False | Some p \<Rightarrow> SourceAvailable p x)"

definition dest_of :: "RoamuxEdgeImportCoordinator \<Rightarrow> EdgeCarrier \<Rightarrow> bool" where
  "dest_of c x \<longleftrightarrow> (case preflight c of None \<Rightarrow> False | Some p \<Rightarrow> DestInitialized p x)"

definition running_of :: "RoamuxEdgeImportCoordinator \<Rightarrow> bool" where
  "running_of c \<longleftrightarrow> (case preflight c of None \<Rightarrow> False | Some p \<Rightarrow> edge_is_running p)"

definition RunIndexedDbStep :: "RoamuxEdgeImportCoordinator \<Rightarrow> RoamuxEdgeImportCoordinator" where
  "RunIndexedDbStep c =
     (if \<not> Requested c kIndexedDb then import_Finish c
      else if \<not> source_of c kIndexedDb then
        import_Finish (add_outcome kIndexedDb kUnsupported 0 ''no source IndexedDB'' c)
      else if running_of c then
        import_Finish (add_outcome kIndexedDb kBlocked 0 ''Edge is running; IndexedDB snapshot is unsafe'' c)
      else if dest_of c kIndexedDb then
        import_Finish (add_outcome kIndexedDb kBlocked 0 ''destination IndexedDB already initialized'' c)
      else c\<lparr>awaiting := Await_indexed_db\<rparr>)"

definition OnIndexedDbDone :: "nat \<Rightarrow> RoamuxEdgeImportCoordinator \<Rightarrow> RoamuxEdgeImportCoordinator" where
  "OnIndexedDbDone stores c =
     import_Finish (add_outcome kIndexedDb (if stores > 0 then kImported else kDegraded) stores
       (if stores > 0 then [] else ''source present but no first-party stores imported'') c)"

definition RunLocalStorageStep :: "RoamuxEdgeImportCoordinator \<Rightarrow> RoamuxEdgeImportCoordinator" where
  "RunLocalStorageStep c =
     (if \<not> Requested c kLocalStorage then RunIndexedDbStep c
      else if \<not> source_of c kLocalStorage then
        RunIndexedDbStep (add_outcome kLocalStorage kUnsupported 0 ''no source localStorage'' c)
      else c\<lparr>awaiting := Await_usage\<rparr>)"

text \<open>\<open>in_use\<close>: the live store already has entries.\<close>

definition OnLocalStorageUsageChecked :: "bool \<Rightarrow> RoamuxEdgeImportCoordinator \<Rightarrow> RoamuxEdgeImportCoordinator" where
  "OnLocalStorageUsageChecked in_use c =
     (if in_use then
        RunIndexedDbStep (add_outcome kLocalStorage kBlocked 0 ''destination localStorage already initialized'' c)
      else c\<lparr>awaiting := Await_local_storage\<rparr>)"

definition OnLocalStorageDone :: "nat \<Rightarrow> RoamuxEdgeImportCoordinator \<Rightarrow> RoamuxEdgeImportCoordinator" where
  "OnLocalStorageDone n c =
     (let (s, r) =
        (if running_of c then (kDegraded, ''Edge was running; localStorage imported best-effort'')
         else if n > 0 then (kImported, [])
         else (kDegraded, ''source present but no localStorage entries imported (empty or unreadable)''))
      in RunIndexedDbStep (add_outcome kLocalStorage s n r c))"

definition keychain_reason :: string where
  "keychain_reason = ''Edge keychain unavailable '' @ [CHR 0xE2, CHR 0x80, CHR 0x94] @ '' secrets not imported''"

definition status_for :: "RoamuxEdgeImportCoordinator \<Rightarrow> bool \<Rightarrow> nat \<Rightarrow> CarrierStatus \<times> string" where
  "status_for c keychain n =
     (if \<not> keychain then (kDegraded, keychain_reason)
      else if running_of c then (kDegraded, ''Edge was running; secrets imported best-effort'')
      else if n = 0 then (kDegraded, ''source present but no entries imported (empty or unreadable)'')
      else (kImported, []))"

definition RunSecretStep :: "item_bits \<Rightarrow> RoamuxEdgeImportCoordinator \<Rightarrow> RoamuxEdgeImportCoordinator" where
  "RunSecretStep bits c =
     (let want_passwords = Requested c kPasswords; want_cookies = Requested c kCookies
      in if \<not> want_passwords \<and> \<not> want_cookies then RunLocalStorageStep c
         else let passwords_available = want_passwords \<and> source_of c kPasswords;
                  cookies_available = want_cookies \<and> source_of c kCookies;
                  c1 = (if want_passwords \<and> \<not> passwords_available
                        then add_outcome kPasswords kUnsupported 0 ''no source Login Data'' c else c);
                  c2 = (if want_cookies \<and> \<not> cookies_available
                        then add_outcome kCookies kUnsupported 0 ''no source Cookies'' c1 else c1);
                  i1 = (if passwords_available then PASSWORDS bits else 0);
                  items = (if cookies_available then i1 OR COOKIES bits else i1)
              in if items = 0 then RunLocalStorageStep c2
                 else c2\<lparr>awaiting := Await_secret items passwords_available cookies_available\<rparr>)"

definition OnSecretDone :: "bool \<Rightarrow> bool \<Rightarrow> secret_result \<Rightarrow> RoamuxEdgeImportCoordinator \<Rightarrow> RoamuxEdgeImportCoordinator" where
  "OnSecretDone attempted_passwords attempted_cookies res c =
     (let add = (\<lambda>x n c. let (s, r) = status_for c (keychain_available res) n in add_outcome x s n r c);
          c1 = (if attempted_passwords then add kPasswords (passwords_imported res) c else c);
          c2 = (if attempted_cookies then add kCookies (cookies_imported res) c1 else c1)
      in RunLocalStorageStep c2)"

definition OnPreflightDone ::
  "item_bits \<Rightarrow> EdgeImportPreflightResult \<Rightarrow> RoamuxEdgeImportCoordinator \<Rightarrow> RoamuxEdgeImportCoordinator" where
  "OnPreflightDone bits p c =
     RunSecretStep bits (c\<lparr>preflight := Some p,
       report := (report c)\<lparr>source_version := version p, report_version_supported := version_supported p,
                            edge_running_detected := edge_is_running p\<rparr>\<rparr>)"

definition add_disabled :: "EdgeCarrier \<Rightarrow> RoamuxEdgeImportCoordinator \<Rightarrow> RoamuxEdgeImportCoordinator" where
  "add_disabled x c =
     (if Requested c x then add_outcome x kFeatureDisabled 0 ''roamux::kEdgeImport disabled'' c else c)"

definition coordinator_Run :: "bool \<Rightarrow> RoamuxEdgeImportCoordinator \<Rightarrow> RoamuxEdgeImportCoordinator" where
  "coordinator_Run feature c =
     (if \<not> feature then import_Finish (fold add_disabled kAllEdgeCarriers c)
      else c\<lparr>awaiting := Await_preflight\<rparr>)"

text \<open>The answers of what the coordinator waits for, as the stages and Chromium give them.\<close>

record import_env =
  preflight_answer :: EdgeImportPreflightResult
  secret_answer :: "16 word \<Rightarrow> secret_result"
  usage_answer :: bool
  local_storage_answer :: nat
  indexed_db_answer :: nat

definition answer :: "item_bits \<Rightarrow> import_env \<Rightarrow> RoamuxEdgeImportCoordinator \<Rightarrow> RoamuxEdgeImportCoordinator" where
  "answer bits env c =
     (case awaiting c of
        Not_started \<Rightarrow> c
      | Await_preflight \<Rightarrow> OnPreflightDone bits (preflight_answer env) c
      | Await_secret items p k \<Rightarrow> OnSecretDone p k (secret_answer env items) c
      | Await_usage \<Rightarrow> OnLocalStorageUsageChecked (usage_answer env) c
      | Await_local_storage \<Rightarrow> OnLocalStorageDone (local_storage_answer env) c
      | Await_indexed_db \<Rightarrow> OnIndexedDbDone (indexed_db_answer env) c
      | Finished \<Rightarrow> c)"

subsection \<open>The driver\<close>

record EdgeImportItemsPlan =
  utility_items :: "16 word"
  plan_carriers :: "EdgeCarrier set"

definition MakeEdgeImportItemsPlan :: "item_bits \<Rightarrow> 16 word \<Rightarrow> EdgeImportItemsPlan" where
  "MakeEdgeImportItemsPlan bits items =
     \<lparr>utility_items = items AND NOT (PASSWORDS bits OR COOKIES bits),
      plan_carriers = (if items AND PASSWORDS bits \<noteq> 0 then {kPasswords} else {}) \<union>
                      (if items AND COOKIES bits \<noteq> 0 then {kCookies} else {}) \<union> {kLocalStorage, kIndexedDb}\<rparr>"

record SourceProfile =
  importer_name :: string
  is_edge_chromium :: bool
  source_path :: path
  services_supported :: "16 word"

definition MaskEdgeSecretItemsForUtility :: "item_bits \<Rightarrow> bool \<Rightarrow> SourceProfile \<Rightarrow> 16 word \<Rightarrow> 16 word" where
  "MaskEdgeSecretItemsForUtility bits feature sp items =
     (if \<not> is_edge_chromium sp \<or> \<not> feature then items
      else utility_items (MakeEdgeImportItemsPlan bits items))"

definition AppDataRootFromEdgeProfilePath :: "path \<Rightarrow> path" where
  "AppDataRootFromEdgeProfilePath p = DirName (DirName p)"

text \<open>\<open>Start\<close>: the report at once when the feature is off, else the coordinator it runs.\<close>

definition driver_Start :: "item_bits \<Rightarrow> bool \<Rightarrow> 16 word \<Rightarrow> EdgeImportReport + RoamuxEdgeImportCoordinator" where
  "driver_Start bits feature items =
     (let plan = MakeEdgeImportItemsPlan bits items
      in if \<not> feature then
           Inl (fold (\<lambda>x. report_Add (outcome x kFeatureDisabled 0 ''roamux::kEdgeImport disabled''))
                  (filter (\<lambda>x. x \<in> plan_carriers plan) kAllEdgeCarriers) new_report)
         else Inr (coordinator_Run feature (new_coordinator (plan_carriers plan))))"

text \<open>None is the hook's \<open>false\<close>; else the root, the profile directory and the driver's start.\<close>

definition MaybeStartEdgeBrowserSideImport ::
  "item_bits \<Rightarrow> bool \<Rightarrow> SourceProfile \<Rightarrow> 16 word \<Rightarrow> (path \<times> path \<times> (EdgeImportReport + RoamuxEdgeImportCoordinator)) option" where
  "MaybeStartEdgeBrowserSideImport bits feature sp items =
     (if \<not> is_edge_chromium sp \<or> \<not> feature then None
      else Some (AppDataRootFromEdgeProfilePath (source_path sp), source_path sp, driver_Start bits feature items))"

subsection \<open>Every requested carrier is reported\<close>

definition reported :: "RoamuxEdgeImportCoordinator \<Rightarrow> EdgeCarrier list" where
  "reported c = map carrier (outcomes (report c))"

text \<open>
  What an outcome claims: an import is only reported with something imported, from a source that is
  there and an Edge that does not run; what was not attempted counts nothing.
\<close>

definition honest :: "(EdgeCarrier \<Rightarrow> bool) \<Rightarrow> bool \<Rightarrow> CarrierOutcome \<Rightarrow> bool" where
  "honest available edge_running x \<longleftrightarrow>
     (carrier_status x = kImported \<longrightarrow> carrier_item_count x > 0 \<and> available (carrier x) \<and> \<not> edge_running) \<and>
     (carrier_status x \<in> {kBlocked, kUnsupported, kFeatureDisabled} \<longrightarrow> carrier_item_count x = 0) \<and>
     carrier_status x \<notin> {kSkipped, kFailed}"

definition all_honest :: "RoamuxEdgeImportCoordinator \<Rightarrow> bool" where
  "all_honest c \<longleftrightarrow> (\<forall>x \<in> set (outcomes (report c)). honest (source_of c) (running_of c) x)"

definition reports :: "EdgeCarrier set \<Rightarrow> RoamuxEdgeImportCoordinator \<Rightarrow> bool" where
  "reports S c \<longleftrightarrow> distinct (reported c) \<and> set (reported c) = S \<and> all_honest c"

definition complete :: "EdgeCarrier set \<Rightarrow> RoamuxEdgeImportCoordinator \<Rightarrow> bool" where
  "complete S c \<longleftrightarrow> awaiting c = Finished \<and> done_reports c = [report c] \<and> reports S c"

lemma coordinator_fields [simp]:
  "reported (add_outcome x s n r c) = reported c @ [x]" "reported (c\<lparr>awaiting := a\<rparr>) = reported c"
  "source_of (add_outcome x s n r c) = source_of c" "source_of (c\<lparr>awaiting := a\<rparr>) = source_of c"
  "running_of (add_outcome x s n r c) = running_of c" "running_of (c\<lparr>awaiting := a\<rparr>) = running_of c"
  "dest_of (add_outcome x s n r c) = dest_of c" "dest_of (c\<lparr>awaiting := a\<rparr>) = dest_of c"
  "carriers (add_outcome x s n r c) = carriers c" "done_reports (add_outcome x s n r c) = done_reports c"
  "Requested (add_outcome x s n r c) = Requested c" "Requested (c\<lparr>awaiting := a\<rparr>) = Requested c"
  "awaiting (add_outcome x s n r c) = awaiting c"
  "source_of (c\<lparr>done_reports := d\<rparr>) = source_of c" "running_of (c\<lparr>done_reports := d\<rparr>) = running_of c"
  by (simp_all add: add_outcome_def reported_def report_Add_def outcome_def source_of_def running_of_def dest_of_def
      Requested_def fun_eq_iff)

lemma reports_awaiting [simp]: "reports S (c\<lparr>awaiting := a\<rparr>) = reports S c"
  by (simp add: reports_def all_honest_def)

lemma all_honest_add [simp]:
  "all_honest (add_outcome x s n r c) \<longleftrightarrow> all_honest c \<and> honest (source_of c) (running_of c) (outcome x s n r)"
proof -
  have "outcomes (report (add_outcome x s n r c)) = outcomes (report c) @ [outcome x s n r]"
    by (simp add: add_outcome_def report_Add_def)
  then show ?thesis by (auto simp: all_honest_def)
qed

lemma reports_add:
  "reports S c \<Longrightarrow> x \<notin> S \<Longrightarrow> honest (source_of c) (running_of c) (outcome x s n r) \<Longrightarrow>
     reports (insert x S) (add_outcome x s n r c)"
  by (simp add: reports_def)

lemma honest_outcome:
  "honest av run (outcome x s n r) \<longleftrightarrow>
     (s = kImported \<longrightarrow> n > 0 \<and> av x \<and> \<not> run) \<and> (s \<in> {kBlocked, kUnsupported, kFeatureDisabled} \<longrightarrow> n = 0) \<and>
     s \<notin> {kSkipped, kFailed}"
  by (simp add: honest_def outcome_def)

lemma complete_Finish: "reports S c \<Longrightarrow> done_reports c = [] \<Longrightarrow> complete S (import_Finish c)"
  by (simp add: complete_def import_Finish_def reports_def reported_def all_honest_def)

lemma complete_answer: "complete S c \<Longrightarrow> answer bits env c = c"
  by (simp add: complete_def answer_def)

lemma complete_more: "complete S ((answer bits env ^^ m) c) \<Longrightarrow> m \<le> n \<Longrightarrow> complete S ((answer bits env ^^ n) c)"
proof (induction "n - m" arbitrary: n)
  case (Suc k)
  then obtain n' where n: "n = Suc n'" "m \<le> n'" "k = n' - m" by (cases n) auto
  then have "complete S ((answer bits env ^^ n') c)" using Suc by simp
  then show ?case by (simp add: n complete_answer)
qed simp

text \<open>From the IndexedDB step one answer is enough, from localStorage three, from the secrets four.\<close>

lemma indexed_db_completes:
  assumes "reports S c" and "kIndexedDb \<notin> S" and "done_reports c = []"
  shows "complete (S \<union> ({kIndexedDb} \<inter> carriers c)) ((answer bits env ^^ 1) (RunIndexedDbStep c))"
proof (cases "Requested c kIndexedDb \<and> source_of c kIndexedDb \<and> \<not> running_of c \<and> \<not> dest_of c kIndexedDb")
  case True
  then show ?thesis using assms
    by (auto simp: RunIndexedDbStep_def answer_def OnIndexedDbDone_def Requested_def honest_outcome
        intro!: complete_Finish reports_add)
next
  case False
  then have "complete (S \<union> ({kIndexedDb} \<inter> carriers c)) (RunIndexedDbStep c)" using assms
    by (auto simp: RunIndexedDbStep_def Requested_def honest_outcome intro!: complete_Finish reports_add)
  then show ?thesis by (simp add: complete_answer)
qed

lemma local_storage_reported:
  assumes "reports S c" and "S \<inter> {kLocalStorage, kIndexedDb} = {}" and "done_reports c = []"
    and "kLocalStorage \<in> carriers c" and "honest (source_of c) (running_of c) (outcome kLocalStorage s n r)"
  shows "complete (S \<union> ({kLocalStorage, kIndexedDb} \<inter> carriers c))
    ((answer bits env ^^ 1) (RunIndexedDbStep (add_outcome kLocalStorage s n r c)))"
proof -
  have "reports (insert kLocalStorage S) (add_outcome kLocalStorage s n r c)" using assms by (intro reports_add) auto
  from indexed_db_completes [OF this, of bits env] assms
  have "complete (insert kLocalStorage S \<union> ({kIndexedDb} \<inter> carriers c))
      ((answer bits env ^^ 1) (RunIndexedDbStep (add_outcome kLocalStorage s n r c)))" by simp
  moreover have "insert kLocalStorage S \<union> ({kIndexedDb} \<inter> carriers c) = S \<union> ({kLocalStorage, kIndexedDb} \<inter> carriers c)"
    using assms(4) by auto
  ultimately show ?thesis by simp
qed

lemma answer_awaiting:
  "answer bits env (c\<lparr>awaiting := Await_usage\<rparr>) = OnLocalStorageUsageChecked (usage_answer env) (c\<lparr>awaiting := Await_usage\<rparr>)"
  "answer bits env (c\<lparr>awaiting := Await_local_storage\<rparr>) =
     OnLocalStorageDone (local_storage_answer env) (c\<lparr>awaiting := Await_local_storage\<rparr>)"
  "answer bits env (c\<lparr>awaiting := Await_secret i p k\<rparr>) =
     OnSecretDone p k (secret_answer env i) (c\<lparr>awaiting := Await_secret i p k\<rparr>)"
  "answer bits env (c\<lparr>awaiting := Await_preflight\<rparr>) =
     OnPreflightDone bits (preflight_answer env) (c\<lparr>awaiting := Await_preflight\<rparr>)"
  by (simp_all add: answer_def)

lemma answer_more: "(answer bits env ^^ Suc n) c = (answer bits env ^^ n) (answer bits env c)"
  by (simp add: funpow_swap1)

lemma local_storage_completes:
  assumes "reports S c" and "S \<inter> {kLocalStorage, kIndexedDb} = {}" and "done_reports c = []"
  shows "complete (S \<union> ({kLocalStorage, kIndexedDb} \<inter> carriers c)) ((answer bits env ^^ 3) (RunLocalStorageStep c))"
proof -
  let ?S = "S \<union> ({kLocalStorage, kIndexedDb} \<inter> carriers c)"
  consider "kLocalStorage \<notin> carriers c" | "kLocalStorage \<in> carriers c" "\<not> source_of c kLocalStorage"
    | "kLocalStorage \<in> carriers c" "source_of c kLocalStorage" by blast
  then show ?thesis
  proof cases
    case 1
    then have "complete ?S ((answer bits env ^^ 1) (RunLocalStorageStep c))"
      using indexed_db_completes [OF assms(1) _ assms(3), of bits env] assms(2)
      by (simp add: RunLocalStorageStep_def Requested_def Int_insert_left)
    then show ?thesis by (rule complete_more) simp
  next
    case 2
    then have "complete ?S ((answer bits env ^^ 1) (RunLocalStorageStep c))"
      using local_storage_reported [OF assms, of kUnsupported 0 "''no source localStorage''" bits env]
      by (simp add: RunLocalStorageStep_def Requested_def honest_outcome)
    then show ?thesis by (rule complete_more) simp
  next
    case 3
    let ?c1 = "c\<lparr>awaiting := Await_usage\<rparr>" and ?c2 = "c\<lparr>awaiting := Await_local_storage\<rparr>"
    have start: "RunLocalStorageStep c = ?c1" using 3 by (simp add: RunLocalStorageStep_def Requested_def)
    have c1: "reports S ?c1" "done_reports ?c1 = []" "kLocalStorage \<in> carriers ?c1" using assms 3 by simp_all
    have c2: "reports S ?c2" "done_reports ?c2 = []" "kLocalStorage \<in> carriers ?c2" using assms 3 by simp_all
    show ?thesis
    proof (cases "usage_answer env")
      case True
      have "complete ?S ((answer bits env ^^ 1) (answer bits env ?c1))"
        using local_storage_reported [OF c1(1) assms(2) c1(2,3), of kBlocked 0] True
        by (simp add: answer_awaiting OnLocalStorageUsageChecked_def honest_outcome)
      then have "complete ?S ((answer bits env ^^ 2) ?c1)" by (simp add: numeral_2_eq_2)
      then show ?thesis unfolding start by (rule complete_more) simp
    next
      case False
      then have "answer bits env ?c1 = ?c2" by (simp add: answer_awaiting OnLocalStorageUsageChecked_def)
      moreover have "complete ?S ((answer bits env ^^ 1) (answer bits env ?c2))"
        using local_storage_reported [OF c2(1) assms(2) c2(2,3)] 3(2)
        by (simp add: answer_awaiting OnLocalStorageDone_def honest_outcome)
      ultimately show ?thesis unfolding start by (simp add: numeral_3_eq_3)
    qed
  qed
qed

text \<open>The two bits the code tests are bits, and different ones.\<close>

definition bits_ok :: "item_bits \<Rightarrow> bool" where
  "bits_ok bits \<longleftrightarrow> PASSWORDS bits \<noteq> 0 \<and> COOKIES bits \<noteq> 0 \<and> PASSWORDS bits AND COOKIES bits = 0"

lemma status_for_honest:
  "status_for c keychain n = (s, r) \<Longrightarrow> source_of c x \<Longrightarrow> honest (source_of c) (running_of c) (outcome x s n r)"
  by (auto simp: status_for_def honest_outcome split: if_splits)

lemma status_for_add [simp]: "status_for (add_outcome x s n r c) = status_for c"
  by (simp add: status_for_def fun_eq_iff)

lemma carriers_split: "carriers c = ({kPasswords, kCookies} \<inter> carriers c) \<union> ({kLocalStorage, kIndexedDb} \<inter> carriers c)"
proof -
  have "x \<in> {kPasswords, kCookies} \<union> {kLocalStorage, kIndexedDb}" for x by (cases x) auto
  then show ?thesis by auto
qed

lemma secret_done_reports:
  assumes "reports S c" and "p \<longrightarrow> kPasswords \<notin> S \<and> source_of c kPasswords" and "k \<longrightarrow> kCookies \<notin> S \<and> source_of c kCookies"
  shows "\<exists>c'. OnSecretDone p k res c = RunLocalStorageStep c' \<and> carriers c' = carriers c \<and>
    done_reports c' = done_reports c \<and>
    reports (S \<union> (if p then {kPasswords} else {}) \<union> (if k then {kCookies} else {})) c'"
proof -
  obtain s1 r1 where st1: "status_for c (keychain_available res) (passwords_imported res) = (s1, r1)" by fastforce
  obtain s2 r2 where st2: "status_for c (keychain_available res) (cookies_imported res) = (s2, r2)" by fastforce
  let ?c1 = "if p then add_outcome kPasswords s1 (passwords_imported res) r1 c else c"
  let ?c2 = "if k then add_outcome kCookies s2 (cookies_imported res) r2 ?c1 else ?c1"
  have "OnSecretDone p k res c = RunLocalStorageStep ?c2"
    by (simp add: OnSecretDone_def Let_def st1 st2)
  moreover have r1: "reports (S \<union> (if p then {kPasswords} else {})) ?c1"
    using assms(1,2) reports_add [of S c kPasswords s1] status_for_honest [OF st1, of kPasswords] by simp
  moreover have "reports (S \<union> (if p then {kPasswords} else {}) \<union> (if k then {kCookies} else {})) ?c2"
    using r1 assms(3) reports_add [OF r1, of kCookies s2] status_for_honest [OF st2, of kCookies] by auto
  ultimately show ?thesis by (intro exI [of _ ?c2]) simp
qed

lemma secrets_complete:
  assumes "reports {} c" and "done_reports c = []" and "bits_ok bits"
  shows "complete (carriers c) ((answer bits env ^^ 4) (RunSecretStep bits c))"
proof -
  let ?w = "\<lambda>x. x \<in> carriers c \<and> \<not> source_of c x" and ?a = "\<lambda>x. x \<in> carriers c \<and> source_of c x"
  let ?c1 = "if ?w kPasswords then add_outcome kPasswords kUnsupported 0 ''no source Login Data'' c else c"
  let ?c2 = "if ?w kCookies then add_outcome kCookies kUnsupported 0 ''no source Cookies'' ?c1 else ?c1"
  let ?U = "(if ?w kPasswords then {kPasswords} else {}) \<union> (if ?w kCookies then {kCookies} else {})"
  let ?p = "?a kPasswords" and ?k = "?a kCookies"
  have r1: "reports (if ?w kPasswords then {kPasswords} else {}) ?c1"
    using reports_add [OF assms(1), of kPasswords kUnsupported 0] assms(1) by (simp add: honest_outcome)
  have r2: "reports ?U ?c2"
    using reports_add [OF r1, of kCookies kUnsupported 0] r1 by (auto simp: honest_outcome)
  have c2: "carriers ?c2 = carriers c" "done_reports ?c2 = []" "source_of ?c2 = source_of c"
    using assms(2) by simp_all
  have local: "complete (S \<union> ({kLocalStorage, kIndexedDb} \<inter> carriers c)) ((answer bits env ^^ 3) (RunLocalStorageStep d))"
    if "reports S d" "S \<subseteq> {kPasswords, kCookies}" "carriers d = carriers c" "done_reports d = []" for S d
    using local_storage_completes [OF that(1) _ that(4), of bits env] that(2,3) by fastforce
  define items where "items = (if ?k then (if ?p then PASSWORDS bits else 0) OR COOKIES bits
                               else if ?p then PASSWORDS bits else 0)"
  have zero: "items = 0 \<longleftrightarrow> \<not> ?p \<and> \<not> ?k"
    using assms(3) by (auto simp: items_def bits_ok_def or_eq_0_iff)
  have start: "RunSecretStep bits c =
      (if items = 0 then RunLocalStorageStep ?c2 else ?c2\<lparr>awaiting := Await_secret items ?p ?k\<rparr>)"
    using zero unfolding RunSecretStep_def Requested_def Let_def items_def by auto
  show ?thesis
  proof (cases "items = 0")
    case True
    have "carriers c = ?U \<union> ({kLocalStorage, kIndexedDb} \<inter> carriers c)"
      using True zero by (subst carriers_split) auto
    with local [OF r2 _ c2(1,2)] have "complete (carriers c) ((answer bits env ^^ 3) (RunSecretStep bits c))"
      using True by (simp add: start split: if_splits)
    then show ?thesis by (rule complete_more) simp
  next
    case False
    let ?c3 = "?c2\<lparr>awaiting := Await_secret items ?p ?k\<rparr>"
    have "reports ?U ?c3" using r2 by simp
    from secret_done_reports [OF this, of ?p ?k "secret_answer env items"] obtain d where
      d: "OnSecretDone ?p ?k (secret_answer env items) ?c3 = RunLocalStorageStep d" "carriers d = carriers c"
        "done_reports d = []" "reports (?U \<union> (if ?p then {kPasswords} else {}) \<union> (if ?k then {kCookies} else {})) d"
      using c2 by (auto split: if_splits)
    have "carriers c = (?U \<union> (if ?p then {kPasswords} else {}) \<union> (if ?k then {kCookies} else {})) \<union>
        ({kLocalStorage, kIndexedDb} \<inter> carriers c)"
      by (subst carriers_split) auto
    with local [OF d(4) _ d(2,3)] have "complete (carriers c) ((answer bits env ^^ 3) (RunLocalStorageStep d))" by auto
    moreover have "answer bits env (RunSecretStep bits c) = RunLocalStorageStep d"
      using False d(1) by (simp only: start if_False answer_awaiting)
    ultimately show ?thesis using answer_more [of 3 bits env "RunSecretStep bits c"] by simp
  qed
qed

lemma set_kAllEdgeCarriers [simp]: "set kAllEdgeCarriers = UNIV"
proof -
  have "x \<in> set kAllEdgeCarriers" for x by (cases x) (simp_all add: kAllEdgeCarriers_def)
  then show ?thesis by blast
qed

lemma new_coordinator_reports: "reports {} (new_coordinator cs)"
  by (simp add: reports_def reported_def all_honest_def new_coordinator_def new_report_def)

lemma add_disabled_reports:
  assumes "distinct xs"
  shows "reports (cs \<inter> set xs) (fold add_disabled xs (new_coordinator cs)) \<and>
    carriers (fold add_disabled xs (new_coordinator cs)) = cs \<and>
    done_reports (fold add_disabled xs (new_coordinator cs)) = []"
  using assms
proof (induction xs rule: rev_induct)
  case Nil
  show ?case by (simp add: new_coordinator_reports) (simp add: new_coordinator_def)
next
  case (snoc x xs)
  then show ?case
    by (auto simp: add_disabled_def Requested_def Int_insert_right honest_outcome intro!: reports_add)
qed

lemma feature_off_completes: "complete cs (coordinator_Run False (new_coordinator cs))"
proof -
  have "distinct kAllEdgeCarriers" by (simp add: kAllEdgeCarriers_def)
  from add_disabled_reports [OF this, of cs] show ?thesis by (simp add: coordinator_Run_def complete_Finish)
qed

lemma feature_on_completes:
  assumes "bits_ok bits"
  shows "complete cs ((answer bits env ^^ 5) (coordinator_Run True (new_coordinator cs)))"
proof -
  define d where "d = (new_coordinator cs)\<lparr>awaiting := Await_preflight, preflight := Some (preflight_answer env),
     report := new_report\<lparr>source_version := version (preflight_answer env),
       report_version_supported := version_supported (preflight_answer env),
       edge_running_detected := edge_is_running (preflight_answer env)\<rparr>\<rparr>"
  have "answer bits env (coordinator_Run True (new_coordinator cs)) = RunSecretStep bits d"
    by (simp add: coordinator_Run_def answer_def OnPreflightDone_def new_coordinator_def d_def)
  moreover have "complete (carriers d) ((answer bits env ^^ 4) (RunSecretStep bits d))"
    by (rule secrets_complete [OF _ _ assms])
      (simp_all add: d_def new_coordinator_def reports_def reported_def all_honest_def new_report_def)
  ultimately have "complete (carriers d) ((answer bits env ^^ Suc 4) (coordinator_Run True (new_coordinator cs)))"
    by (simp only: answer_more)
  then show ?thesis by (simp add: d_def new_coordinator_def)
qed

lemma run_completes:
  assumes "bits_ok bits"
  shows "complete cs ((answer bits env ^^ 5) (coordinator_Run feature (new_coordinator cs)))"
proof (cases feature)
  case True
  then show ?thesis using feature_on_completes [OF assms] by simp
next
  case False
  have "complete cs ((answer bits env ^^ 0) (coordinator_Run feature (new_coordinator cs)))"
    using feature_off_completes False by simp
  then show ?thesis by (rule complete_more) simp
qed

text \<open>
  Every requested carrier is reported. Whatever the preflight finds and the stages answer, the import
  asks for at most five answers and then delivers one report, once, with exactly one outcome for each
  requested carrier. No outcome claims an import of nothing, from an absent source or under a running Edge, what was
  blocked or unsupported counts nothing, and a report without a degraded carrier means that every
  requested carrier was imported.
\<close>

theorem every_carrier_is_reported:
  assumes "bits_ok bits" and "c = (answer bits env ^^ 5) (coordinator_Run feature (new_coordinator cs))"
  shows "awaiting c = Finished \<and> done_reports c = [report c] \<and>
    distinct (map carrier (outcomes (report c))) \<and> set (map carrier (outcomes (report c))) = cs \<and>
    (\<forall>x \<in> set (outcomes (report c)). honest (source_of c) (running_of c) x) \<and>
    (\<not> any_degraded (report c) \<longrightarrow> (\<forall>x \<in> set (outcomes (report c)). carrier_status x = kImported \<and> carrier_item_count x > 0))"
proof -
  have "complete cs c" unfolding assms(2) by (rule run_completes [OF assms(1)])
  then show ?thesis
    by (auto simp: complete_def reports_def reported_def all_honest_def any_degraded_def list_ex_iff honest_def
        elim!: clean_status.elims)
qed

definition sample_bits :: item_bits where
  "sample_bits = \<lparr>HISTORY = 1, FAVORITES = 2, COOKIES = 4, PASSWORDS = 8, SEARCH_ENGINES = 16, AUTOFILL_FORM_DATA = 64\<rparr>"

definition sample_preflight :: EdgeImportPreflightResult where
  "sample_preflight = \<lparr>user_data_dir = [], profile_dir = [], version = Some [150], version_supported = True,
     running_lock = None, source_available = (\<lambda>_. Some True), dest_initialized = (\<lambda>_. Some False)\<rparr>"

definition sample_env :: import_env where
  "sample_env = \<lparr>preflight_answer = sample_preflight,
     secret_answer = (\<lambda>_. \<lparr>passwords_imported = 3, cookies_imported = 4, keychain_available = True\<rparr>),
     usage_answer = True, local_storage_answer = 0, indexed_db_answer = 2\<rparr>"

lemma sample_bits_ok: "bits_ok sample_bits"
  by (simp add: bits_ok_def sample_bits_def)

theorem every_carrier_is_reported_witness:
  "distinct (map carrier (outcomes (report
     ((answer sample_bits sample_env ^^ 5) (coordinator_Run True (new_coordinator {kPasswords, kLocalStorage}))))))"
  using every_carrier_is_reported [OF sample_bits_ok refl, of sample_env True "{kPasswords, kLocalStorage}"] by blast

text \<open>A report only grows.\<close>

definition grows :: "RoamuxEdgeImportCoordinator \<Rightarrow> RoamuxEdgeImportCoordinator \<Rightarrow> bool" where
  "grows c c' \<longleftrightarrow> (\<exists>ys. outcomes (report c') = outcomes (report c) @ ys)"

lemma grows_trans: "grows a b \<Longrightarrow> grows b c \<Longrightarrow> grows a c"
  by (auto simp: grows_def)

lemma grows_awaiting: "grows c (c\<lparr>awaiting := a\<rparr>)"
  by (simp add: grows_def)

lemma grows_add: "grows c c' \<Longrightarrow> grows c (add_outcome x s n r c')"
  by (auto simp: grows_def add_outcome_def report_Add_def)

lemma grows_Finish: "grows d c \<Longrightarrow> grows d (import_Finish c)"
  by (simp add: grows_def import_Finish_def)

lemma grows_idb: "grows d c \<Longrightarrow> grows d (RunIndexedDbStep c)"
  by (auto simp: grows_def RunIndexedDbStep_def import_Finish_def add_outcome_def report_Add_def)

lemma grows_local: "grows d c \<Longrightarrow> grows d (RunLocalStorageStep c)"
  by (auto simp: RunLocalStorageStep_def intro: grows_idb grows_add grows_trans grows_awaiting)

lemma grows_refl: "grows c c"
  by (simp add: grows_def)

lemma grows_secret: "grows c (OnSecretDone p k res c)"
  by (auto simp: OnSecretDone_def Let_def split: prod.split intro: grows_local grows_add grows_refl)

lemma grows_answer: "awaiting c \<noteq> Await_preflight \<Longrightarrow> grows c (answer bits env c)"
  unfolding answer_def OnLocalStorageUsageChecked_def OnLocalStorageDone_def OnIndexedDbDone_def
  by (auto split: await.split prod.split
      intro: grows_idb grows_add grows_refl grows_secret grows_awaiting grows_Finish)

lemma grows_answers:
  assumes "\<And>k. k < n \<Longrightarrow> awaiting ((answer bits env ^^ k) c) \<noteq> Await_preflight"
  shows "grows c ((answer bits env ^^ n) c)"
  using assms
proof (induction n)
  case (Suc n)
  have "grows c ((answer bits env ^^ n) c)" using Suc by simp
  moreover have "grows ((answer bits env ^^ n) c) ((answer bits env ^^ Suc n) c)"
    using grows_answer [OF Suc.prems [of n]] by simp
  ultimately show ?case by (rule grows_trans)
qed (simp add: grows_refl)

definition past_preflight :: "RoamuxEdgeImportCoordinator \<Rightarrow> bool" where
  "past_preflight c \<longleftrightarrow> awaiting c \<noteq> Await_preflight"

lemma past_preflight_idb: "past_preflight (import_Finish c)" "past_preflight (RunIndexedDbStep c)"
  by (simp_all add: past_preflight_def import_Finish_def RunIndexedDbStep_def)

lemma past_preflight_local: "past_preflight (RunLocalStorageStep c)"
  unfolding RunLocalStorageStep_def by (simp add: past_preflight_idb) (simp add: past_preflight_def)

lemma past_preflight_steps:
  "past_preflight (OnSecretDone p k res c)" "past_preflight (OnLocalStorageDone n c)"
  "past_preflight (OnIndexedDbDone n c)" "past_preflight (OnLocalStorageUsageChecked in_use c)"
  unfolding OnSecretDone_def Let_def OnLocalStorageDone_def OnIndexedDbDone_def OnLocalStorageUsageChecked_def split_beta
  by (simp_all only: past_preflight_local past_preflight_idb if_True if_False split: if_split)
    (simp add: past_preflight_def)

lemma past_preflight_answer: "past_preflight c \<Longrightarrow> past_preflight (answer bits env c)"
  unfolding answer_def
  by (cases "awaiting c") (simp_all add: past_preflight_steps OnPreflightDone_def, simp_all add: past_preflight_def)

lemma past_preflight_answers: "past_preflight c \<Longrightarrow> past_preflight ((answer bits env ^^ n) c)"
  by (induction n) (simp_all add: past_preflight_answer)

lemma find_append_Some: "find P xs = Some y \<Longrightarrow> find P (xs @ ys) = Some y"
  by (induction xs) (auto split: if_splits)

lemma find_append_None: "find P xs = None \<Longrightarrow> find P (xs @ ys) = find P ys"
  by (induction xs) (auto split: if_splits)

lemma report_Find_grows: "grows c c' \<Longrightarrow> report_Find (report c) x = Some y \<Longrightarrow> report_Find (report c') x = Some y"
  by (auto simp: grows_def report_Find_def find_append_Some)

lemma cookies_only_items:
  assumes "bits_ok bits"
  shows "fst (secret_Run bits senv logins cookies (COOKIES bits)) =
    \<lparr>passwords_imported = 0, cookies_imported = add_cookies senv (snd (ParseCookies senv cookies)),
     keychain_available = False\<rparr>"
proof -
  have "COOKIES bits AND PASSWORDS bits = 0" "COOKIES bits AND COOKIES bits \<noteq> 0"
    using assms by (simp_all add: bits_ok_def and.commute)
  then show ?thesis by (simp add: secret_Run_def)
qed

text \<open>
  C38: an import of cookies without passwords is always reported degraded, whatever the keychain. When
  cookies are there and requested, and passwords are not requested or not there, the report says of the cookies
  that the keychain was unavailable and the secrets were not imported, and counts in the same outcome the cookies that
  the stage decrypted and wrote: the stage copies its keychain flag before the cookie pass sets it.
\<close>

theorem cookies_alone_are_reported_degraded:
  assumes "bits_ok bits" and "kCookies \<in> cs" and "SourceAvailable p kCookies"
    and "\<not> (kPasswords \<in> cs \<and> SourceAvailable p kPasswords)"
    and "preflight_answer env = p" and "secret_answer env = (\<lambda>items. fst (secret_Run bits senv logins cookies items))"
    and "c = (answer bits env ^^ 5) (coordinator_Run True (new_coordinator cs))"
  shows "report_Find (report c) kCookies =
    Some (outcome kCookies kDegraded (add_cookies senv (snd (ParseCookies senv cookies))) keychain_reason)"
proof -
  let ?n = "add_cookies senv (snd (ParseCookies senv cookies))" and ?c0 = "coordinator_Run True (new_coordinator cs)"
  have bit: "COOKIES bits \<noteq> 0" using assms(1) by (simp add: bits_ok_def)
  let ?c1 = "(new_coordinator cs)\<lparr>awaiting := Await_preflight, preflight := Some p,
      report := new_report\<lparr>source_version := version p, report_version_supported := version_supported p,
                            edge_running_detected := edge_is_running p\<rparr>\<rparr>"
  define c3 where "c3 = (if kPasswords \<in> cs then add_outcome kPasswords kUnsupported 0 ''no source Login Data'' ?c1 else ?c1)"
  have "answer bits env ?c0 = RunSecretStep bits ?c1"
    by (simp add: coordinator_Run_def answer_def OnPreflightDone_def new_coordinator_def assms(5))
  also have "\<dots> = c3\<lparr>awaiting := Await_secret (COOKIES bits) False True\<rparr>"
    using assms(2-4) bit by (simp add: RunSecretStep_def Requested_def new_coordinator_def source_of_def c3_def Let_def)
  finally have c3: "answer bits env ?c0 = c3\<lparr>awaiting := Await_secret (COOKIES bits) False True\<rparr>" .
  have none: "find (\<lambda>x. carrier x = kCookies) (outcomes (report c3)) = None"
    by (simp add: c3_def new_report_def add_outcome_def report_Add_def outcome_def)
  have res: "secret_answer env (COOKIES bits) =
      \<lparr>passwords_imported = 0, cookies_imported = ?n, keychain_available = False\<rparr>"
    unfolding assms(6) by (rule cookies_only_items [OF assms(1)])
  let ?c4 = "add_outcome kCookies kDegraded ?n keychain_reason (c3\<lparr>awaiting := Await_secret (COOKIES bits) False True\<rparr>)"
  have two: "answer bits env (answer bits env ?c0) = RunLocalStorageStep ?c4"
    by (simp add: c3 answer_awaiting res OnSecretDone_def status_for_def)
  have "(answer bits env ^^ 5) ?c0 = (answer bits env ^^ 3) (answer bits env (answer bits env ?c0))"
    using answer_more [of 4 bits env ?c0] answer_more [of 3 bits env "answer bits env ?c0"] by simp
  then have c: "c = (answer bits env ^^ 3) (RunLocalStorageStep ?c4)" by (simp only: assms(7) two)
  have "grows (RunLocalStorageStep ?c4) c" unfolding c
    by (rule grows_answers) (simp add: past_preflight_answers past_preflight_local past_preflight_def [symmetric])
  with grows_local [OF grows_refl] have "grows ?c4 c" by (rule grows_trans)
  moreover have "report_Find (report ?c4) kCookies = Some (outcome kCookies kDegraded ?n keychain_reason)"
    using find_append_None [OF none] by (simp add: report_Find_def add_outcome_def report_Add_def outcome_def)
  ultimately show ?thesis by (rule report_Find_grows)
qed

definition sample_secret_env :: "(unit, bytes) secret_env" where
  "sample_secret_env = \<lparr>parse_gurl = (\<lambda>u. \<lparr>url_valid = True, url_spec = u, url_scheme = [], url_host = [], url_about_blank = False\<rparr>), kdf_of = (\<lambda>n p salt size. p), aes_of = (\<lambda>k iv x. Some x),
     keychain_password = (\<lambda>service account. Some ''pw''), utf8_to_16 = (\<lambda>b. b), sha256 = (\<lambda>h. h),
     from_storage = (\<lambda>r v. Some v), add_cookies = length\<rparr>"

definition sample_logins :: "login_row source_db" where
  "sample_logins = \<lparr>db_exists = False, db_temp_ok = True, db_copy_ok = True, db_open_ok = True, db_schema_ok = True,
     db_rows = []\<rparr>"

definition sample_cookies :: "unit cookie_row source_db" where
  "sample_cookies = \<lparr>db_exists = True, db_temp_ok = True, db_copy_ok = True, db_open_ok = True, db_schema_ok = True,
     db_rows = [\<lparr>host_key = ''h'', top_frame_site_key = [], encrypted_value = ''v10hx'', other_columns = ()\<rparr>,
                \<lparr>host_key = ''h'', top_frame_site_key = ''s'', encrypted_value = ''v10hx'', other_columns = ()\<rparr>]\<rparr>"

definition sample_cookie_env :: import_env where
  "sample_cookie_env = sample_env\<lparr>secret_answer :=
     (\<lambda>items. fst (secret_Run sample_bits sample_secret_env sample_logins sample_cookies items))\<rparr>"

lemma sample_cookie_count: "add_cookies sample_secret_env (snd (ParseCookies sample_secret_env sample_cookies)) = 1"
  by (simp add: sample_secret_env_def sample_cookies_def ParseCookies_def EdgeSecretDecryptor_def open_copied_def
      map_filter_simps cookie_of_def DecryptV10_def kVersionPrefix_def)

theorem cookies_alone_are_reported_degraded_witness:
  "report_Find (report ((answer sample_bits sample_cookie_env ^^ 5) (coordinator_Run True (new_coordinator {kCookies})))) kCookies =
     Some (outcome kCookies kDegraded 1 keychain_reason)"
proof -
  have "SourceAvailable sample_preflight kCookies" by (simp add: SourceAvailable_def sample_preflight_def)
  moreover have "preflight_answer sample_cookie_env = sample_preflight" "secret_answer sample_cookie_env =
      (\<lambda>items. fst (secret_Run sample_bits sample_secret_env sample_logins sample_cookies items))"
    by (simp_all add: sample_cookie_env_def sample_env_def)
  ultimately show ?thesis
    using cookies_alone_are_reported_degraded [OF sample_bits_ok, of "{kCookies}" sample_preflight sample_cookie_env
        sample_secret_env sample_logins sample_cookies]
      sample_cookie_count by simp
qed

end
