(* ===== verification/Edge_Indexed_Db.thy ===== *)
theory Edge_Indexed_Db
  imports Prelude "HOL-Library.Char_ord" "HOL-Library.List_Lexorder"
begin

text \<open>
  The IndexedDB stage of the Edge import: \<open>roamux/browser/importer/edge_indexed_db_reader.cc\<close> and
  \<open>roamux_indexed_db_import_stage.cc\<close>. Store directories are copied into a private staging directory and
  published by an exclusive rename, origin by origin.

  A directory is a map from entry names to contents of any type; the staging root is a map of its own,
  since its name is fresh. \<open>fs_env\<close> has what the file system and other processes do: the outcome of each
  call, and the store another process puts at a final path just before it is published. What
  \<open>FilePath::Extension\<close> and \<open>RemoveExtension\<close> make of a name are the arguments \<open>ext\<close> and \<open>rem\<close>.
\<close>

type_synonym 'c dir = "string \<rightharpoonup> 'c"

record 'c fs_env =
  create_directory_ok :: bool
  create_staging_ok :: bool
  copy_ok :: "string \<Rightarrow> bool"
  raced :: "string \<Rightarrow> 'c option"
  rename_ok :: "string \<Rightarrow> bool"
  delete_ok :: "string \<Rightarrow> bool"
  sweep_ok :: bool

text \<open>
  The source profile's \<open>IndexedDB\<close> directory, None when absent: its entries in the enumerator's order,
  each a store (a directory) or a file.
\<close>

datatype 'c dir_entry = Store_dir 'c | Plain_file

definition ListFirstPartyIndexedDbStores :: "(string \<times> 'c dir_entry) list option \<Rightarrow> (string \<times> 'c) list" where
  "ListFirstPartyIndexedDbStores idb_dir =
     (case idb_dir of
        None \<Rightarrow> []
      | Some entries \<Rightarrow> List.map_filter (\<lambda>(n, e). case e of Store_dir c \<Rightarrow> Some (n, c) | Plain_file \<Rightarrow> None) entries)"

definition OriginBase :: "(string \<Rightarrow> string) \<Rightarrow> (string \<Rightarrow> string) \<Rightarrow> string \<Rightarrow> string" where
  "OriginBase ext rem name =
     (if ext name = ''.leveldb'' \<or> ext name = ''.blob'' then
        let stripped = rem name in if ext stripped = ''.indexeddb'' then rem stripped else name
      else name)"

text \<open>The \<open>std::map\<close> from origin bases to their store directories, in the map's order.\<close>

definition group_stores :: "(string \<Rightarrow> string) \<Rightarrow> (string \<times> 'c) list \<Rightarrow> (string \<times> (string \<times> 'c) list) list" where
  "group_stores base stores =
     map (\<lambda>k. (k, filter (\<lambda>s. base (fst s) = k) stores)) (sort (remdups (map (base \<circ> fst) stores)))"

definition PublishExclusive :: "'c fs_env \<Rightarrow> string \<Rightarrow> 'c \<Rightarrow> 'c dir \<Rightarrow> bool \<times> 'c dir" where
  "PublishExclusive env n content d =
     (let d1 = (case raced env n of Some c \<Rightarrow> if d n = None then d(n \<mapsto> c) else d | None \<Rightarrow> d)
      in if d1 n \<noteq> None \<or> \<not> rename_ok env n then (False, d1) else (True, d1(n \<mapsto> content)))"

text \<open>Staging: the members copied until one fails, and whether all were.\<close>

fun stage_members :: "'c fs_env \<Rightarrow> (string \<times> 'c) list \<Rightarrow> (string \<times> 'c) list \<Rightarrow> bool \<times> (string \<times> 'c) list" where
  "stage_members env [] staged = (True, staged)"
| "stage_members env ((n, c) # ms) staged =
     (if \<not> copy_ok env n then (False, staged) else stage_members env ms (staged @ [(n, c)]))"

fun publish_members ::
  "'c fs_env \<Rightarrow> (string \<times> 'c) list \<Rightarrow> string list \<Rightarrow> 'c dir \<Rightarrow> bool \<times> string list \<times> 'c dir" where
  "publish_members env [] published d = (True, published, d)"
| "publish_members env ((n, c) # ms) published d =
     (let (ok, d1) = PublishExclusive env n c d
      in if \<not> ok then (False, published, d1) else publish_members env ms (published @ [n]) d1)"

definition delete_path :: "'c fs_env \<Rightarrow> string \<Rightarrow> 'c dir \<Rightarrow> 'c dir" where
  "delete_path env n d = (if delete_ok env n then d(n := None) else d)"

text \<open>One turn of the loop over the groups: whether the origin is counted, and the directory.\<close>

definition import_origin :: "'c fs_env \<Rightarrow> (string \<times> 'c) list \<Rightarrow> 'c dir \<Rightarrow> bool \<times> 'c dir" where
  "import_origin env members d =
     (if list_ex (\<lambda>(n, c). d n \<noteq> None) members then (False, d)
      else let (ok, staged) = stage_members env members [];
               (ok, published, d) = (if ok then publish_members env staged [] d else (False, [], d))
           in if \<not> ok then (False, fold (delete_path env) published d) else (True, d))"

fun import_groups :: "'c fs_env \<Rightarrow> (string \<times> (string \<times> 'c) list) list \<Rightarrow> nat \<Rightarrow> 'c dir \<Rightarrow> nat \<times> 'c dir" where
  "import_groups env [] count d = (count, d)"
| "import_groups env ((origin, members) # gs) count d =
     (let (counted, d1) = import_origin env members d
      in import_groups env gs (if counted then count + 1 else count) d1)"

text \<open>The result, the destination's stores, and whether the staging root is left behind.\<close>

definition CopyStores ::
  "'c fs_env \<Rightarrow> (string \<Rightarrow> string) \<Rightarrow> (string \<times> 'c dir_entry) list option \<Rightarrow> 'c dir \<Rightarrow> nat \<times> 'c dir \<times> bool" where
  "CopyStores env base source dest_idb =
     (if \<not> create_directory_ok env then (0, dest_idb, False)
      else if \<not> create_staging_ok env then (0, dest_idb, False)
      else let (count, d) = import_groups env (group_stores base (ListFirstPartyIndexedDbStores source)) 0 dest_idb
           in (count, d, \<not> sweep_ok env))"

text \<open>What the stage promises: an origin with no store at the destination arrives whole.\<close>

definition occupied :: "(string \<times> 'c) list \<Rightarrow> 'c dir \<Rightarrow> bool" where
  "occupied ms d \<longleftrightarrow> (\<exists>n \<in> fst ` set ms. d n \<noteq> None)"

definition adopt_origin :: "string \<times> (string \<times> 'c) list \<Rightarrow> nat \<times> 'c dir \<Rightarrow> nat \<times> 'c dir" where
  "adopt_origin g x =
     (if occupied (snd g) (snd x) then x else (fst x + 1, snd x ++ map_of (snd g)))"

definition adopt_all :: "(string \<times> (string \<times> 'c) list) list \<Rightarrow> 'c dir \<Rightarrow> nat \<times> 'c dir" where
  "adopt_all groups d = fold adopt_origin groups (0, d)"

subsection \<open>What one origin does to the directory\<close>

lemma stage_members_ok: "stage_members env ms staged = (True, st) \<Longrightarrow> st = staged @ ms"
  by (induction env ms staged rule: stage_members.induct) (auto split: if_splits)

lemma PublishExclusive_cases:
  assumes "d n = None"
  shows "PublishExclusive env n c d = (True, d(n \<mapsto> c)) \<and> raced env n = None \<or>
         PublishExclusive env n c d = (False, d(n := raced env n))"
  using assms by (auto simp: PublishExclusive_def Let_def fun_upd_idem split: option.split)

lemma nth_notin_take: "distinct xs \<Longrightarrow> k < length xs \<Longrightarrow> xs ! k \<notin> set (take k xs)"
  using distinct_take [of xs "Suc k"] by (simp add: take_Suc_conv_app_nth)

text \<open>Publishing either gets through, or stops at some member with the earlier ones published.\<close>

lemma publish_members_cases:
  assumes "publish_members env ms pub d = (ok, pub', d')"
    and "distinct (map fst ms)" and "\<forall>n \<in> fst ` set ms. d n = None"
  shows "ok \<and> pub' = pub @ map fst ms \<and> d' = d ++ map_of ms \<or>
    \<not> ok \<and> (\<exists>k < length ms. pub' = pub @ map fst (take k ms) \<and>
      d' = (d ++ map_of (take k ms))(fst (ms ! k) := raced env (fst (ms ! k))))"
  using assms
proof (induction env ms pub d rule: publish_members.induct)
  case (2 env n c ms pub d)
  have none: "d n = None" using 2(4) by simp
  from PublishExclusive_cases [of d n env c, OF none] consider
    "PublishExclusive env n c d = (True, d(n \<mapsto> c))" | "PublishExclusive env n c d = (False, d(n := raced env n))"
    by blast
  then show ?case
  proof cases
    case 1
    have rest: "publish_members env ms (pub @ [n]) (d(n \<mapsto> c)) = (ok, pub', d')"
      using 2(2) by (simp add: 1)
    have fresh: "n \<notin> fst ` set ms" using 2(3) by auto
    have "\<forall>m \<in> fst ` set ms. (d(n \<mapsto> c)) m = None" using 2(3,4) by auto
    from 2(1) [OF 1 [symmetric] refl _ rest _ this] 2(3)
    have IH: "ok \<and> pub' = (pub @ [n]) @ map fst ms \<and> d' = d(n \<mapsto> c) ++ map_of ms \<or>
      \<not> ok \<and> (\<exists>k < length ms. pub' = (pub @ [n]) @ map fst (take k ms) \<and>
        d' = (d(n \<mapsto> c) ++ map_of (take k ms))(fst (ms ! k) := raced env (fst (ms ! k))))"
      by (simp add: fun_upd_def)
    have upd: "d(n \<mapsto> c) ++ map_of xs = d ++ map_of ((n, c) # xs)" if "n \<notin> fst ` set xs" for xs
      using that by (simp add: map_add_upd_left dom_map_of_conv_image_fst)
    have "n \<notin> fst ` set (take k ms)" for k using fresh by (auto dest: in_set_takeD)
    note upds = upd [OF this] upd [OF fresh]
    from IH show ?thesis
    proof (elim disjE conjE exE)
      assume "ok" "pub' = (pub @ [n]) @ map fst ms" "d' = d(n \<mapsto> c) ++ map_of ms"
      then show ?thesis by (simp add: upds del: map_of.simps)
    next
      fix k
      assume "\<not> ok" "k < length ms" "pub' = (pub @ [n]) @ map fst (take k ms)"
        "d' = (d(n \<mapsto> c) ++ map_of (take k ms))(fst (ms ! k) := raced env (fst (ms ! k)))"
      then show ?thesis by (intro disjI2 conjI exI [of _ "Suc k"]) (simp_all add: upds del: map_of.simps)
    qed
  next
    case 2
    then show ?thesis using "2.prems"(1) by auto
  qed
qed simp

lemma fold_delete: "(\<forall>n. delete_ok env n) \<Longrightarrow> fold (delete_path env) ns d = (\<lambda>n. if n \<in> set ns then None else d n)"
  by (induction ns arbitrary: d) (auto simp: delete_path_def fun_eq_iff)

lemma fold_delete_other: "n \<notin> set ns \<Longrightarrow> fold (delete_path env) ns d n = d n"
  by (induction ns arbitrary: d) (auto simp: delete_path_def)

text \<open>A store that the import did not bring: it was there, is not there, or is the one another process put there.\<close>

definition not_adopted :: "'c fs_env \<Rightarrow> 'c dir \<Rightarrow> 'c dir \<Rightarrow> string \<Rightarrow> bool" where
  "not_adopted env d d' n \<longleftrightarrow> d n \<noteq> None \<or> d' n = None \<or> d' n = raced env n"

text \<open>An origin is adopted whole, or every entry is as before but for what another process put there.\<close>

lemma import_origin_cases:
  assumes "import_origin env ms d = (counted, d')" and dist: "distinct (map fst ms)"
  shows "counted \<and> (\<forall>n \<in> fst ` set ms. d n = None) \<and> d' = d ++ map_of ms \<or>
    \<not> counted \<and> (\<forall>n c. d n = Some c \<longrightarrow> d' n = Some c) \<and> (\<forall>n. n \<notin> fst ` set ms \<longrightarrow> d' n = d n) \<and>
      (\<exists>n \<in> fst ` set ms. not_adopted env d d' n) \<and>
      ((\<forall>n. delete_ok env n) \<longrightarrow> (\<forall>n. d' n = d n \<or> d n = None \<and> d' n = raced env n))"
proof (cases "list_ex (\<lambda>(n, c). d n \<noteq> None) ms \<or> \<not> fst (stage_members env ms [])")
  case True
  then have same: "\<not> counted \<and> d' = d" using assms(1) by (auto simp: import_origin_def Let_def split: if_splits prod.splits)
  have "ms \<noteq> []" using True by auto
  then have "\<exists>n \<in> fst ` set ms. not_adopted env d d n" by (cases ms) (auto simp: not_adopted_def)
  then show ?thesis using same by simp
next
  case False
  then have none: "\<forall>n \<in> fst ` set ms. d n = None" by (auto simp: list_ex_iff split: prod.splits)
  have staged: "stage_members env ms [] = (True, ms)"
    using False stage_members_ok [of env ms "[]"] by (cases "stage_members env ms []") auto
  obtain ok pub' d1 where p: "publish_members env ms [] d = (ok, pub', d1)" by (metis prod_cases3)
  have res: "import_origin env ms d = (if ok then (True, d1) else (False, fold (delete_path env) pub' d1))"
    using False by (simp add: import_origin_def staged p)
  from publish_members_cases [OF p dist none] show ?thesis
  proof (elim disjE conjE exE)
    assume "ok" "d1 = d ++ map_of ms"
    then show ?thesis using res assms(1) none by simp
  next
    fix k assume fail: "\<not> ok" and k: "k < length ms" and pub: "pub' = [] @ map fst (take k ms)"
      and d1: "d1 = (d ++ map_of (take k ms))(fst (ms ! k) := raced env (fst (ms ! k)))"
    have d': "d' = fold (delete_path env) pub' d1" "\<not> counted" using res assms(1) fail by simp_all
    have set: "set pub' \<subseteq> fst ` set ms" using pub by (auto dest: in_set_takeD)
    have at: "fst (ms ! k) \<in> fst ` set ms" "fst (ms ! k) \<notin> set pub'"
      using k nth_notin_take [OF dist, of k] pub by (simp_all add: take_map)
    have other: "d1 n = d n" if "n \<notin> set pub'" "n \<noteq> fst (ms ! k)" for n
      using that by (simp add: d1 pub map_add_def map_of_eq_None_iff [THEN iffD2] split: option.split)
    have "d' n = d n" if "n \<notin> fst ` set ms" for n
    proof -
      have "n \<notin> set pub'" "n \<noteq> fst (ms ! k)" using that set at(1) by auto
      then show ?thesis using d' other by (simp add: fold_delete_other)
    qed
    moreover have "d' n = Some c" if "d n = Some c" for n c
      using calculation [of n] none that by (metis option.distinct(1))
    moreover have "d' n = d n \<or> d n = None \<and> d' n = raced env n" if "\<forall>n. delete_ok env n" for n
    proof -
      have "d n = None" if "n \<in> set pub' \<or> n = fst (ms ! k)" using that none set at(1) by auto
      then show ?thesis using other [of n] at(2) by (auto simp: d' fold_delete [OF that] d1)
    qed
    moreover have "not_adopted env d d' (fst (ms ! k))"
      using at(2) by (simp add: not_adopted_def d'(1) fold_delete_other d1)
    ultimately show ?thesis using d'(2) at(1) by blast
  qed
qed

subsection \<open>The whole import\<close>

text \<open>What the groups leave behind, the adopted ones being \<open>A\<close>.\<close>

definition imported ::
  "'c fs_env \<Rightarrow> string list \<Rightarrow> (string \<times> (string \<times> 'c) list) list \<Rightarrow> 'c dir \<Rightarrow> 'c dir \<Rightarrow> bool" where
  "imported env A gs d d' \<longleftrightarrow>
     (\<forall>n c. d n = Some c \<longrightarrow> d' n = Some c) \<and>
     (\<forall>g \<in> set gs. fst g \<in> set A \<longrightarrow> (\<forall>(n, c) \<in> set (snd g). d n = None \<and> d' n = Some c)) \<and>
     (\<forall>g \<in> set gs. fst g \<notin> set A \<longrightarrow> (\<exists>n \<in> fst ` set (snd g). not_adopted env d d' n)) \<and>
     (\<forall>n. (\<forall>g \<in> set gs. n \<notin> fst ` set (snd g)) \<longrightarrow> d' n = d n) \<and>
     ((\<forall>n. delete_ok env n) \<longrightarrow>
        (\<forall>n. (\<forall>g \<in> set gs. fst g \<in> set A \<longrightarrow> n \<notin> fst ` set (snd g)) \<longrightarrow>
           d' n = d n \<or> d n = None \<and> d' n = raced env n))"

lemma imported_step:
  assumes one: "import_origin env ms d = (counted, d1)" "distinct (map fst ms)"
    and rest: "imported env A gs d1 d'" and k: "k \<notin> fst ` set gs" "set A \<subseteq> fst ` set gs"
    and apart: "\<forall>g \<in> set gs. fst ` set ms \<inter> fst ` set (snd g) = {}"
  shows "imported env (if counted then k # A else A) ((k, ms) # gs) d d'"
proof -
  have keep: "d1 n = Some c \<Longrightarrow> d' n = Some c" for n c using rest by (simp add: imported_def)
  have kA: "k \<notin> set A" using k by auto
  have keys: "fst g \<noteq> k" if "g \<in> set gs" for g using that k(1) by auto
  have mine: "d' n = d1 n" if "n \<in> fst ` set ms" for n
    using rest apart that unfolding imported_def by (metis disjoint_iff)
  have outside: "d1 n = d n" if "n \<notin> fst ` set ms" for n
    using import_origin_cases [OF one] that by (auto simp: map_add_def map_of_eq_None_iff [THEN iffD2])
  have others: "\<forall>g \<in> set gs. fst g \<notin> set A \<longrightarrow> (\<exists>n \<in> fst ` set (snd g). not_adopted env d d' n)"
  proof (intro ballI impI)
    fix g assume g: "g \<in> set gs" "fst g \<notin> set A"
    then obtain n where n: "n \<in> fst ` set (snd g)" "not_adopted env d1 d' n" using rest unfolding imported_def by blast
    then have "d1 n = d n" using outside apart g(1) by blast
    then show "\<exists>n \<in> fst ` set (snd g). not_adopted env d d' n" using n by (auto simp: not_adopted_def)
  qed
  have frame: "d' n = d n" if "\<forall>g \<in> set ((k, ms) # gs). n \<notin> fst ` set (snd g)" for n
    using rest that outside [of n] unfolding imported_def by simp
  from import_origin_cases [OF one] show ?thesis
  proof (elim disjE conjE)
    assume c: "counted" and none: "\<forall>n \<in> fst ` set ms. d n = None" and d1: "d1 = d ++ map_of ms"
    have old: "d1 n = Some c" if "d n = Some c" for n c
    proof -
      have "n \<notin> fst ` set ms" using that none by auto
      with that show ?thesis by (simp add: outside)
    qed
    have new: "d1 n = Some c" if "(n, c) \<in> set ms" for n c using that one(2) by (simp add: d1 map_add_def)
    have gone: "d n = None" if "d1 n = None" for n using old [of n] that by (cases "d n") auto
    have "\<forall>n c. d n = Some c \<longrightarrow> d' n = Some c" using old keep by blast
    moreover have "\<forall>(n, c) \<in> set ms. d n = None \<and> d' n = Some c" using none new keep by fastforce
    moreover have "\<forall>g \<in> set gs. fst g \<in> set (k # A) \<longrightarrow> (\<forall>(n, c) \<in> set (snd g). d n = None \<and> d' n = Some c)"
      using rest gone keys unfolding imported_def by fastforce
    moreover have "d' n = d n \<or> d n = None \<and> d' n = raced env n"
      if del: "\<forall>n. delete_ok env n" and out: "n \<notin> fst ` set ms"
        "\<forall>g \<in> set gs. fst g \<in> set (k # A) \<longrightarrow> n \<notin> fst ` set (snd g)" for n
    proof -
      have "d' n = d1 n \<or> d1 n = None \<and> d' n = raced env n" using rest del out(2) unfolding imported_def by auto
      with outside [OF out(1)] show ?thesis by metis
    qed
    ultimately show ?thesis using c others frame by (simp add: imported_def)
  next
    assume c: "\<not> counted" and old: "\<forall>n c. d n = Some c \<longrightarrow> d1 n = Some c"
      and missed: "\<exists>n \<in> fst ` set ms. not_adopted env d d1 n"
      and other: "(\<forall>n. delete_ok env n) \<longrightarrow> (\<forall>n. d1 n = d n \<or> d n = None \<and> d1 n = raced env n)"
    have gone: "d n = None" if "d1 n = None" for n using old that by (cases "d n") auto
    have "(\<forall>n c. d n = Some c \<longrightarrow> d' n = Some c)" using old keep by blast
    moreover have "(\<forall>g \<in> set gs. fst g \<in> set A \<longrightarrow> (\<forall>(n, c) \<in> set (snd g). d n = None \<and> d' n = Some c))"
      using rest gone unfolding imported_def by fastforce
    moreover have "\<exists>n \<in> fst ` set ms. not_adopted env d d' n" using missed mine by (auto simp: not_adopted_def)
    moreover have "d' n = d n \<or> d n = None \<and> d' n = raced env n"
      if "\<forall>n. delete_ok env n" "\<forall>g \<in> set gs. fst g \<in> set A \<longrightarrow> n \<notin> fst ` set (snd g)" for n
    proof -
      have "d' n = d1 n \<or> d1 n = None \<and> d' n = raced env n" using rest that unfolding imported_def by blast
      with other that(1) gone show ?thesis by metis
    qed
    ultimately show ?thesis using c kA others frame by (simp add: imported_def)
  qed
qed

text \<open>Groups whose members have the group's origin as their base share no member.\<close>

lemma import_groups_cases:
  assumes "import_groups env gs count d = (count', d')"
    and "\<forall>g \<in> set gs. distinct (map fst (snd g))" and "distinct (map fst gs)"
    and "\<forall>g \<in> set gs. \<forall>n \<in> fst ` set (snd g). base n = fst g"
  shows "\<exists>A. distinct A \<and> set A \<subseteq> fst ` set gs \<and> count' = count + length A \<and> imported env A gs d d'"
  using assms
proof (induction env gs count d rule: import_groups.induct)
  case (1 env count d)
  then show ?case by (auto simp: imported_def intro!: exI [of _ "[]"])
next
  case (2 env k ms gs count d)
  obtain counted d1 where one: "import_origin env ms d = (counted, d1)" by fastforce
  let ?n = "if counted then count + 1 else count"
  have "import_groups env gs ?n d1 = (count', d')" using 2(2) by (simp add: one)
  from 2(1) [OF one [symmetric] refl this] 2(3,4,5) obtain A where
    A: "distinct A" "set A \<subseteq> fst ` set gs" "count' = ?n + length A" "imported env A gs d1 d'" by auto
  have k: "k \<notin> fst ` set gs" using 2(4) by auto
  have apart: "\<forall>g \<in> set gs. fst ` set ms \<inter> fst ` set (snd g) = {}"
  proof
    fix g assume g: "g \<in> set gs"
    then have "fst g \<noteq> k" using k by auto
    moreover have "\<forall>n \<in> fst ` set (snd g). base n = fst g" "\<forall>n \<in> fst ` set ms. base n = k" using 2(5) g by simp_all
    ultimately show "fst ` set ms \<inter> fst ` set (snd g) = {}" by (metis disjoint_iff)
  qed
  have "imported env (if counted then k # A else A) ((k, ms) # gs) d d'"
    using imported_step [OF one _ A(4) k A(2) apart] 2(3) by simp
  moreover have "k \<notin> set A" using k A(2) by auto
  ultimately show ?case using A
    by (intro exI [of _ "if counted then k # A else A"]) (auto split: if_splits)
qed

lemma group_stores_keys: "distinct (map fst (group_stores base stores))"
  by (simp add: group_stores_def comp_def)

lemma group_stores_members:
  "g \<in> set (group_stores base stores) \<Longrightarrow> snd g = filter (\<lambda>s. base (fst s) = fst g) stores"
  by (auto simp: group_stores_def)

lemma group_stores_cover: "s \<in> set stores \<Longrightarrow> \<exists>g \<in> set (group_stores base stores). fst g = base (fst s) \<and> s \<in> set (snd g)"
  by (auto simp: group_stores_def)

lemma group_stores_distinct:
  "distinct (map fst stores) \<Longrightarrow> \<forall>g \<in> set (group_stores base stores). distinct (map fst (snd g))"
  by (simp add: group_stores_members distinct_map_filter)

definition good_fs :: "'c fs_env" where
  "good_fs = \<lparr>create_directory_ok = True, create_staging_ok = True, copy_ok = (\<lambda>_. True), raced = Map.empty,
              rename_ok = (\<lambda>_. True), delete_ok = (\<lambda>_. True), sweep_ok = True\<rparr>"

text \<open>
  What a run left behind: \<open>A\<close> are the origins of the source that were adopted, each whole; every other
  origin lacks a store of the import; what was there is kept; no other name is touched.
\<close>

definition copied_origins ::
  "'c fs_env \<Rightarrow> (string \<Rightarrow> string) \<Rightarrow> (string \<times> 'c) list \<Rightarrow> string set \<Rightarrow> 'c dir \<Rightarrow> 'c dir \<Rightarrow> bool" where
  "copied_origins env base stores A d d' \<longleftrightarrow> A \<subseteq> base ` fst ` set stores \<and>
     (\<forall>n c. d n = Some c \<longrightarrow> d' n = Some c) \<and> (\<forall>n. n \<notin> fst ` set stores \<longrightarrow> d' n = d n) \<and>
     (\<forall>(n, c) \<in> set stores. base n \<in> A \<longrightarrow> d n = None \<and> d' n = Some c) \<and>
     (\<forall>origin \<in> base ` fst ` set stores - A. \<exists>(n, c) \<in> set stores. base n = origin \<and> not_adopted env d d' n)"

lemma CopyStores_outcome:
  assumes "distinct (map fst (ListFirstPartyIndexedDbStores source))"
    and "CopyStores env base source d = (count, d', left)"
  shows "\<exists>A. count = card A \<and> copied_origins env base (ListFirstPartyIndexedDbStores source) A d d' \<and>
    ((\<forall>n. delete_ok env n) \<longrightarrow>
       (\<forall>n. (\<forall>c. (n, c) \<in> set (ListFirstPartyIndexedDbStores source) \<longrightarrow> base n \<notin> A) \<longrightarrow>
          d' n = d n \<or> d n = None \<and> d' n = raced env n))"
proof (cases "create_directory_ok env \<and> create_staging_ok env")
  case False
  then have "count = 0" "d' = d" using assms(2) by (auto simp: CopyStores_def split: if_splits)
  then show ?thesis by (intro exI [of _ "{}"]) (fastforce simp: copied_origins_def not_adopted_def)
next
  case True
  let ?S = "ListFirstPartyIndexedDbStores source" and ?gs = "group_stores base (ListFirstPartyIndexedDbStores source)"
  have run: "import_groups env ?gs 0 d = (count, d')"
    using assms(2) True by (simp add: CopyStores_def split: prod.splits)
  have base: "\<forall>g \<in> set ?gs. \<forall>n \<in> fst ` set (snd g). base n = fst g" by (auto simp: group_stores_members)
  obtain A where A: "distinct A" "set A \<subseteq> fst ` set ?gs" "count = length A" "imported env A ?gs d d'"
    using import_groups_cases [OF run group_stores_distinct [OF assms(1)] group_stores_keys base] by auto
  have keys: "fst ` set ?gs = base ` fst ` set ?S" by (auto simp: group_stores_def image_comp)
  have c1: "d n = None \<and> d' n = Some c" if s: "(n, c) \<in> set ?S" "base n \<in> set A" for n c
  proof -
    from group_stores_cover [OF s(1), of base] obtain g
      where "g \<in> set ?gs" "fst g = base n" "(n, c) \<in> set (snd g)" by auto
    with A(4) s(2) show ?thesis unfolding imported_def by fastforce
  qed
  have c2: "\<exists>(n, c) \<in> set ?S. base n = origin \<and> not_adopted env d d' n"
    if origin: "origin \<in> base ` fst ` set ?S" "origin \<notin> set A" for origin
  proof -
    have "origin \<in> fst ` set ?gs" unfolding keys by (rule origin(1))
    then obtain g where g: "g \<in> set ?gs" "fst g = origin" by blast
    then obtain n where n: "n \<in> fst ` set (snd g)" "not_adopted env d d' n" using A(4) origin(2) unfolding imported_def by blast
    then obtain c where "(n, c) \<in> set (snd g)" by auto
    then have "(n, c) \<in> set ?S" "base n = origin" using g group_stores_members [OF g(1)] by auto
    then show ?thesis using n(2) by blast
  qed
  have c3: "d' n = d n" if "n \<notin> fst ` set ?S" for n
  proof -
    have "\<forall>g \<in> set ?gs. n \<notin> fst ` set (snd g)" using that by (auto simp: group_stores_members)
    then show ?thesis using A(4) unfolding imported_def by blast
  qed
  have c4: "\<forall>n c. d n = Some c \<longrightarrow> d' n = Some c" using A(4) by (simp add: imported_def)
  have copied: "copied_origins env base ?S (set A) d d'"
    unfolding copied_origins_def
  proof (intro conjI)
    show "set A \<subseteq> base ` fst ` set ?S" using A(2) unfolding keys .
    show "\<forall>(n, c) \<in> set ?S. base n \<in> set A \<longrightarrow> d n = None \<and> d' n = Some c" using c1 by blast
    show "\<forall>origin \<in> base ` fst ` set ?S - set A. \<exists>(n, c) \<in> set ?S. base n = origin \<and> not_adopted env d d' n"
      using c2 by (metis DiffE)
    show "\<forall>n. n \<notin> fst ` set ?S \<longrightarrow> d' n = d n" using c3 by simp
  qed (rule c4)
  have "d' n = d n \<or> d n = None \<and> d' n = raced env n"
    if "\<forall>n. delete_ok env n" "\<forall>c. (n, c) \<in> set ?S \<longrightarrow> base n \<notin> set A" for n
  proof -
    have "\<forall>g \<in> set ?gs. fst g \<in> set A \<longrightarrow> n \<notin> fst ` set (snd g)"
      using that(2) by (auto simp: group_stores_members)
    then show ?thesis using A(4) that(1) unfolding imported_def by blast
  qed
  then show ?thesis using copied A(1,3) distinct_card by (intro exI [of _ "set A"]) force
qed

text \<open>
  C6: the IndexedDB import clobbers nothing and brings each origin whole or not at all. Whatever copy,
  rename or directory creation fails, and whatever stores other processes create meanwhile, every entry of the
  destination keeps its content and no name that the source lacks is touched. There is a set of the source's origins, of
  exactly the size that is reported: the stores of each of them were all absent and are all there with the
  source's content, and every other origin has a store that was there before, is not there after, or is another
  process's. When the rollback's deletions succeed, every entry outside the set's origins is as before or what
  another process put there.
\<close>

theorem import_clobbers_nothing:
  assumes "distinct (map fst (ListFirstPartyIndexedDbStores source))"
    and "CopyStores env base source d = (count, d', left)"
  shows "\<exists>A. count = card A \<and> A \<subseteq> base ` fst ` set (ListFirstPartyIndexedDbStores source) \<and>
    (\<forall>n c. d n = Some c \<longrightarrow> d' n = Some c) \<and> (\<forall>n. n \<notin> fst ` set (ListFirstPartyIndexedDbStores source) \<longrightarrow> d' n = d n) \<and>
    (\<forall>(n, c) \<in> set (ListFirstPartyIndexedDbStores source). base n \<in> A \<longrightarrow> d n = None \<and> d' n = Some c) \<and>
    (\<forall>origin \<in> base ` fst ` set (ListFirstPartyIndexedDbStores source) - A.
       \<exists>(n, c) \<in> set (ListFirstPartyIndexedDbStores source). base n = origin \<and>
         (d n \<noteq> None \<or> d' n = None \<or> d' n = raced env n)) \<and>
    ((\<forall>n. delete_ok env n) \<longrightarrow>
       (\<forall>n. (\<forall>c. (n, c) \<in> set (ListFirstPartyIndexedDbStores source) \<longrightarrow> base n \<notin> A) \<longrightarrow>
          d' n = d n \<or> d n = None \<and> d' n = raced env n))"
  using CopyStores_outcome [OF assms] by (simp add: copied_origins_def not_adopted_def)

definition two_origins :: "(string \<times> nat dir_entry) list option" where
  "two_origins = Some [(''a.l'', Store_dir 11), (''f'', Plain_file), (''a.b'', Store_dir 12), (''c'', Store_dir 13)]"

definition first_letter :: "string \<Rightarrow> string" where "first_letter s = take 1 s"

definition racing_fs :: "nat fs_env" where "racing_fs = good_fs\<lparr>raced := [''a.b'' \<mapsto> 9]\<rparr>"

lemma two_origins_stores:
  "ListFirstPartyIndexedDbStores two_origins = [(''a.l'', 11), (''a.b'', 12), (''c'', 13)]"
  by (simp add: two_origins_def ListFirstPartyIndexedDbStores_def map_filter_simps)

lemma two_origins_groups:
  "group_stores first_letter [(''a.l'', 11), (''a.b'', 12), (''c'', 13)] =
     [(''a'', [(''a.l'', 11), (''a.b'', 12)]), (''c'', [(''c'', 13 :: nat)])]"
  by (simp add: group_stores_def first_letter_def)

lemma racing_run:
  "CopyStores racing_fs first_letter two_origins [''z'' \<mapsto> 7] = (1, [''z'' \<mapsto> 7, ''a.b'' \<mapsto> 9, ''c'' \<mapsto> 13], False)"
  unfolding CopyStores_def two_origins_stores two_origins_groups
  by (simp add: racing_fs_def good_fs_def import_origin_def PublishExclusive_def delete_path_def fun_eq_iff)

theorem import_clobbers_nothing_witness:
  "\<exists>d'. CopyStores racing_fs first_letter two_origins [''z'' \<mapsto> 7] = (1, d', False) \<and> d' ''z'' = Some 7 \<and>
     d' ''a.b'' = Some 9 \<and> d' ''a.l'' = None \<and> d' ''c'' = Some 13"
proof -
  have "distinct (map fst (ListFirstPartyIndexedDbStores two_origins))" by (simp add: two_origins_stores)
  from import_clobbers_nothing [OF this racing_run]
  have "[''z'' \<mapsto> 7, ''a.b'' \<mapsto> 9, ''c'' \<mapsto> 13] ''z'' = Some (7 :: nat)" by simp
  then show ?thesis using racing_run by (intro exI conjI) (assumption, simp_all)
qed

lemma list_ex_occupied: "list_ex (\<lambda>(n, c). d n \<noteq> None) ms \<longleftrightarrow> occupied ms d"
  by (force simp: list_ex_iff occupied_def)

lemma publish_members_good:
  assumes "distinct (map fst ms)" and "\<not> occupied ms d"
  shows "fst (publish_members good_fs ms pub d)"
  using assms
proof (induction ms arbitrary: pub d)
  case (Cons m ms)
  have "PublishExclusive good_fs (fst m) (snd m) d = (True, d(fst m \<mapsto> snd m))"
    using Cons.prems(2) by (simp add: PublishExclusive_def good_fs_def occupied_def)
  moreover have "fst (publish_members good_fs ms (pub @ [fst m]) (d(fst m \<mapsto> snd m)))"
  proof (rule Cons.IH)
    show "\<not> occupied ms (d(fst m \<mapsto> snd m))"
      using Cons.prems unfolding occupied_def by (auto simp: image_iff split: if_splits)
  qed (use Cons.prems(1) in simp)
  ultimately show ?case by (cases m) simp
qed simp

lemma stage_members_good: "stage_members good_fs ms staged = (True, staged @ ms)"
  by (induction ms arbitrary: staged) (auto simp: good_fs_def)

lemma import_origin_good:
  assumes "distinct (map fst ms)"
  shows "import_origin good_fs ms d = (if occupied ms d then (False, d) else (True, d ++ map_of ms))"
proof (cases "occupied ms d")
  case True
  then show ?thesis unfolding import_origin_def list_ex_occupied by simp
next
  case False
  obtain pub' d' where p: "publish_members good_fs ms [] d = (True, pub', d')"
    using publish_members_good [OF assms False, of "[]"] by (cases "publish_members good_fs ms [] d") auto
  moreover have "d' = d ++ map_of ms"
    using publish_members_cases [OF p assms] False unfolding occupied_def by blast
  ultimately show ?thesis using False unfolding import_origin_def list_ex_occupied by (simp add: stage_members_good)
qed

text \<open>
  C26: the stage refines its contract. With a file system on which nothing fails and nobody else writes,
  the staged, renamed and possibly rolled back import has the same result and the same count as adopting, origin
  by origin, those with no store at the destination; and it leaves no staging directory.
\<close>

theorem import_refines_adoption:
  assumes "distinct (map fst (ListFirstPartyIndexedDbStores source))"
  shows "CopyStores good_fs base source d =
    (fst (adopt_all (group_stores base (ListFirstPartyIndexedDbStores source)) d),
     snd (adopt_all (group_stores base (ListFirstPartyIndexedDbStores source)) d), False)"
proof -
  have "import_groups good_fs gs n d = fold adopt_origin gs (n, d)"
    if "\<forall>g \<in> set gs. distinct (map fst (snd g))" for gs n d
    using that
  proof (induction gs arbitrary: n d)
    case (Cons g gs)
    then show ?case by (cases g) (simp add: import_origin_good adopt_origin_def)
  qed simp
  from this [OF group_stores_distinct [OF assms]] show ?thesis
    by (simp add: CopyStores_def adopt_all_def split: prod.split) (simp add: good_fs_def)
qed

theorem import_refines_adoption_witness:
  "fst (CopyStores good_fs first_letter two_origins Map.empty) = 2"
proof -
  have "distinct (map fst (ListFirstPartyIndexedDbStores two_origins))" by (simp add: two_origins_stores)
  from import_refines_adoption [OF this, of first_letter Map.empty] show ?thesis
    by (simp add: adopt_all_def adopt_origin_def occupied_def two_origins_stores two_origins_groups)
qed

end
