(* ===== verification/Edge_Whole.thy ===== *)
theory Edge_Whole
  imports Edge_Import Edge_Indexed_Db
begin

text \<open>
  The browser-side Edge import as a whole: the coordinator (theory Edge_Import) over the stages it runs (theories
  Edge_Stages and Edge_Indexed_Db), from what Edge's profile holds to what arrives in the target
  profile. Each thing the coordinator waits for is done by its stage on the current target, which gives the
  answer; so the answers of Edge_Import's environment are no longer free.
\<close>

subsection \<open>The source, the target and the platform\<close>

record ('r, 'd) edge_profile =
  login_data :: "login_row source_db"
  cookies_db :: "'r cookie_row source_db"
  leveldb :: leveldb_source
  indexed_db_dir :: "(string \<times> 'd dir_entry) list option"

text \<open>
  The target: the forms and cookies stored in order, the live localStorage's entries in the order they were put
  (the last one for a key counts), and the IndexedDB directory.
\<close>

record ('c, 'k, 'd) target_profile =
  stored_passwords :: "PasswordForm list"
  stored_cookies :: "'c list"
  live_local_storage :: "('k \<times> bytes \<times> bytes) list"
  indexed_db :: "'d dir"

text \<open>
  \<open>accepts\<close> is the cookie store's decision (\<open>AddCookies\<close> reports how many it includes), \<open>put_ok\<close> whether the
  live storage takes an entry, and \<open>put_late\<close> whether it answers only after the calls.
\<close>

record ('r, 'c, 'k, 'd) import_platform =
  versions :: version_env
  files :: edge_files
  app_data_root :: path
  source_dir :: path
  dest_dir :: path
  bits_of :: item_bits
  secrets_of :: "('r, 'c) secret_env"
  accepts :: "'c \<Rightarrow> bool"
  deserialize_key :: "bytes \<Rightarrow> 'k option"
  is_first_party :: "'k \<Rightarrow> bool"
  put_ok :: "'k \<times> bytes \<times> bytes \<Rightarrow> bool"
  put_late :: "'k \<times> bytes \<times> bytes \<Rightarrow> bool"
  idb_fs :: "'d fs_env"
  origin_base :: "string \<Rightarrow> string"

subsection \<open>The stages on the target\<close>

definition secrets_env :: "('r, 'c, 'k, 'd) import_platform \<Rightarrow> ('r, 'c) secret_env" where
  "secrets_env p = (secrets_of p)\<lparr>add_cookies := \<lambda>cs. length (filter (accepts p) cs)\<rparr>"

definition run_secrets ::
  "('r, 'c, 'k, 'd) import_platform \<Rightarrow> ('r, 'd) edge_profile \<Rightarrow> 16 word \<Rightarrow>
   secret_result \<times> PasswordForm list \<times> 'c list" where
  "run_secrets p s items =
     (let (res, forms) = secret_Run (bits_of p) (secrets_env p) (login_data s) (cookies_db s) items
      in (res, forms, if items AND COOKIES (bits_of p) \<noteq> 0
                      then filter (accepts p) (snd (ParseCookies (secrets_env p) (cookies_db s))) else []))"

definition puts_of :: "'k OriginLocalStorage list \<Rightarrow> ('k \<times> bytes \<times> bytes) list" where
  "puts_of origins = concat (map (\<lambda>origin. map (\<lambda>e. (storage_key origin, e)) (ls_entries origin)) origins)"

text \<open>The number the stage's callback gets, and the entries the live storage took.\<close>

definition run_local_storage ::
  "('r, 'c, 'k, 'd) import_platform \<Rightarrow> ('r, 'd) edge_profile \<Rightarrow> nat \<times> ('k \<times> bytes \<times> bytes) list" where
  "run_local_storage p s =
     (let origins = ReadEdgeLocalStorage (deserialize_key p) (is_first_party p) (leveldb s);
          puts = puts_of origins;
          replies = map (\<lambda>e. if put_late p e then None else Some (put_ok p e)) puts;
          later = map (put_ok p) (filter (put_late p) puts)
      in (hd (done_calls (fold OnPutComplete later (OnRead origins replies new_storage_stage))),
          filter (put_ok p) puts))"

definition run_indexed_db ::
  "('r, 'c, 'k, 'd) import_platform \<Rightarrow> ('r, 'd) edge_profile \<Rightarrow> 'd dir \<Rightarrow> nat \<times> 'd dir" where
  "run_indexed_db p s d =
     (let (stores, d', left) = CopyStores (idb_fs p) (origin_base p) (indexed_db_dir s) d in (stores, d'))"

text \<open>What the stages answer on a target, and what the one the coordinator waits for does to it.\<close>

definition stage_answers ::
  "('r, 'c, 'k, 'd) import_platform \<Rightarrow> ('r, 'd) edge_profile \<Rightarrow> EdgeCarrier set \<Rightarrow> ('c, 'k, 'd) target_profile \<Rightarrow> import_env" where
  "stage_answers p s cs t =
     \<lparr>preflight_answer = ComputeEdgeImportPreflight (versions p) (files p) (app_data_root p) (source_dir p) (dest_dir p) cs,
      secret_answer = (\<lambda>items. fst (run_secrets p s items)),
      usage_answer = (live_local_storage t \<noteq> []),
      local_storage_answer = fst (run_local_storage p s),
      indexed_db_answer = fst (run_indexed_db p s (indexed_db t))\<rparr>"

definition stage_effect ::
  "('r, 'c, 'k, 'd) import_platform \<Rightarrow> ('r, 'd) edge_profile \<Rightarrow> await \<Rightarrow> ('c, 'k, 'd) target_profile \<Rightarrow> ('c, 'k, 'd) target_profile" where
  "stage_effect p s a t = (case a of
      Await_secret items _ _ \<Rightarrow>
        (let (res, forms, cs) = run_secrets p s items
         in t\<lparr>stored_passwords := stored_passwords t @ forms, stored_cookies := stored_cookies t @ cs\<rparr>)
    | Await_local_storage \<Rightarrow> t\<lparr>live_local_storage := live_local_storage t @ snd (run_local_storage p s)\<rparr>
    | Await_indexed_db \<Rightarrow> t\<lparr>indexed_db := snd (run_indexed_db p s (indexed_db t))\<rparr>
    | _ \<Rightarrow> t)"

definition import_step ::
  "('r, 'c, 'k, 'd) import_platform \<Rightarrow> ('r, 'd) edge_profile \<Rightarrow>
   RoamuxEdgeImportCoordinator \<times> ('c, 'k, 'd) target_profile \<Rightarrow> RoamuxEdgeImportCoordinator \<times> ('c, 'k, 'd) target_profile" where
  "import_step p s x =
     (let (c, t) = x in (answer (bits_of p) (stage_answers p s (carriers c) t) c, stage_effect p s (awaiting c) t))"

text \<open>The whole import of the carriers \<open>cs\<close> into a target.\<close>

definition import_edge ::
  "('r, 'c, 'k, 'd) import_platform \<Rightarrow> ('r, 'd) edge_profile \<Rightarrow> bool \<Rightarrow> EdgeCarrier set \<Rightarrow> ('c, 'k, 'd) target_profile \<Rightarrow>
   RoamuxEdgeImportCoordinator \<times> ('c, 'k, 'd) target_profile" where
  "import_edge p s feature cs t = (import_step p s ^^ 5) (coordinator_Run feature (new_coordinator cs), t)"

subsection \<open>The order of the stages\<close>

lemma awaiting_steps:
  "awaiting (import_Finish c) = Finished"
  "awaiting (RunIndexedDbStep c) \<in> {Await_indexed_db, Finished}"
  "awaiting (OnIndexedDbDone n c) = Finished"
  "awaiting (RunLocalStorageStep c) \<in> {Await_usage, Await_indexed_db, Finished}"
  "awaiting (OnLocalStorageUsageChecked u c) \<in> {Await_local_storage, Await_indexed_db, Finished}"
  "awaiting (OnLocalStorageDone n c) \<in> {Await_indexed_db, Finished}"
proof -
  show f: "awaiting (import_Finish c) = Finished" for c by (simp add: import_Finish_def)
  show i: "awaiting (RunIndexedDbStep c) \<in> {Await_indexed_db, Finished}" for c by (simp add: RunIndexedDbStep_def f)
  show "awaiting (OnIndexedDbDone n c) = Finished" by (simp add: OnIndexedDbDone_def f)
  show "awaiting (RunLocalStorageStep c) \<in> {Await_usage, Await_indexed_db, Finished}"
    using i by (auto simp: RunLocalStorageStep_def)
  show "awaiting (OnLocalStorageUsageChecked u c) \<in> {Await_local_storage, Await_indexed_db, Finished}"
    using i by (auto simp: OnLocalStorageUsageChecked_def)
  show "awaiting (OnLocalStorageDone n c) \<in> {Await_indexed_db, Finished}"
    using i by (auto simp: OnLocalStorageDone_def split: prod.split)
qed

lemma awaiting_secret_steps:
  "awaiting (OnSecretDone p k res c) \<in> {Await_usage, Await_indexed_db, Finished}"
  "awaiting (RunSecretStep bits c) \<in> {Await_usage, Await_indexed_db, Finished} \<union> range (\<lambda>(i, p, k). Await_secret i p k)"
  using awaiting_steps(4) by (auto simp: OnSecretDone_def RunSecretStep_def Let_def image_iff split: prod.splits)

subsection \<open>What the report counts\<close>

definition count_of :: "RoamuxEdgeImportCoordinator \<Rightarrow> EdgeCarrier \<Rightarrow> nat" where
  "count_of c x = sum_list (map carrier_item_count (filter (\<lambda>y. carrier y = x) (outcomes (report c))))"

lemma count_add [simp]: "count_of (add_outcome y s n r c) x = count_of c x + (if x = y then n else 0)"
  by (simp add: count_of_def add_outcome_def report_Add_def outcome_def)

lemma count_frame [simp]: "count_of (c\<lparr>awaiting := a\<rparr>) = count_of c" "count_of (import_Finish c) = count_of c"
  by (simp_all add: count_of_def import_Finish_def fun_eq_iff)

lemma count_steps [simp]:
  "count_of (RunIndexedDbStep c) = count_of c" "count_of (RunLocalStorageStep c) = count_of c"
  "count_of (RunSecretStep bits c) = count_of c" "count_of (OnPreflightDone bits pre c) = count_of c"
proof -
  show i: "count_of (RunIndexedDbStep c) = count_of c" for c
    by (simp add: RunIndexedDbStep_def fun_eq_iff)
  show l: "count_of (RunLocalStorageStep c) = count_of c" for c
    by (simp add: RunLocalStorageStep_def i fun_eq_iff)
  show s: "count_of (RunSecretStep bits c) = count_of c" for c
    by (simp add: RunSecretStep_def l Let_def fun_eq_iff)
  show "count_of (OnPreflightDone bits pre c) = count_of c"
    by (simp add: OnPreflightDone_def s) (simp add: count_of_def fun_eq_iff)
qed

lemma count_done:
  "count_of (OnIndexedDbDone n c) x = count_of c x + (if x = kIndexedDb then n else 0)"
  "count_of (OnLocalStorageUsageChecked u c) x = count_of c x"
  "count_of (OnLocalStorageDone n c) x = count_of c x + (if x = kLocalStorage then n else 0)"
  "count_of (OnSecretDone p k res c) x = count_of c x +
     (if p \<and> x = kPasswords then passwords_imported res else 0) + (if k \<and> x = kCookies then cookies_imported res else 0)"
  by (simp_all add: OnIndexedDbDone_def OnLocalStorageUsageChecked_def OnLocalStorageDone_def OnSecretDone_def Let_def
      split: prod.split)

subsection \<open>What a stage brings\<close>

lemma run_secrets_counts:
  assumes "run_secrets p s items = (res, forms, cs)"
  shows "passwords_imported res = length forms" "cookies_imported res = length cs"
    "items AND PASSWORDS (bits_of p) = 0 \<Longrightarrow> forms = []" "items AND COOKIES (bits_of p) = 0 \<Longrightarrow> cs = []"
  using assms by (auto simp: run_secrets_def secret_Run_def secrets_env_def Let_def split: prod.splits if_splits)

lemma length_puts_of: "length (puts_of origins) = sum_list (map (\<lambda>origin. length (ls_entries origin)) origins)"
  by (simp add: puts_of_def length_concat comp_def)

lemma count_answers:
  "count_list (List.map_filter (\<lambda>r. r) (map (\<lambda>e. if late e then None else Some (ok e)) es)) True +
     count_list (map ok (filter late es)) True = length (filter ok es)"
  by (induction es) (simp_all add: map_filter_simps)

lemma late_answers: "count_list (map (\<lambda>e. if late e then None else Some (ok e)) es) None = length (filter late es)"
  by (induction es) simp_all

lemma run_local_storage_counts: "fst (run_local_storage p s) = length (snd (run_local_storage p s))"
proof -
  define origins where "origins = ReadEdgeLocalStorage (deserialize_key p) (is_first_party p) (leveldb s)"
  define puts where "puts = puts_of origins"
  define replies where "replies = map (\<lambda>e. if put_late p e then None else Some (put_ok p e)) puts"
  define later where "later = map (put_ok p) (filter (put_late p) puts)"
  have n: "length replies = sum_list (map (\<lambda>origin. length (ls_entries origin)) origins)"
    by (simp add: replies_def puts_def length_puts_of)
  have l: "length later = count_list replies None" by (simp add: later_def replies_def late_answers)
  have "done_calls (fold OnPutComplete later (OnRead origins replies new_storage_stage)) = [length (filter (put_ok p) puts)]"
    using storage_stage_reports_once [OF n, of later] l
    by (simp add: count_answers [of "put_late p" "put_ok p" puts, folded replies_def later_def])
  then show ?thesis
    by (simp add: run_local_storage_def Let_def origins_def [symmetric] puts_def [symmetric] replies_def [symmetric]
        later_def [symmetric])
qed

text \<open>As many origins of the source were adopted, each whole, and every other one was not.\<close>

definition adopted :: "('r, 'c, 'k, 'd) import_platform \<Rightarrow> ('r, 'd) edge_profile \<Rightarrow> 'd dir \<Rightarrow> 'd dir \<Rightarrow> nat \<Rightarrow> bool" where
  "adopted p s d d' n \<longleftrightarrow>
     (\<exists>A. n = card A \<and> copied_origins (idb_fs p) (origin_base p) (ListFirstPartyIndexedDbStores (indexed_db_dir s)) A d d')"

lemma adopted_none [simp]: "adopted p s d d 0"
  unfolding adopted_def by (intro exI [of _ "{}"]) (fastforce simp: copied_origins_def not_adopted_def)

lemma run_indexed_db_adopts:
  assumes "distinct (map fst (ListFirstPartyIndexedDbStores (indexed_db_dir s)))"
  shows "adopted p s d (snd (run_indexed_db p s d)) (fst (run_indexed_db p s d))"
proof -
  obtain n d' left where r: "CopyStores (idb_fs p) (origin_base p) (indexed_db_dir s) d = (n, d', left)"
    by (cases "CopyStores (idb_fs p) (origin_base p) (indexed_db_dir s) d") auto
  then show ?thesis using CopyStores_outcome [OF assms r] by (auto simp: adopted_def run_indexed_db_def)
qed

subsection \<open>The report tells what arrived\<close>

definition before_storage :: "await \<Rightarrow> bool" where
  "before_storage a \<longleftrightarrow> (case a of Not_started \<Rightarrow> True | Await_preflight \<Rightarrow> True | Await_secret _ _ _ \<Rightarrow> True
     | Await_usage \<Rightarrow> True | _ \<Rightarrow> False)"

text \<open>The outcomes of an IndexedDB copy that was made; blocked, unsupported and disabled ones are of none.\<close>

definition copied :: "CarrierOutcome \<Rightarrow> bool" where
  "copied x \<longleftrightarrow> carrier x = kIndexedDb \<and> carrier_status x \<in> {kImported, kDegraded}"

definition told ::
  "('r, 'c, 'k, 'd) import_platform \<Rightarrow> ('r, 'd) edge_profile \<Rightarrow> ('c, 'k, 'd) target_profile \<Rightarrow>
   RoamuxEdgeImportCoordinator \<Rightarrow> ('c, 'k, 'd) target_profile \<Rightarrow> bool" where
  "told p s t0 c t \<longleftrightarrow>
     (\<exists>forms. stored_passwords t = stored_passwords t0 @ forms \<and> length forms = count_of c kPasswords) \<and>
     (\<exists>cs. stored_cookies t = stored_cookies t0 @ cs \<and> length cs = count_of c kCookies) \<and>
     (\<exists>puts. live_local_storage t = live_local_storage t0 @ puts \<and> length puts = count_of c kLocalStorage \<and>
        (live_local_storage t0 \<noteq> [] \<longrightarrow> puts = [])) \<and>
     adopted p s (indexed_db t0) (indexed_db t) (count_of c kIndexedDb) \<and>
     (\<not> list_ex copied (outcomes (report c)) \<longrightarrow> indexed_db t = indexed_db t0)"

text \<open>Up to a stage its part of the target is as it was.\<close>

definition in_order :: "('r, 'c, 'k, 'd) import_platform \<Rightarrow> ('c, 'k, 'd) target_profile \<Rightarrow>
    RoamuxEdgeImportCoordinator \<Rightarrow> ('c, 'k, 'd) target_profile \<Rightarrow> bool" where
  "in_order p t0 c t \<longleftrightarrow>
     (before_storage (awaiting c) \<longrightarrow> live_local_storage t = live_local_storage t0 \<and> count_of c kLocalStorage = 0) \<and>
     (awaiting c = Await_local_storage \<longrightarrow> live_local_storage t = [] \<and> live_local_storage t0 = [] \<and> count_of c kLocalStorage = 0) \<and>
     (awaiting c \<noteq> Finished \<longrightarrow> indexed_db t = indexed_db t0 \<and> count_of c kIndexedDb = 0) \<and>
     (\<forall>items a k. awaiting c = Await_secret items a k \<longrightarrow>
        (\<not> a \<longrightarrow> items AND PASSWORDS (bits_of p) = 0) \<and> (\<not> k \<longrightarrow> items AND COOKIES (bits_of p) = 0))"

lemma secret_items:
  assumes "bits_ok bits" and "awaiting (RunSecretStep bits c) = Await_secret items a k"
  shows "(\<not> a \<longrightarrow> items AND PASSWORDS bits = 0) \<and> (\<not> k \<longrightarrow> items AND COOKIES bits = 0)"
proof -
  let ?a = "Requested c kPasswords \<and> source_of c kPasswords" and ?k = "Requested c kCookies \<and> source_of c kCookies"
  have ls: "awaiting (RunLocalStorageStep d) \<noteq> Await_secret items a k" for d using awaiting_steps(4) [of d] by auto
  have "a = ?a" "k = ?k" "items = (if ?k then (if ?a then PASSWORDS bits else 0) OR COOKIES bits else if ?a then PASSWORDS bits else 0)"
    using assms(2) ls by (auto simp: RunSecretStep_def Let_def split: if_splits)
  moreover have "COOKIES bits AND PASSWORDS bits = 0" "PASSWORDS bits AND COOKIES bits = 0"
    using assms(1) by (simp_all add: bits_ok_def and.commute)
  ultimately show ?thesis by (simp add: bit.conj_disj_distrib2)
qed

lemma before_storage_simps [simp]:
  "before_storage Not_started" "before_storage Await_preflight" "before_storage (Await_secret i a k)"
  "before_storage Await_usage" "\<not> before_storage Await_local_storage" "\<not> before_storage Await_indexed_db"
  "\<not> before_storage Finished"
  by (simp_all add: before_storage_def)

lemma import_step_tells:
  assumes ok: "bits_ok (bits_of p)" and stores: "distinct (map fst (ListFirstPartyIndexedDbStores (indexed_db_dir s)))"
    and inv: "told p s t0 c t" "in_order p t0 c t" and step: "import_step p s (c, t) = (c', t')"
  shows "told p s t0 c' t' \<and> in_order p t0 c' t'"
proof -
  have c': "c' = answer (bits_of p) (stage_answers p s (carriers c) t) c" and t': "t' = stage_effect p s (awaiting c) t"
    using step by (simp_all add: import_step_def)
  show ?thesis
  proof (cases "awaiting c")
    case Not_started
    then show ?thesis using inv by (simp add: c' t' answer_def stage_effect_def)
  next
    case Finished
    then show ?thesis using inv by (simp add: c' t' answer_def stage_effect_def)
  next
    case Await_preflight
    define q where "q = c\<lparr>preflight := Some (preflight_answer (stage_answers p s (carriers c) t)),
       report := (report c)\<lparr>source_version := version (preflight_answer (stage_answers p s (carriers c) t)),
         report_version_supported := version_supported (preflight_answer (stage_answers p s (carriers c) t)),
         edge_running_detected := edge_is_running (preflight_answer (stage_answers p s (carriers c) t))\<rparr>\<rparr>"
    have q: "c' = RunSecretStep (bits_of p) q" "t' = t"
      using Await_preflight by (simp_all add: c' t' answer_def stage_effect_def OnPreflightDone_def q_def)
    have "count_of c' = count_of c" unfolding q(1) count_steps by (simp add: count_of_def q_def fun_eq_iff)
    moreover have "awaiting c' \<noteq> Await_local_storage" using awaiting_secret_steps(2) [of "bits_of p" q] by (auto simp: q)
    ultimately show ?thesis
      using inv Await_preflight secret_items [OF ok, of q] unfolding told_def in_order_def q by auto
  next
    case (Await_secret items a k)
    obtain res forms cs where r: "run_secrets p s items = (res, forms, cs)" by (cases "run_secrets p s items") auto
    have eq: "c' = OnSecretDone a k res c"
      "t' = t\<lparr>stored_passwords := stored_passwords t @ forms, stored_cookies := stored_cookies t @ cs\<rparr>"
      using Await_secret r by (simp_all add: c' t' answer_def stage_effect_def stage_answers_def)
    have "awaiting c' \<in> {Await_usage, Await_indexed_db, Finished}" unfolding eq by (rule awaiting_secret_steps)
    moreover have "count_of c' kPasswords = count_of c kPasswords + length forms"
        "count_of c' kCookies = count_of c kCookies + length cs"
        "count_of c' kLocalStorage = count_of c kLocalStorage" "count_of c' kIndexedDb = count_of c kIndexedDb"
      using run_secrets_counts [OF r] inv(2) Await_secret by (auto simp: eq count_done in_order_def)
    ultimately show ?thesis
      using inv Await_secret unfolding told_def in_order_def eq(2) by auto
  next
    case Await_usage
    have eq: "c' = OnLocalStorageUsageChecked (live_local_storage t \<noteq> []) c" "t' = t"
      using Await_usage by (simp_all add: c' t' answer_def stage_effect_def stage_answers_def)
    have "awaiting c' \<in> {Await_local_storage, Await_indexed_db, Finished}" unfolding eq by (rule awaiting_steps)
    moreover have "awaiting c' = Await_local_storage \<longrightarrow> live_local_storage t = []"
      using awaiting_steps(2) [of "add_outcome kLocalStorage kBlocked 0 ''destination localStorage already initialized'' c"]
      unfolding eq OnLocalStorageUsageChecked_def by auto
    ultimately show ?thesis
      using inv Await_usage unfolding told_def in_order_def eq(2) by (auto simp: eq(1) count_done)
  next
    case Await_local_storage
    let ?puts = "snd (run_local_storage p s)"
    have eq: "c' = OnLocalStorageDone (length ?puts) c" "t' = t\<lparr>live_local_storage := live_local_storage t @ ?puts\<rparr>"
      using Await_local_storage by (simp_all add: c' t' answer_def stage_effect_def stage_answers_def run_local_storage_counts)
    have "awaiting c' \<in> {Await_indexed_db, Finished}" unfolding eq by (rule awaiting_steps)
    then show ?thesis
      using inv Await_local_storage unfolding told_def in_order_def eq(2) by (auto simp: eq(1) count_done)
  next
    case Await_indexed_db
    let ?n = "fst (run_indexed_db p s (indexed_db t))"
    have eq: "c' = OnIndexedDbDone ?n c" "t' = t\<lparr>indexed_db := snd (run_indexed_db p s (indexed_db t))\<rparr>"
      using Await_indexed_db by (simp_all add: c' t' answer_def stage_effect_def stage_answers_def)
    have "list_ex copied (outcomes (report c'))"
      by (simp add: eq(1) OnIndexedDbDone_def import_Finish_def add_outcome_def report_Add_def outcome_def copied_def)
    moreover have "awaiting c' = Finished" unfolding eq by (rule awaiting_steps)
    ultimately show ?thesis
      using inv Await_indexed_db run_indexed_db_adopts [OF stores, of p "indexed_db t0"]
      unfolding told_def in_order_def eq(2) by (auto simp: eq(1) count_done)
  qed
qed

text \<open>The run is the one the answers on the initial target give.\<close>

lemma carriers_steps [simp]:
  "carriers (import_Finish c) = carriers c" "carriers (RunIndexedDbStep c) = carriers c"
  "carriers (RunLocalStorageStep c) = carriers c" "carriers (RunSecretStep bits c) = carriers c"
proof -
  show f: "carriers (import_Finish c) = carriers c" for c by (simp add: import_Finish_def)
  show i: "carriers (RunIndexedDbStep c) = carriers c" for c by (simp add: RunIndexedDbStep_def f)
  show l: "carriers (RunLocalStorageStep c) = carriers c" for c by (simp add: RunLocalStorageStep_def i)
  show "carriers (RunSecretStep bits c) = carriers c" by (simp add: RunSecretStep_def l Let_def)
qed

lemma carriers_answer: "carriers (answer bits env c) = carriers c"
  by (cases "awaiting c") (simp_all add: answer_def OnPreflightDone_def OnSecretDone_def OnLocalStorageUsageChecked_def
      OnLocalStorageDone_def OnIndexedDbDone_def Let_def split: prod.split)

lemma answers_as_at_start:
  assumes "in_order p t0 c t"
  shows "answer bits (stage_answers p s cs t) c = answer bits (stage_answers p s cs t0) c"
  using assms by (cases "awaiting c") (simp_all add: answer_def stage_answers_def in_order_def)

lemma import_run:
  assumes "bits_ok (bits_of p)" and "distinct (map fst (ListFirstPartyIndexedDbStores (indexed_db_dir s)))"
    and "told p s t0 c t0" "in_order p t0 c t0" and "carriers c = cs"
  shows "\<exists>t. (import_step p s ^^ n) (c, t0) = ((answer (bits_of p) (stage_answers p s cs t0) ^^ n) c, t) \<and>
     told p s t0 ((answer (bits_of p) (stage_answers p s cs t0) ^^ n) c) t \<and>
     in_order p t0 ((answer (bits_of p) (stage_answers p s cs t0) ^^ n) c) t \<and>
     carriers ((answer (bits_of p) (stage_answers p s cs t0) ^^ n) c) = cs"
proof (induction n)
  case (Suc n)
  let ?c = "(answer (bits_of p) (stage_answers p s cs t0) ^^ n) c"
  obtain t where t: "(import_step p s ^^ n) (c, t0) = (?c, t)" "told p s t0 ?c t" "in_order p t0 ?c t" "carriers ?c = cs"
    using Suc by blast
  obtain c' t' where step: "import_step p s (?c, t) = (c', t')" by fastforce
  have c': "c' = answer (bits_of p) (stage_answers p s cs t0) ?c"
    using step t(4) answers_as_at_start [OF t(3), of "bits_of p" s cs] by (simp add: import_step_def)
  show ?case
    using import_step_tells [OF assms(1,2) t(2,3) step] step t(1,4) c' by (intro exI [of _ t']) (simp add: carriers_answer)
qed (use assms in auto)

lemma start_tells:
  "told p s t (coordinator_Run feature (new_coordinator cs)) t" "in_order p t (coordinator_Run feature (new_coordinator cs)) t"
  "carriers (coordinator_Run feature (new_coordinator cs)) = cs"
proof -
  have z: "count_of (fold add_disabled xs c) = count_of c" "carriers (fold add_disabled xs c) = carriers c" for xs c
    by (induction xs arbitrary: c) (simp_all add: add_disabled_def fun_eq_iff)
  have c: "count_of (coordinator_Run feature (new_coordinator cs)) = (\<lambda>_. 0)"
    by (simp add: coordinator_Run_def z) (simp add: count_of_def new_coordinator_def new_report_def fun_eq_iff)
  show "told p s t (coordinator_Run feature (new_coordinator cs)) t" by (simp add: told_def c)
  show "in_order p t (coordinator_Run feature (new_coordinator cs)) t"
    by (auto simp: in_order_def c) (auto simp: coordinator_Run_def awaiting_steps(1) split: if_splits)
  show "carriers (coordinator_Run feature (new_coordinator cs)) = cs"
    by (simp add: coordinator_Run_def z) (simp add: new_coordinator_def)
qed

text \<open>An outcome of the report counts what it says, and is the only one of its carrier.\<close>

lemma count_is_outcome: "reports S c \<Longrightarrow> x \<in> set (outcomes (report c)) \<Longrightarrow> count_of c (carrier x) = carrier_item_count x"
proof -
  assume r: "reports S c" and x: "x \<in> set (outcomes (report c))"
  have "filter (\<lambda>y. carrier y = carrier x) xs = [x]" if "distinct (map carrier xs)" "x \<in> set xs" for xs
    using that by (induction xs) (auto simp: filter_empty_conv, metis image_eqI)
  then show ?thesis using r x by (simp add: count_of_def reports_def reported_def)
qed

lemma count_not_reported: "reports S c \<Longrightarrow> x \<notin> S \<Longrightarrow> count_of c x = 0"
proof -
  assume "reports S c" "x \<notin> S"
  then have "\<forall>y \<in> set (outcomes (report c)). carrier y \<noteq> x" by (auto simp: reports_def reported_def)
  then show ?thesis by (simp add: count_of_def filter_empty_conv)
qed

text \<open>What arrived of a carrier, as a number of items.\<close>

definition arrived ::
  "('r, 'c, 'k, 'd) import_platform \<Rightarrow> ('r, 'd) edge_profile \<Rightarrow> ('c, 'k, 'd) target_profile \<Rightarrow> ('c, 'k, 'd) target_profile \<Rightarrow>
   EdgeCarrier \<Rightarrow> nat \<Rightarrow> bool" where
  "arrived p s t0 t x n = (case x of
      kPasswords \<Rightarrow> \<exists>forms. stored_passwords t = stored_passwords t0 @ forms \<and> length forms = n
    | kCookies \<Rightarrow> \<exists>cs. stored_cookies t = stored_cookies t0 @ cs \<and> length cs = n
    | kLocalStorage \<Rightarrow> \<exists>puts. live_local_storage t = live_local_storage t0 @ puts \<and> length puts = n \<and>
        (live_local_storage t0 \<noteq> [] \<longrightarrow> puts = [])
    | kIndexedDb \<Rightarrow> adopted p s (indexed_db t0) (indexed_db t) n)"

lemma told_arrived: "told p s t0 c t \<Longrightarrow> arrived p s t0 t x (count_of c x)"
  by (cases x) (simp_all add: arrived_def told_def)

text \<open>The import runs to its report, and what it told is what arrived.\<close>

lemma import_edge_outcome:
  assumes "bits_ok (bits_of p)" and "distinct (map fst (ListFirstPartyIndexedDbStores (indexed_db_dir s)))"
    and "import_edge p s feature cs t0 = (c, t)"
  shows "told p s t0 c t \<and> complete cs c"
proof -
  let ?c0 = "coordinator_Run feature (new_coordinator cs)" and ?env = "stage_answers p s cs t0"
  obtain t' where run: "(import_step p s ^^ 5) (?c0, t0) = ((answer (bits_of p) ?env ^^ 5) ?c0, t')"
    "told p s t0 ((answer (bits_of p) ?env ^^ 5) ?c0) t'"
    using import_run [OF assms(1,2) start_tells, of 5] by blast
  then have c: "c = (answer (bits_of p) ?env ^^ 5) ?c0" "told p s t0 c t"
    using assms(3) by (simp_all add: import_edge_def)
  have "complete cs c" unfolding c(1) by (rule run_completes [OF assms(1)])
  then show ?thesis using c(2) by simp
qed


text \<open>An Edge profile with one login, a cookie, two localStorage entries and two stores, into an empty target.\<close>

definition edge_sample :: "(unit, nat) edge_profile" where
  "edge_sample = \<lparr>login_data = \<lparr>db_exists = True, db_temp_ok = True, db_copy_ok = True, db_open_ok = True, db_schema_ok = True,
       db_rows = [\<lparr>origin_url = ''u'', action_url = ''u'', username_element = [], username_value = ''me'', password_element = [],
         password_value = ''v10pw'', signon_realm = ''r'', scheme_column = 0, blacklisted_by_user = 0\<rparr>]\<rparr>,
     cookies_db = sample_cookies,
     leveldb = \<lparr>source_exists = True, temp_dir_ok = True, copy_directory_ok = True, open_db_ok = True,
       records = [(''_o'' @ [CHR 0x00] @ ''a'', ''1''), (''_o'' @ [CHR 0x00] @ ''b'', ''2'')], iterator_ok = True\<rparr>,
     indexed_db_dir = two_origins\<rparr>"

definition platform_sample :: "(unit, bytes, bytes, nat) import_platform" where
  "platform_sample = \<lparr>versions = \<lparr>trim = (\<lambda>x. x), parse_version = (\<lambda>_. None)\<rparr>,
     files = \<lparr>PathExists = (\<lambda>_. True), DirectoryExists = (\<lambda>_. True), IsDirectoryEmpty = (\<lambda>_. True), IsLink = (\<lambda>_. False),
       ReadFile = (\<lambda>_. None), ReadSymbolicLink = (\<lambda>_. None), EnumerateDirectories = (\<lambda>_. [])\<rparr>,
     app_data_root = [], source_dir = [''p''], dest_dir = [''d''], bits_of = sample_bits, secrets_of = sample_secret_env,
     accepts = (\<lambda>_. True), deserialize_key = Some, is_first_party = (\<lambda>_. True), put_ok = (\<lambda>_. True),
     put_late = (\<lambda>e. snd (snd e) = ''1''), idb_fs = good_fs, origin_base = first_letter\<rparr>"

definition empty_target :: "(bytes, bytes, nat) target_profile" where
  "empty_target = \<lparr>stored_passwords = [], stored_cookies = [], live_local_storage = [], indexed_db = Map.empty\<rparr>"

lemma edge_sample_report:
  "map (\<lambda>x. (carrier x, carrier_status x, carrier_item_count x))
     (outcomes (report (fst (import_edge platform_sample edge_sample True {kPasswords, kCookies, kLocalStorage, kIndexedDb} empty_target)))) =
   [(kPasswords, kImported, 1), (kCookies, kImported, 1), (kLocalStorage, kImported, 2), (kIndexedDb, kImported, 2)]"
  by code_simp


end
