(* ===== verification/Json_Values.thy ===== *)
theory Json_Values
  imports Prelude
begin

text \<open>
  \<open>base::Value\<close> as the code uses it: parsed JSON, and dictionaries as the entries in key order.
\<close>

datatype json = JNull | JBool bool | JNumber int | JString string | JList "json list" | JDict "(string \<times> json) list"

type_synonym json_dict = "(string \<times> json) list"

definition dict_FindString :: "json_dict \<Rightarrow> string \<Rightarrow> string option" where
  "dict_FindString d k = (case map_of d k of Some (JString s) \<Rightarrow> Some s | _ \<Rightarrow> None)"

definition dict_FindBool :: "json_dict \<Rightarrow> string \<Rightarrow> bool option" where
  "dict_FindBool d k = (case map_of d k of Some (JBool b) \<Rightarrow> Some b | _ \<Rightarrow> None)"

definition dict_FindList :: "json_dict \<Rightarrow> string \<Rightarrow> json list option" where
  "dict_FindList d k = (case map_of d k of Some (JList xs) \<Rightarrow> Some xs | _ \<Rightarrow> None)"

definition dict_FindDict :: "json_dict \<Rightarrow> string \<Rightarrow> json_dict option" where
  "dict_FindDict d k = (case map_of d k of Some (JDict x) \<Rightarrow> Some x | _ \<Rightarrow> None)"

lemma child_size: "dict_FindList node k = Some cs \<Longrightarrow> JDict d \<in> set cs \<Longrightarrow> size (JDict d) < size (JDict node)"
proof -
  assume "dict_FindList node k = Some cs" and d: "JDict d \<in> set cs"
  then have "(k, JList cs) \<in> set node" by (auto simp: dict_FindList_def split: option.splits json.splits dest: map_of_SomeD)
  moreover have "size (JDict d) \<le> size_list size cs" using d by (rule size_list_estimation') simp
  ultimately show ?thesis by (auto dest!: split_list)
qed

end
