(* ===== verification/Edge_Reader.thy ===== *)
theory Edge_Reader
  imports Edge_Import Json_Values "HOL-Library.Char_ord" "HOL-Library.List_Lexorder" "HOL-Library.Product_Lexorder"
begin

text \<open>
  The utility-process half of an Edge import, \<open>roamux/utility/importer/\<close>: which profile directory is
  read (\<open>ResolveEdgeProfileDir\<close>, \<open>DetectEdgeSourceProfile\<close>), the readers of history, bookmarks, search
  engines and autofill (\<open>edge_profile_reader.cc\<close>), and the importer that reports them to the
  bridge (\<open>roamux_edge_importer.cc\<close>). The JSON and URL parsers, the number and text conversions and
  what \<open>FilePath\<close> makes of a name are Chromium's: arguments. A time is its microseconds since the Windows
  epoch, 0 the null time.
\<close>

text \<open>\<open>string_to_int64\<close> gives whether the whole text is a number, and the value it leaves in its output.\<close>

record reader_env =
  parse_json :: "string \<Rightarrow> json option"
  string_to_int64 :: "string \<Rightarrow> bool \<times> int"
  to_utf16 :: "string \<Rightarrow> string"
  gurl_of :: "string \<Rightarrow> gurl"
  from_time_t :: "int \<Rightarrow> int"
  from_utf8 :: "string \<Rightarrow> string"
  base_name :: "string \<Rightarrow> string"
  references_parent :: "string \<Rightarrow> bool"

subsection \<open>Bookmarks\<close>

definition FromChromeTime :: "int \<Rightarrow> int" where
  "FromChromeTime microseconds = (if microseconds \<le> 0 then 0 else microseconds)"

record ImportedBookmarkEntry =
  in_toolbar :: bool
  is_folder :: bool
  bm_url :: "gurl option"
  bm_path :: "string list"
  bm_title :: string
  creation_time :: int

definition folder_entry :: "bool \<Rightarrow> string list \<Rightarrow> string \<Rightarrow> ImportedBookmarkEntry" where
  "folder_entry toolbar path title =
     \<lparr>in_toolbar = toolbar, is_folder = True, bm_url = None, bm_path = path, bm_title = title, creation_time = 0\<rparr>"

definition url_entry :: "reader_env \<Rightarrow> json_dict \<Rightarrow> string \<Rightarrow> bool \<Rightarrow> string list \<Rightarrow> string \<Rightarrow> ImportedBookmarkEntry" where
  "url_entry env node url toolbar path title =
     (let date_added = (case dict_FindString node ''date_added'' of None \<Rightarrow> 0 | Some added \<Rightarrow> snd (string_to_int64 env added))
      in \<lparr>in_toolbar = toolbar, is_folder = False, bm_url = Some (gurl_of env url), bm_path = path, bm_title = title,
          creation_time = FromChromeTime date_added\<rparr>)"

function CollectBookmarks ::
  "reader_env \<Rightarrow> json_dict \<Rightarrow> string list \<Rightarrow> bool \<Rightarrow> ImportedBookmarkEntry list \<Rightarrow> ImportedBookmarkEntry list" where
  "CollectBookmarks env node path toolbar out =
     (case dict_FindString node ''type'' of
        None \<Rightarrow> out
      | Some type \<Rightarrow> (case dict_FindString node ''name'' of
          None \<Rightarrow> out
        | Some name \<Rightarrow>
            (let title = to_utf16 env name
             in if type = ''folder'' then
                  (case dict_FindList node ''children'' of
                     None \<Rightarrow> out @ [folder_entry toolbar path title]
                   | Some children \<Rightarrow>
                       if children = [] then out @ [folder_entry toolbar path title]
                       else fold (\<lambda>child out. case child of
                                                JDict d \<Rightarrow> CollectBookmarks env d (path @ [title]) toolbar out
                                              | _ \<Rightarrow> out) children out)
                else if type \<noteq> ''url'' then out
                else (case dict_FindString node ''url'' of
                        None \<Rightarrow> out
                      | Some url \<Rightarrow>
                          let entry = url_entry env node url toolbar path title
                          in if url_valid (gurl_of env url) then out @ [entry] else out))))"
  by pat_completeness auto
termination
  by (relation "measure (\<lambda>(env, node, _). size (JDict node))") (auto dest: child_size)

declare CollectBookmarks.simps [simp del]

definition CollectRoot ::
  "reader_env \<Rightarrow> json_dict \<Rightarrow> bool \<Rightarrow> ImportedBookmarkEntry list \<Rightarrow> ImportedBookmarkEntry list" where
  "CollectRoot env root toolbar out =
     (case dict_FindList root ''children'' of
        None \<Rightarrow> out
      | Some children \<Rightarrow>
          let seed = (if toolbar then [case dict_FindString root ''name'' of None \<Rightarrow> ''Bookmarks bar'' | Some n \<Rightarrow> to_utf16 env n]
                      else [])
          in fold (\<lambda>child out. case child of JDict d \<Rightarrow> CollectBookmarks env d seed toolbar out | _ \<Rightarrow> out) children out)"

definition ReadBookmarks :: "reader_env \<Rightarrow> edge_files \<Rightarrow> path \<Rightarrow> ImportedBookmarkEntry list" where
  "ReadBookmarks env fs profile =
     (let source = append_path profile ''Bookmarks''
      in if \<not> PathExists fs source then []
         else case ReadFile fs source of
                None \<Rightarrow> []
              | Some text \<Rightarrow>
                  (case parse_json env text of
                     Some (JDict parsed) \<Rightarrow>
                       (case dict_FindDict parsed ''roots'' of
                          None \<Rightarrow> []
                        | Some roots \<Rightarrow>
                            let e1 = (case dict_FindDict roots ''bookmark_bar'' of
                                        None \<Rightarrow> [] | Some bar \<Rightarrow> CollectRoot env bar True [])
                            in fold (\<lambda>key entries. case dict_FindDict roots key of
                                                     None \<Rightarrow> entries | Some node \<Rightarrow> CollectRoot env node False entries)
                                 [''other'', ''synced''] e1)
                   | _ \<Rightarrow> []))"

subsection \<open>The source profile\<close>

definition HasEdgeProfileData :: "edge_files \<Rightarrow> path \<Rightarrow> bool" where
  "HasEdgeProfileData fs dir \<longleftrightarrow>
     list_ex (\<lambda>artifact. PathExists fs (append_path dir artifact))
       [''Bookmarks'', ''History'', ''Web Data'', ''Login Data'', ''Cookies''] \<or>
     DirectoryExists fs (append_path (append_path dir ''Local Storage'') ''leveldb'') \<or>
     DirectoryExists fs (append_path dir ''IndexedDB'')"

definition IsSafeProfileName :: "reader_env \<Rightarrow> string \<Rightarrow> bool" where
  "IsSafeProfileName env name =
     (if name = [] then False
      else if list_ex (\<lambda>c. of_char c < (0x20 :: nat) \<or> of_char c = (0x7f :: nat)) name then False
      else let component = from_utf8 env name
           in component = name \<and> component = base_name env component \<and> \<not> references_parent env component)"

definition kMaxLocalStateBytes :: nat where "kMaxLocalStateBytes = 1024 * 1024"

definition ReadLocalState :: "reader_env \<Rightarrow> edge_files \<Rightarrow> path \<Rightarrow> json_dict option" where
  "ReadLocalState env fs user_data =
     (case ReadFile fs (append_path user_data ''Local State'') of
        None \<Rightarrow> None
      | Some contents \<Rightarrow>
          if length contents > kMaxLocalStateBytes then None
          else (case parse_json env contents of Some (JDict d) \<Rightarrow> Some d | _ \<Rightarrow> None))"

definition kProfilePrefix :: string where "kProfilePrefix = ''Profile ''"

definition ProfileScanKey :: "reader_env \<Rightarrow> string \<Rightarrow> int \<times> int \<times> string" where
  "ProfileScanKey env name =
     (if starts_with name kProfilePrefix
      then let (ok, parsed) = string_to_int64 env (drop (length kProfilePrefix) name)
           in if ok then (0, parsed, name) else (1, 0, name)
      else (1, 0, name))"

definition CandidateUsable :: "edge_files \<Rightarrow> path \<Rightarrow> bool" where
  "CandidateUsable fs dir \<longleftrightarrow> DirectoryExists fs dir \<and> \<not> IsLink fs dir \<and> HasEdgeProfileData fs dir"

text \<open>The empty path is the empty list.\<close>

definition usable_profile :: "reader_env \<Rightarrow> edge_files \<Rightarrow> path \<Rightarrow> string \<Rightarrow> path" where
  "usable_profile env fs user_data name =
     (if \<not> IsSafeProfileName env name then []
      else let dir = append_path user_data (from_utf8 env name)
           in if CandidateUsable fs dir then dir else [])"

definition from_local_state :: "reader_env \<Rightarrow> edge_files \<Rightarrow> path \<Rightarrow> path" where
  "from_local_state env fs user_data =
     (case ReadLocalState env fs user_data of
        None \<Rightarrow> []
      | Some local_state \<Rightarrow> (case dict_FindDict local_state ''profile'' of
          None \<Rightarrow> []
        | Some profile \<Rightarrow>
            let d1 = (case dict_FindString profile ''last_used'' of None \<Rightarrow> [] | Some last_used \<Rightarrow> usable_profile env fs user_data last_used)
            in if d1 \<noteq> [] then d1
               else case dict_FindDict profile ''info_cache'' of
                      None \<Rightarrow> []
                    | Some cache \<Rightarrow> if length cache = 1 then usable_profile env fs user_data (fst (hd cache)) else []))"

definition scan_candidates :: "reader_env \<Rightarrow> edge_files \<Rightarrow> path \<Rightarrow> string list" where
  "scan_candidates env fs user_data =
     sort_key (ProfileScanKey env) (filter (\<lambda>n. starts_with n kProfilePrefix) (EnumerateDirectories fs user_data))"

definition ResolveEdgeProfileDir :: "reader_env \<Rightarrow> edge_files \<Rightarrow> path \<Rightarrow> path" where
  "ResolveEdgeProfileDir env fs user_data =
     (let d = from_local_state env fs user_data
      in if d \<noteq> [] then d
         else let default_dir = append_path user_data ''Default''
              in if CandidateUsable fs default_dir then default_dir
                 else case find (\<lambda>n. CandidateUsable fs (append_path user_data n)) (scan_candidates env fs user_data) of
                        None \<Rightarrow> [] | Some n \<Rightarrow> append_path user_data n)"

definition DetectEdgeSourceProfile :: "item_bits \<Rightarrow> reader_env \<Rightarrow> edge_files \<Rightarrow> path \<Rightarrow> SourceProfile option" where
  "DetectEdgeSourceProfile bits env fs app_data_root =
     (let profile = ResolveEdgeProfileDir env fs (append_path app_data_root ''Microsoft Edge'')
      in if profile = [] then None
         else Some \<lparr>importer_name = ''Microsoft Edge'', is_edge_chromium = True, source_path = profile,
                    services_supported = HISTORY bits OR FAVORITES bits OR SEARCH_ENGINES bits OR AUTOFILL_FORM_DATA bits\<rparr>)"

subsection \<open>History, search engines, autofill\<close>

text \<open>The outcome of copying and opening a database; its statement is valid when the schema is as expected.\<close>

definition OpenCopied :: "'r source_db \<Rightarrow> bool" where
  "OpenCopied s =
     (if \<not> db_exists s then False else if \<not> db_temp_ok s then False else if \<not> db_copy_ok s then False
      else db_open_ok s)"

record urls_row =
  u_url :: string
  u_title :: string
  u_visit_count :: int
  u_typed_count :: int
  u_last_visit_time :: int
  u_hidden :: int

record ImporterURLRow =
  row_url :: gurl
  row_title :: string
  visit_count :: int
  typed_count :: int
  last_visit :: int

definition history_statement :: "urls_row list \<Rightarrow> urls_row list" where
  "history_statement rows = sort_key (\<lambda>r. - u_last_visit_time r) (filter (\<lambda>r. u_hidden r = 0) rows)"

definition history_row :: "reader_env \<Rightarrow> urls_row \<Rightarrow> ImporterURLRow option" where
  "history_row env r =
     (let url = gurl_of env (u_url r)
      in if \<not> url_valid url then None
         else let t = FromChromeTime (u_last_visit_time r)
              in if t = 0 then None
                 else Some \<lparr>row_url = url, row_title = u_title r, visit_count = u_visit_count r,
                            typed_count = u_typed_count r, last_visit = t\<rparr>)"

definition ReadHistory :: "reader_env \<Rightarrow> urls_row source_db \<Rightarrow> ImporterURLRow list" where
  "ReadHistory env db =
     (if \<not> OpenCopied db then [] else if \<not> db_schema_ok db then []
      else List.map_filter (history_row env) (history_statement (db_rows db)))"

record SearchEngineInfo =
  display_name :: string
  se_keyword :: string
  se_url :: string

definition ReadSearchEngines :: "SearchEngineInfo source_db \<Rightarrow> SearchEngineInfo list" where
  "ReadSearchEngines db =
     (if \<not> OpenCopied db then [] else if \<not> db_schema_ok db then []
      else filter (\<lambda>engine. se_url engine \<noteq> []) (db_rows db))"

record autofill_row =
  af_name :: string
  af_value :: string
  af_count :: int
  af_date_created :: int
  af_date_last_used :: int

record AutofillEntry =
  entry_name :: string
  entry_value :: string
  times_used :: int
  first_used :: int
  last_used_time :: int

definition ReadAutofill :: "reader_env \<Rightarrow> autofill_row source_db \<Rightarrow> AutofillEntry list" where
  "ReadAutofill env db =
     (if \<not> OpenCopied db then [] else if \<not> db_schema_ok db then []
      else filter (\<lambda>e. entry_name e \<noteq> [])
             (map (\<lambda>r. \<lparr>entry_name = af_name r, entry_value = af_value r, times_used = af_count r,
                        first_used = from_time_t env (af_date_created r),
                        last_used_time = from_time_t env (af_date_last_used r)\<rparr>) (db_rows db)))"

subsection \<open>The importer\<close>

text \<open>The source the importer reads: the profile's files and each database as its copy finds it.\<close>

record edge_source =
  source_files :: edge_files
  history_db :: "urls_row source_db"
  keywords_db :: "SearchEngineInfo source_db"
  autofill_db :: "autofill_row source_db"

datatype bridge_call = NotifyStarted | NotifyItemStarted "16 word" | SetHistoryItems "ImporterURLRow list"
  | AddBookmarks "ImportedBookmarkEntry list" string | SetKeywords "SearchEngineInfo list" bool
  | SetAutofillFormData "AutofillEntry list" | NotifyItemEnded "16 word" | NotifyEnded

definition import_item :: "16 word \<Rightarrow> 16 word \<Rightarrow> ('a list \<Rightarrow> bridge_call) \<Rightarrow> 'a list \<Rightarrow> bridge_call list" where
  "import_item items item set_items found =
     (if items AND item \<noteq> 0
      then [NotifyItemStarted item] @ (if found \<noteq> [] then [set_items found] else []) @ [NotifyItemEnded item]
      else [])"

definition StartImport :: "item_bits \<Rightarrow> reader_env \<Rightarrow> edge_source \<Rightarrow> SourceProfile \<Rightarrow> 16 word \<Rightarrow> bridge_call list" where
  "StartImport bits env src sp items =
     [NotifyStarted] @
     import_item items (HISTORY bits) SetHistoryItems (ReadHistory env (history_db src)) @
     import_item items (FAVORITES bits) (\<lambda>b. AddBookmarks b ''Imported from Microsoft Edge'')
       (ReadBookmarks env (source_files src) (source_path sp)) @
     import_item items (SEARCH_ENGINES bits) (\<lambda>e. SetKeywords e False) (ReadSearchEngines (keywords_db src)) @
     import_item items (AUTOFILL_FORM_DATA bits) SetAutofillFormData (ReadAutofill env (autofill_db src)) @
     [NotifyEnded]"

subsection \<open>Which profile is read\<close>

text \<open>The names the Local State file puts forward, in order: the last used, then a sole cached one.\<close>

definition named_profiles :: "reader_env \<Rightarrow> edge_files \<Rightarrow> path \<Rightarrow> string list" where
  "named_profiles env fs user_data =
     (case Option.bind (ReadLocalState env fs user_data) (\<lambda>st. dict_FindDict st ''profile'') of
        None \<Rightarrow> []
      | Some profile \<Rightarrow>
          (case dict_FindString profile ''last_used'' of None \<Rightarrow> [] | Some n \<Rightarrow> [n]) @
          (case dict_FindDict profile ''info_cache'' of Some [(n, v)] \<Rightarrow> [n] | _ \<Rightarrow> []))"

definition preferred_names :: "reader_env \<Rightarrow> edge_files \<Rightarrow> path \<Rightarrow> string list" where
  "preferred_names env fs user_data =
     filter (IsSafeProfileName env) (named_profiles env fs user_data) @ [''Default''] @ scan_candidates env fs user_data"

definition first_usable :: "edge_files \<Rightarrow> path \<Rightarrow> string list \<Rightarrow> path" where
  "first_usable fs user_data names =
     (case find (\<lambda>n. CandidateUsable fs (append_path user_data n)) names of
        None \<Rightarrow> [] | Some n \<Rightarrow> append_path user_data n)"

lemma append_path_not_Nil [simp]: "append_path p n \<noteq> []"
  and Nil_not_append_path [simp]: "[] \<noteq> append_path p n"
  and append_path_eq [simp]: "append_path p n = append_path p m \<longleftrightarrow> n = m"
  by (simp_all add: append_path_def)

lemma first_usable_append:
  "first_usable fs u (xs @ ys) = (if first_usable fs u xs \<noteq> [] then first_usable fs u xs else first_usable fs u ys)"
  by (induction xs) (auto simp: first_usable_def split: option.splits)

lemma first_usable_Cons:
  "first_usable fs u (n # ns) = (if CandidateUsable fs (append_path u n) then append_path u n else first_usable fs u ns)"
  by (simp add: first_usable_def)

lemma first_usable_Nil [simp]: "first_usable fs u [] = []"
  by (simp add: first_usable_def)

lemma usable_first: "usable_profile env fs u n = first_usable fs u (filter (IsSafeProfileName env) [n])"
  by (auto simp: usable_profile_def first_usable_Cons IsSafeProfileName_def Let_def)

lemma from_local_state_first:
  "from_local_state env fs u = first_usable fs u (filter (IsSafeProfileName env) (named_profiles env fs u))"
proof (cases "Option.bind (ReadLocalState env fs u) (\<lambda>st. dict_FindDict st ''profile'')")
  case None
  then show ?thesis by (auto simp: from_local_state_def named_profiles_def split: option.splits)
next
  case (Some profile)
  then obtain st where st: "ReadLocalState env fs u = Some st" "dict_FindDict st ''profile'' = Some profile"
    by (auto simp: bind_eq_Some_conv)
  have cache: "(case c of None \<Rightarrow> [] | Some cache \<Rightarrow> if length cache = 1 then usable_profile env fs u (fst (hd cache)) else []) =
      first_usable fs u (filter (IsSafeProfileName env) (case c of Some [(n, v)] \<Rightarrow> [n] | _ \<Rightarrow> []))" for c :: "json_dict option"
    by (cases c) (auto simp: usable_first length_Suc_conv split: list.split)
  show ?thesis
    by (simp add: from_local_state_def named_profiles_def st first_usable_append cache Let_def usable_first split: option.split)
qed

text \<open>
  C23: the first usable_profile profile is read. The resolved directory is the first, in the order Local State's
  last used, its sole cached profile, \<open>Default\<close>, the \<open>Profile N\<close> by increasing number, that is a real
  directory with something to import, and no directory exactly if there is none; a name that Local
  State puts forward counts only if it is safe, and the scan takes the least number it can use.
\<close>

theorem first_usable_profile_is_read:
  "ResolveEdgeProfileDir env fs u = first_usable fs u (preferred_names env fs u) \<and>
   (ResolveEdgeProfileDir env fs u = [] \<longleftrightarrow> (\<forall>n \<in> set (preferred_names env fs u). \<not> CandidateUsable fs (append_path u n))) \<and>
   (\<forall>n m. from_local_state env fs u = [] \<longrightarrow> ResolveEdgeProfileDir env fs u = append_path u n \<longrightarrow> n \<noteq> ''Default'' \<longrightarrow>
      m \<in> set (EnumerateDirectories fs u) \<longrightarrow> starts_with m kProfilePrefix \<longrightarrow> CandidateUsable fs (append_path u m) \<longrightarrow>
      ProfileScanKey env n \<le> ProfileScanKey env m)"
proof -
  have eq: "ResolveEdgeProfileDir env fs u = first_usable fs u (preferred_names env fs u)"
    by (simp add: ResolveEdgeProfileDir_def preferred_names_def from_local_state_first first_usable_append first_usable_Cons
        Let_def) (simp add: first_usable_def)
  have none: "first_usable fs u ns = [] \<longleftrightarrow> (\<forall>n \<in> set ns. \<not> CandidateUsable fs (append_path u n))" for ns
    by (induction ns) (simp_all add: first_usable_Cons)
  have least: "ProfileScanKey env n \<le> ProfileScanKey env m"
    if r: "from_local_state env fs u = []" "ResolveEdgeProfileDir env fs u = append_path u n" "n \<noteq> ''Default''"
      and m: "m \<in> set (EnumerateDirectories fs u)" "starts_with m kProfilePrefix" "CandidateUsable fs (append_path u m)"
    for n m
  proof -
    let ?P = "\<lambda>n. CandidateUsable fs (append_path u n)" and ?S = "scan_candidates env fs u"
    have "first_usable fs u ?S = append_path u n"
      using r by (auto simp: eq preferred_names_def first_usable_append first_usable_Cons from_local_state_first
          split: if_splits)
    then have "find ?P ?S = Some n" by (auto simp: first_usable_def split: option.splits)
    then obtain i where i: "i < length ?S" "n = ?S ! i" "\<forall>j < i. \<not> ?P (?S ! j)" by (auto simp: find_Some_iff)
    have "m \<in> set ?S" using m by (simp add: scan_candidates_def)
    then obtain j where j: "j < length ?S" "m = ?S ! j" by (auto simp: in_set_conv_nth)
    have "i \<le> j" using i(3) j m(3) by (metis not_le)
    moreover have "sorted (map (ProfileScanKey env) ?S)" by (simp add: scan_candidates_def)
    ultimately show ?thesis using i j sorted_nth_mono [of "map (ProfileScanKey env) ?S" i j] by simp
  qed
  show ?thesis
  proof (intro conjI allI impI)
    show "ResolveEdgeProfileDir env fs u = [] \<longleftrightarrow>
        (\<forall>n \<in> set (preferred_names env fs u). \<not> CandidateUsable fs (append_path u n))"
      unfolding eq by (rule none)
  qed (rule eq, rule least)
qed

definition sample_reader :: reader_env where
  "sample_reader = \<lparr>parse_json = (\<lambda>t. Some (JDict [(''profile'', JDict [(''last_used'', JString ''..'')])])),
     string_to_int64 = (\<lambda>t. (True, int (length t))), to_utf16 = (\<lambda>t. t),
     gurl_of = (\<lambda>u. \<lparr>url_valid = True, url_spec = u, url_scheme = [], url_host = [], url_about_blank = False\<rparr>),
     from_time_t = (\<lambda>t. t), from_utf8 = (\<lambda>t. t), base_name = (\<lambda>t. t), references_parent = (\<lambda>t. t = ''..'')\<rparr>"

definition sample_files :: edge_files where
  "sample_files = \<lparr>PathExists = (\<lambda>p. last p = ''Cookies'' \<and> last (butlast p) \<noteq> ''Default''),
     DirectoryExists = (\<lambda>p. length p \<le> 3), IsDirectoryEmpty = (\<lambda>_. False), IsLink = (\<lambda>_. False),
     ReadFile = (\<lambda>p. if last p = ''Local State'' then Some ''x'' else None), ReadSymbolicLink = (\<lambda>_. None),
     EnumerateDirectories = (\<lambda>_. [''Profile aa'', ''Guest'', ''Profile a''])\<rparr>"

lemma sample_names: "preferred_names sample_reader sample_files [''r'', ''Microsoft Edge''] = [''Default'', ''Profile a'', ''Profile aa'']"
proof -
  have "named_profiles sample_reader sample_files [''r'', ''Microsoft Edge''] = [''..'']"
    by (simp add: named_profiles_def ReadLocalState_def sample_files_def sample_reader_def append_path_def
        kMaxLocalStateBytes_def dict_FindDict_def dict_FindString_def)
  moreover have "\<not> IsSafeProfileName sample_reader ''..''" by (simp add: IsSafeProfileName_def sample_reader_def Let_def)
  moreover have "scan_candidates sample_reader sample_files [''r'', ''Microsoft Edge''] = [''Profile a'', ''Profile aa'']"
    by (simp add: scan_candidates_def sample_files_def starts_with_def kProfilePrefix_def ProfileScanKey_def sample_reader_def)
  ultimately show ?thesis by (simp add: preferred_names_def)
qed

theorem first_usable_profile_is_read_witness:
  "ResolveEdgeProfileDir sample_reader sample_files [''r'', ''Microsoft Edge''] = [''r'', ''Microsoft Edge'', ''Profile a'']"
proof -
  have "\<not> CandidateUsable sample_files [''r'', ''Microsoft Edge'', ''Default'']"
    "CandidateUsable sample_files [''r'', ''Microsoft Edge'', ''Profile a'']"
    by (simp_all add: CandidateUsable_def HasEdgeProfileData_def sample_files_def append_path_def)
  then show ?thesis
    using first_usable_profile_is_read [of sample_reader sample_files "[''r'', ''Microsoft Edge'']"]
    by (simp add: sample_names first_usable_Cons append_path_def)
qed

text \<open>A name of one dot is safe to the code, although the directory it names is the user-data directory itself.\<close>

lemma dot_is_safe:
  assumes "from_utf8 env ''.'' = ''.''" and "base_name env ''.'' = ''.''" and "\<not> references_parent env ''.''"
  shows "IsSafeProfileName env ''.''"
  using assms by (simp add: IsSafeProfileName_def Let_def)

lemma data_is_available:
  assumes "HasEdgeProfileData fs d" and "adapter_profile_dir a = d"
  shows "(\<exists>n \<in> {''Bookmarks'', ''History'', ''Web Data''}. PathExists fs (append_path d n)) \<or> (\<exists>x. CarrierAvailable fs a x)"
proof -
  have "PathExists fs (append_path d ''Login Data'') \<longrightarrow> CarrierAvailable fs a kPasswords"
    "PathExists fs (append_path d ''Cookies'') \<longrightarrow> CarrierAvailable fs a kCookies"
    "DirectoryExists fs (append_path (append_path d ''Local Storage'') ''leveldb'') \<longrightarrow> CarrierAvailable fs a kLocalStorage"
    "DirectoryExists fs (append_path d ''IndexedDB'') \<longrightarrow> CarrierAvailable fs a kIndexedDb"
    using assms(2) by simp_all
  with assms(1) show ?thesis by (auto simp: HasEdgeProfileData_def simp del: CarrierAvailable.simps)
qed

lemma and_not_id: "x AND NOT y = x" if "x AND y = 0" for x y :: "16 word"
proof -
  have "x = x AND (y OR NOT y)" by simp
  also have "\<dots> = (x AND y) OR (x AND NOT y)" by (rule bit.conj_disj_distrib)
  finally show ?thesis using that by simp
qed

text \<open>The items of the utility half have no bit of the secrets.\<close>

definition utility_items_of :: "item_bits \<Rightarrow> 16 word list" where
  "utility_items_of bits = [HISTORY bits, FAVORITES bits, SEARCH_ENGINES bits, AUTOFILL_FORM_DATA bits]"

definition no_secret_bits :: "item_bits \<Rightarrow> bool" where
  "no_secret_bits bits \<longleftrightarrow> (\<forall>x \<in> set (utility_items_of bits). x AND (PASSWORDS bits OR COOKIES bits) = 0)"

text \<open>
  C39: what is detected is what both halves read. A detected profile lies in Edge's directory under the given root,
  which the driver recovers from it; its advertised items have no secret bit and pass the utility mask
  unchanged; and it has history, bookmarks or web data, or the preflight finds one of the
  coordinator's carriers available in the same directory.
\<close>

theorem detected_profile_is_importable:
  assumes "DetectEdgeSourceProfile bits env fs root = Some sp" and "no_secret_bits bits"
  shows "AppDataRootFromEdgeProfilePath (source_path sp) = root \<and>
    services_supported sp AND (PASSWORDS bits OR COOKIES bits) = 0 \<and>
    MaskEdgeSecretItemsForUtility bits feature sp (services_supported sp) = services_supported sp \<and>
    ((\<exists>n \<in> {''Bookmarks'', ''History'', ''Web Data''}. PathExists fs (append_path (source_path sp) n)) \<or>
     (\<exists>x. SourceAvailable (ComputeEdgeImportPreflight v fs (AppDataRootFromEdgeProfilePath (source_path sp))
            (source_path sp) dest UNIV) x))"
proof -
  let ?u = "append_path root ''Microsoft Edge''"
  have sp: "source_path sp = ResolveEdgeProfileDir env fs ?u" "source_path sp \<noteq> []"
    "services_supported sp = HISTORY bits OR FAVORITES bits OR SEARCH_ENGINES bits OR AUTOFILL_FORM_DATA bits"
    using assms(1) by (auto simp: DetectEdgeSourceProfile_def Let_def split: if_splits)
  have "source_path sp = first_usable fs ?u (preferred_names env fs ?u)"
    by (simp add: sp(1) ResolveEdgeProfileDir_def preferred_names_def from_local_state_first first_usable_append
        first_usable_Cons Let_def) (simp add: first_usable_def)
  with sp(2) obtain n where n: "source_path sp = append_path ?u n" "CandidateUsable fs (source_path sp)"
    by (auto simp: first_usable_def find_Some_iff split: option.splits)
  have root: "AppDataRootFromEdgeProfilePath (source_path sp) = root"
    by (simp add: AppDataRootFromEdgeProfilePath_def n(1))
  have no: "services_supported sp AND (PASSWORDS bits OR COOKIES bits) = 0"
    using assms(2) by (simp add: sp(3) no_secret_bits_def utility_items_of_def bit.conj_disj_distrib2)
  from and_not_id [OF no] have "MaskEdgeSecretItemsForUtility bits feature sp (services_supported sp) = services_supported sp"
    by (simp add: MaskEdgeSecretItemsForUtility_def MakeEdgeImportItemsPlan_def)
  moreover from n(2) have "HasEdgeProfileData fs (source_path sp)" by (simp add: CandidateUsable_def)
  from data_is_available [OF this, of "adapter_Detect v fs root (source_path sp)"]
  have "(\<exists>n \<in> {''Bookmarks'', ''History'', ''Web Data''}. PathExists fs (append_path (source_path sp) n)) \<or>
      (\<exists>x. SourceAvailable (ComputeEdgeImportPreflight v fs root (source_path sp) dest UNIV) x)"
    by (simp add: adapter_Detect_def SourceAvailable_def ComputeEdgeImportPreflight_def Let_def)
  ultimately show ?thesis using root no by simp
qed

theorem detected_profile_is_importable_witness:
  "\<exists>sp. DetectEdgeSourceProfile sample_bits sample_reader sample_files [''r''] = Some sp \<and>
     AppDataRootFromEdgeProfilePath (source_path sp) = [''r''] \<and> services_supported sp = 83 \<and>
     MaskEdgeSecretItemsForUtility sample_bits True sp 83 = 83"
proof -
  have resolved: "ResolveEdgeProfileDir sample_reader sample_files [''r'', ''Microsoft Edge''] \<noteq> []"
    by (simp add: ResolveEdgeProfileDir_def sample_names from_local_state_first Let_def)
      (simp add: scan_candidates_def CandidateUsable_def HasEdgeProfileData_def sample_files_def append_path_def
        starts_with_def kProfilePrefix_def ProfileScanKey_def sample_reader_def)
  then obtain sp where sp: "DetectEdgeSourceProfile sample_bits sample_reader sample_files [''r''] = Some sp"
    by (simp add: DetectEdgeSourceProfile_def append_path_def Let_def)
  have bits: "no_secret_bits sample_bits" by (simp add: no_secret_bits_def utility_items_of_def sample_bits_def)
  have "services_supported sp = 83"
    using sp by (auto simp: DetectEdgeSourceProfile_def Let_def sample_bits_def split: if_splits)
  with detected_profile_is_importable [OF sp bits, of True] sp show ?thesis by auto
qed

subsection \<open>Bookmarks are the leaves of the tree\<close>

text \<open>
  \<open>under env p n q m\<close>: the node \<open>m\<close> lies in the tree of \<open>n\<close>, and \<open>q\<close> is the path \<open>p\<close> of \<open>n\<close> followed by the titles
  of the folders from \<open>n\<close> to \<open>m\<close>.
\<close>

inductive under :: "reader_env \<Rightarrow> string list \<Rightarrow> json_dict \<Rightarrow> string list \<Rightarrow> json_dict \<Rightarrow> bool" for env where
  under_here: "under env p n p n"
| under_child: "dict_FindString n ''type'' = Some ''folder'' \<Longrightarrow> dict_FindString n ''name'' = Some name \<Longrightarrow>
    dict_FindList n ''children'' = Some cs \<Longrightarrow> JDict c \<in> set cs \<Longrightarrow> under env (p @ [to_utf16 env name]) c q m \<Longrightarrow>
    under env p n q m"

inductive_cases underE: "under env p n q m"

text \<open>What a node without children gives: an empty folder its own entry, a bookmark with a valid URL too.\<close>

inductive leaf :: "reader_env \<Rightarrow> bool \<Rightarrow> string list \<Rightarrow> json_dict \<Rightarrow> ImportedBookmarkEntry \<Rightarrow> bool" for env toolbar where
  leaf_folder: "dict_FindString m ''type'' = Some ''folder'' \<Longrightarrow> dict_FindString m ''name'' = Some name \<Longrightarrow>
    dict_FindList m ''children'' \<in> {None, Some []} \<Longrightarrow>
    leaf env toolbar q m (folder_entry toolbar q (to_utf16 env name))"
| leaf_url: "dict_FindString m ''type'' = Some ''url'' \<Longrightarrow> dict_FindString m ''name'' = Some name \<Longrightarrow>
    dict_FindString m ''url'' = Some url \<Longrightarrow> url_valid (gurl_of env url) \<Longrightarrow>
    leaf env toolbar q m (url_entry env m url toolbar q (to_utf16 env name))"

inductive_simps leaf_simps: "leaf env toolbar q m e"

definition collected :: "reader_env \<Rightarrow> bool \<Rightarrow> string list \<Rightarrow> json_dict \<Rightarrow> ImportedBookmarkEntry set" where
  "collected env toolbar p n = {e. \<exists>q m. under env p n q m \<and> leaf env toolbar q m e}"

lemma under_folder:
  assumes "dict_FindString n ''type'' = Some ''folder''" and "dict_FindString n ''name'' = Some name"
    and "dict_FindList n ''children'' = Some cs"
  shows "under env p n q m \<longleftrightarrow> q = p \<and> m = n \<or> (\<exists>c. JDict c \<in> set cs \<and> under env (p @ [to_utf16 env name]) c q m)"
proof
  assume "under env p n q m"
  then show "q = p \<and> m = n \<or> (\<exists>c. JDict c \<in> set cs \<and> under env (p @ [to_utf16 env name]) c q m)"
    by cases (use assms in simp_all, blast)
next
  assume "q = p \<and> m = n \<or> (\<exists>c. JDict c \<in> set cs \<and> under env (p @ [to_utf16 env name]) c q m)"
  then show "under env p n q m" using under_here under_child [OF assms] by blast
qed

lemma collected_folder:
  assumes "dict_FindString n ''type'' = Some ''folder''" and "dict_FindString n ''name'' = Some name"
    and "dict_FindList n ''children'' = Some cs" and "cs \<noteq> []"
  shows "collected env toolbar p n = (\<Union>c \<in> {c. JDict c \<in> set cs}. collected env toolbar (p @ [to_utf16 env name]) c)"
proof -
  have "\<not> leaf env toolbar p n e" for e using assms by (simp add: leaf_simps)
  then show ?thesis unfolding collected_def under_folder [OF assms(1-3)] by blast
qed

lemma collected_leaf:
  assumes "\<And>name cs. dict_FindString n ''type'' = Some ''folder'' \<Longrightarrow> dict_FindString n ''name'' = Some name \<Longrightarrow>
    dict_FindList n ''children'' = Some cs \<Longrightarrow> cs = []"
  shows "collected env toolbar p n = {e. leaf env toolbar p n e}"
proof -
  have "q = p \<and> m = n" if "under env p n q m" for q m
    using that
  proof cases
    case (under_child name cs c)
    with assms have "cs = []" by blast
    with under_child show ?thesis by simp
  qed simp
  then show ?thesis unfolding collected_def using under_here by blast
qed

lemma fold_collect:
  assumes "\<And>d out. JDict d \<in> set cs \<Longrightarrow> set (f d out) = set out \<union> g d"
  shows "set (fold (\<lambda>child out. case child of JDict d \<Rightarrow> f d out | _ \<Rightarrow> out) cs out) = set out \<union> (\<Union>d \<in> {d. JDict d \<in> set cs}. g d)"
  using assms
proof (induction cs arbitrary: out)
  case (Cons c cs)
  then show ?case by (cases c) auto
qed simp

lemma set_CollectBookmarks: "set (CollectBookmarks env n p toolbar out) = set out \<union> collected env toolbar p n"
proof (induction env n p toolbar out rule: CollectBookmarks.induct)
  case (1 env n p toolbar out)
  show ?case
  proof (cases "\<exists>name cs. dict_FindString n ''type'' = Some ''folder'' \<and> dict_FindString n ''name'' = Some name \<and>
      dict_FindList n ''children'' = Some cs \<and> cs \<noteq> []")
    case True
    then obtain name cs where n: "dict_FindString n ''type'' = Some ''folder''" "dict_FindString n ''name'' = Some name"
      "dict_FindList n ''children'' = Some cs" "cs \<noteq> []" by blast
    have "set (CollectBookmarks env d (p @ [to_utf16 env name]) toolbar out') = set out' \<union> collected env toolbar (p @ [to_utf16 env name]) d"
      if "JDict d \<in> set cs" for d out'
      using "1.IH" [OF n(1,2) refl refl n(3,4) that refl, of out'] .
    from fold_collect [OF this] show ?thesis
      by (simp add: CollectBookmarks.simps [of env n] n Let_def collected_folder [OF n])
  next
    case False
    then have "collected env toolbar p n = {e. leaf env toolbar p n e}" by (intro collected_leaf) blast
    then show ?thesis using False
      by (auto simp: CollectBookmarks.simps [of env n] Let_def leaf_simps split: option.splits)
  qed
qed

text \<open>The roots of a bookmarks file with their places, and the path the children of a root start from.\<close>

definition bookmark_roots :: "json_dict \<Rightarrow> (json_dict \<times> bool) set" where
  "bookmark_roots roots =
     {(root, toolbar). dict_FindDict roots ''bookmark_bar'' = Some root \<and> toolbar \<or>
        (dict_FindDict roots ''other'' = Some root \<or> dict_FindDict roots ''synced'' = Some root) \<and> \<not> toolbar}"

definition seed_of :: "reader_env \<Rightarrow> json_dict \<Rightarrow> bool \<Rightarrow> string list" where
  "seed_of env root toolbar =
     (if toolbar then [case dict_FindString root ''name'' of None \<Rightarrow> ''Bookmarks bar'' | Some n \<Rightarrow> to_utf16 env n] else [])"

definition root_entries :: "reader_env \<Rightarrow> json_dict \<Rightarrow> bool \<Rightarrow> ImportedBookmarkEntry set" where
  "root_entries env root toolbar =
     {e. \<exists>cs c. dict_FindList root ''children'' = Some cs \<and> JDict c \<in> set cs \<and> e \<in> collected env toolbar (seed_of env root toolbar) c}"

lemma set_CollectRoot: "set (CollectRoot env root toolbar out) = set out \<union> root_entries env root toolbar"
proof (cases "dict_FindList root ''children''")
  case (Some cs)
  show ?thesis unfolding CollectRoot_def Some Let_def option.case root_entries_def seed_of_def
    by (subst fold_collect [OF set_CollectBookmarks]) auto
qed (simp add: CollectRoot_def root_entries_def)

lemma set_CollectRoot_opt:
  "set (case d of None \<Rightarrow> out | Some root \<Rightarrow> CollectRoot env root toolbar out) =
     set out \<union> {e. \<exists>root. d = Some root \<and> e \<in> root_entries env root toolbar}"
  by (cases d) (auto simp: set_CollectRoot)

text \<open>The roots of a bookmarks file that can be read and parsed.\<close>

definition readable_roots :: "reader_env \<Rightarrow> edge_files \<Rightarrow> path \<Rightarrow> json_dict option" where
  "readable_roots env fs profile =
     (if \<not> PathExists fs (append_path profile ''Bookmarks'') then None
      else case Option.bind (ReadFile fs (append_path profile ''Bookmarks'')) (parse_json env) of
             Some (JDict d) \<Rightarrow> dict_FindDict d ''roots'' | _ \<Rightarrow> None)"

lemma ReadBookmarks_roots:
  "ReadBookmarks env fs profile =
     (case readable_roots env fs profile of
        None \<Rightarrow> []
      | Some roots \<Rightarrow>
          let e1 = (case dict_FindDict roots ''bookmark_bar'' of None \<Rightarrow> [] | Some bar \<Rightarrow> CollectRoot env bar True []);
              e2 = (case dict_FindDict roots ''other'' of None \<Rightarrow> e1 | Some node \<Rightarrow> CollectRoot env node False e1)
          in (case dict_FindDict roots ''synced'' of None \<Rightarrow> e2 | Some node \<Rightarrow> CollectRoot env node False e2))"
  by (simp add: ReadBookmarks_def readable_roots_def Let_def split: option.split json.split)

text \<open>
  C22: the imported bookmarks are the leaves of the tree. For a readable bookmarks file, an entry is
  imported exactly if it is that of an empty folder or of a bookmark with a valid URL somewhere below the bar, the
  other or the synced root, and its path is the titles of the folders above it, below
  the bar after one leading name. Nothing is lost, nothing else is imported, and nothing of a file that cannot be read.
\<close>

theorem bookmarks_are_the_leaves:
  "set (ReadBookmarks env fs profile) =
     {e. \<exists>roots root toolbar cs c q m. readable_roots env fs profile = Some roots \<and> (root, toolbar) \<in> bookmark_roots roots \<and>
        dict_FindList root ''children'' = Some cs \<and> JDict c \<in> set cs \<and>
        under env (seed_of env root toolbar) c q m \<and> leaf env toolbar q m e}"
proof (cases "readable_roots env fs profile")
  case (Some roots)
  have "set (ReadBookmarks env fs profile) = {e. \<exists>(root, toolbar) \<in> bookmark_roots roots. e \<in> root_entries env root toolbar}"
    unfolding ReadBookmarks_roots Some option.case Let_def set_CollectRoot_opt bookmark_roots_def
    by (cases "dict_FindDict roots ''bookmark_bar''") (auto simp: set_CollectRoot)
  also have "\<dots> = {e. \<exists>root toolbar cs c q m. (root, toolbar) \<in> bookmark_roots roots \<and>
        dict_FindList root ''children'' = Some cs \<and> JDict c \<in> set cs \<and>
        under env (seed_of env root toolbar) c q m \<and> leaf env toolbar q m e}"
    unfolding root_entries_def collected_def by blast
  finally show ?thesis unfolding Some by simp
qed (simp add: ReadBookmarks_roots)

subsection \<open>What the bridge hears\<close>

lemma history_row_facts: "history_row env r = Some x \<Longrightarrow> url_valid (row_url x) \<and> last_visit x = u_last_visit_time r \<and> last_visit x > 0"
  by (auto simp: history_row_def FromChromeTime_def Let_def split: if_splits)

lemma set_map_filter: "set (List.map_filter f xs) = {y. \<exists>x \<in> set xs. f x = Some y}"
  by (force simp: List.map_filter_def)

lemma map_filter_sorted:
  assumes "sorted_wrt R xs" and "\<And>a b x y. R a b \<Longrightarrow> f a = Some x \<Longrightarrow> f b = Some y \<Longrightarrow> S x y"
  shows "sorted_wrt S (List.map_filter f xs)"
  using assms(1)
proof (induction xs)
  case (Cons a xs)
  then show ?case using assms(2) by (auto simp: map_filter_simps set_map_filter split: option.split)
qed (simp add: map_filter_simps)

lemma ReadHistory_newest_first:
  "sorted_wrt (\<lambda>a b. last_visit b \<le> last_visit a) (ReadHistory env db)"
  "r \<in> set (ReadHistory env db) \<Longrightarrow> url_valid (row_url r) \<and> last_visit r > 0"
proof -
  let ?rows = "history_statement (db_rows db)"
  have "sorted_wrt (\<lambda>a b. u_last_visit_time b \<le> u_last_visit_time a) ?rows"
    using sorted_sort_key [of "\<lambda>r. - u_last_visit_time r" "filter (\<lambda>r. u_hidden r = 0) (db_rows db)"]
    by (simp add: history_statement_def sorted_map)
  then have "sorted_wrt (\<lambda>a b. last_visit b \<le> last_visit a) (List.map_filter (history_row env) ?rows)"
    by (rule map_filter_sorted) (auto dest!: history_row_facts)
  then show "sorted_wrt (\<lambda>a b. last_visit b \<le> last_visit a) (ReadHistory env db)" by (simp add: ReadHistory_def)
  show "r \<in> set (ReadHistory env db) \<Longrightarrow> url_valid (row_url r) \<and> last_visit r > 0"
    by (auto simp: ReadHistory_def set_map_filter dest: history_row_facts split: if_splits)
qed

lemma masked_item:
  assumes "x AND (PASSWORDS bits OR COOKIES bits) = 0"
  shows "MaskEdgeSecretItemsForUtility bits feature sp items AND x = items AND x"
proof -
  have "(items AND NOT (PASSWORDS bits OR COOKIES bits)) AND x = items AND x"
    using and_not_id [OF assms] by (metis and.assoc and.commute)
  then show ?thesis by (simp add: MaskEdgeSecretItemsForUtility_def MakeEdgeImportItemsPlan_def del: bit.de_Morgan_disj)
qed

lemma masked_calls:
  assumes "no_secret_bits bits"
  shows "StartImport bits env src sp (MaskEdgeSecretItemsForUtility bits feature sp items) = StartImport bits env src sp items"
  using assms unfolding no_secret_bits_def StartImport_def
  by (simp add: import_item_def masked_item utility_items_of_def del: bit.conj_disj_distrib bit.conj_disj_distrib2)

lemma announced_items:
  "{x. NotifyItemStarted x \<in> set (StartImport bits env src sp items)} = {x \<in> set (utility_items_of bits). items AND x \<noteq> 0}"
  by (auto simp: StartImport_def import_item_def utility_items_of_def)

text \<open>
  Masking the secrets loses nothing of the utility half. The importer makes the same calls for the masked
  items as for the selected ones; it only ever announces the four items of its own; and the history
  it hands over is not empty, newest first, with valid URLs and no null times.
\<close>

theorem utility_import_needs_no_secrets:
  assumes "no_secret_bits bits"
  shows "StartImport bits env src sp (MaskEdgeSecretItemsForUtility bits feature sp items) = StartImport bits env src sp items \<and>
    {x. NotifyItemStarted x \<in> set (StartImport bits env src sp items)} = {x \<in> set (utility_items_of bits). items AND x \<noteq> 0} \<and>
    (\<forall>rows. SetHistoryItems rows \<in> set (StartImport bits env src sp items) \<longrightarrow>
       rows \<noteq> [] \<and> sorted_wrt (\<lambda>a b. last_visit b \<le> last_visit a) rows \<and>
       (\<forall>r \<in> set rows. url_valid (row_url r) \<and> last_visit r > 0))"
proof -
  have "rows = ReadHistory env (history_db src) \<and> rows \<noteq> []"
    if "SetHistoryItems rows \<in> set (StartImport bits env src sp items)" for rows
    using that by (auto simp: StartImport_def import_item_def split: if_splits)
  then show ?thesis using masked_calls [OF assms] announced_items ReadHistory_newest_first by blast
qed

definition sample_source :: edge_source where
  "sample_source = \<lparr>source_files = sample_files,
     history_db = \<lparr>db_exists = True, db_temp_ok = True, db_copy_ok = True, db_open_ok = True, db_schema_ok = True,
       db_rows = [\<lparr>u_url = ''a'', u_title = ''A'', u_visit_count = 1, u_typed_count = 0, u_last_visit_time = 5, u_hidden = 0\<rparr>,
                  \<lparr>u_url = ''b'', u_title = ''B'', u_visit_count = 0, u_typed_count = 0, u_last_visit_time = 0, u_hidden = 0\<rparr>]\<rparr>,
     keywords_db = \<lparr>db_exists = False, db_temp_ok = True, db_copy_ok = True, db_open_ok = True, db_schema_ok = True, db_rows = []\<rparr>,
     autofill_db = \<lparr>db_exists = False, db_temp_ok = True, db_copy_ok = True, db_open_ok = True, db_schema_ok = True, db_rows = []\<rparr>\<rparr>"

definition sample_profile :: SourceProfile where
  "sample_profile = \<lparr>importer_name = ''Microsoft Edge'', is_edge_chromium = True,
     source_path = [''r'', ''Microsoft Edge'', ''Profile a''], services_supported = 83\<rparr>"

theorem utility_import_needs_no_secrets_witness:
  "StartImport sample_bits sample_reader sample_source sample_profile (MaskEdgeSecretItemsForUtility sample_bits True sample_profile 9) =
     StartImport sample_bits sample_reader sample_source sample_profile 9 \<and>
   {x. NotifyItemStarted x \<in> set (StartImport sample_bits sample_reader sample_source sample_profile 9)} = {1}"
proof -
  have "no_secret_bits sample_bits" by (simp add: no_secret_bits_def utility_items_of_def sample_bits_def)
  moreover have "{x \<in> set (utility_items_of sample_bits). 9 AND x \<noteq> 0} = {1}"
    by (auto simp: utility_items_of_def sample_bits_def)
  ultimately show ?thesis
    using utility_import_needs_no_secrets [of sample_bits sample_reader sample_source sample_profile True 9] by simp
qed

end
