(* ===== verification/Edge_Driver.thy ===== *)
theory Edge_Driver
  imports Edge_Whole Edge_Reader
begin

text \<open>
  What \<open>roamux_edge_import_driver.cc\<close> makes of a selection of items: the mask for the utility process, whose importer
  is in theory Edge_Reader, and the driver with its coordinator and stages, which are in theory Edge_Whole. Both functions are
  hooks for Chromium's importer host. As their header says, nothing in the repository calls them yet; so
  what follows is about each hook's own result for one and the same selection.
\<close>

text \<open>The driver that the hook starts runs the import of its plan's carriers.\<close>

lemma hook_starts_import:
  assumes "is_edge_chromium sp"
  shows "\<exists>c0. MaybeStartEdgeBrowserSideImport (bits_of p) True sp items =
      Some (AppDataRootFromEdgeProfilePath (source_path sp), source_path sp, Inr c0) \<and>
    (import_step p s ^^ 5) (c0, t) = import_edge p s True (plan_carriers (MakeEdgeImportItemsPlan (bits_of p) items)) t"
  using assms by (simp add: MaybeStartEdgeBrowserSideImport_def driver_Start_def import_edge_def Let_def)

lemma plan_carriers_iff:
  "x \<in> plan_carriers (MakeEdgeImportItemsPlan bits items) \<longleftrightarrow>
     (case x of kPasswords \<Rightarrow> items AND PASSWORDS bits \<noteq> 0 | kCookies \<Rightarrow> items AND COOKIES bits \<noteq> 0 | _ \<Rightarrow> True)"
  by (cases x) (simp_all add: MakeEdgeImportItemsPlan_def)

lemma plan_carriers_set:
  "plan_carriers (MakeEdgeImportItemsPlan bits items) =
     {x. case x of kPasswords \<Rightarrow> items AND PASSWORDS bits \<noteq> 0 | kCookies \<Rightarrow> items AND COOKIES bits \<noteq> 0 | _ \<Rightarrow> True}"
  using plan_carriers_iff by blast

text \<open>
  C11: the driver splits a selection without loss. With the feature on and an Edge profile, the mask leaves no
  secret item, and the importer of the utility process makes exactly the calls for it that it would make for the
  whole selection, announcing each selected item of its own four and nothing else; and the hook starts a
  coordinator on the profile's directory that ends with one report of passwords and cookies exactly if they were selected
  and of localStorage and IndexedDB always, each once, with as many items arrived as it counts, an import only
  claimed with something imported from a source that was there while Edge did not run; what was not selected is
  not written. With the feature off, or for another browser's profile, the mask changes nothing and the hook starts nothing.
\<close>

theorem driver_splits_the_selection:
  assumes "bits_ok (bits_of p)" and "no_secret_bits (bits_of p)"
    and "distinct (map fst (ListFirstPartyIndexedDbStores (indexed_db_dir s)))"
    and "masked = MaskEdgeSecretItemsForUtility (bits_of p) feature sp items"
  shows "if feature \<and> is_edge_chromium sp
     then masked AND (PASSWORDS (bits_of p) OR COOKIES (bits_of p)) = 0 \<and>
       StartImport (bits_of p) env src sp masked = StartImport (bits_of p) env src sp items \<and>
       {x. NotifyItemStarted x \<in> set (StartImport (bits_of p) env src sp masked)} =
         {x \<in> set (utility_items_of (bits_of p)). items AND x \<noteq> 0} \<and>
       (\<exists>c0 c t. MaybeStartEdgeBrowserSideImport (bits_of p) feature sp items =
            Some (AppDataRootFromEdgeProfilePath (source_path sp), source_path sp, Inr c0) \<and>
          (import_step p s ^^ 5) (c0, t0) = (c, t) \<and> awaiting c = Finished \<and> done_reports c = [report c] \<and>
          distinct (map carrier (outcomes (report c))) \<and>
          set (map carrier (outcomes (report c))) = {x. case x of kPasswords \<Rightarrow> items AND PASSWORDS (bits_of p) \<noteq> 0
             | kCookies \<Rightarrow> items AND COOKIES (bits_of p) \<noteq> 0 | _ \<Rightarrow> True} \<and>
          (\<forall>x \<in> set (outcomes (report c)). arrived p s t0 t (carrier x) (carrier_item_count x) \<and>
             honest (source_of c) (running_of c) x) \<and>
          (items AND PASSWORDS (bits_of p) = 0 \<longrightarrow> stored_passwords t = stored_passwords t0) \<and>
          (items AND COOKIES (bits_of p) = 0 \<longrightarrow> stored_cookies t = stored_cookies t0))
     else masked = items \<and> MaybeStartEdgeBrowserSideImport (bits_of p) feature sp items = None"
    (is "if _ then _ \<and> _ \<and> _ \<and> ?browser else _")
proof (cases "feature \<and> is_edge_chromium sp")
  case True
  let ?cs = "plan_carriers (MakeEdgeImportItemsPlan (bits_of p) items)"
  obtain c t where run: "import_edge p s True ?cs t0 = (c, t)" by fastforce
  then obtain c0 where hook: "MaybeStartEdgeBrowserSideImport (bits_of p) feature sp items =
      Some (AppDataRootFromEdgeProfilePath (source_path sp), source_path sp, Inr c0)" "(import_step p s ^^ 5) (c0, t0) = (c, t)"
    using hook_starts_import [of sp p items s t0] True by auto
  have o: "told p s t0 c t" "complete ?cs c" using import_edge_outcome [OF assms(1,3) run] by simp_all
  then have r: "reports ?cs c" by (simp add: complete_def)
  have arr: "\<forall>x \<in> set (outcomes (report c)). arrived p s t0 t (carrier x) (carrier_item_count x) \<and> honest (source_of c) (running_of c) x"
    using told_arrived [OF o(1)] count_is_outcome [OF r] r by (metis reports_def all_honest_def)
  have none: "arrived p s t0 t x 0" if "x \<notin> ?cs" for x
    using told_arrived [OF o(1), of x] count_not_reported [OF r that] by simp
  have "stored_passwords t = stored_passwords t0" if "items AND PASSWORDS (bits_of p) = 0"
    using none [of kPasswords] that by (simp add: plan_carriers_iff arrived_def)
  moreover have "stored_cookies t = stored_cookies t0" if "items AND COOKIES (bits_of p) = 0"
    using none [of kCookies] that by (simp add: plan_carriers_iff arrived_def)
  moreover have "awaiting c = Finished" "done_reports c = [report c]" "distinct (map carrier (outcomes (report c)))"
    "set (map carrier (outcomes (report c))) = ?cs"
    using o(2) r by (simp_all add: complete_def reports_def reported_def)
  ultimately have browser: ?browser
    using hook arr unfolding plan_carriers_set by (intro exI [of _ c0] exI [of _ c] exI [of _ t]) simp
  have "masked AND (PASSWORDS (bits_of p) OR COOKIES (bits_of p)) = 0"
    using True by (simp add: assms(4) MaskEdgeSecretItemsForUtility_def MakeEdgeImportItemsPlan_def and.assoc del: bit.de_Morgan_disj)
  moreover have same: "StartImport (bits_of p) env src sp masked = StartImport (bits_of p) env src sp items"
    using masked_calls [OF assms(2)] by (simp add: assms(4))
  ultimately show ?thesis using True browser announced_items unfolding same by simp
next
  case False
  then show ?thesis
    by (auto simp: assms(4) MaskEdgeSecretItemsForUtility_def MaybeStartEdgeBrowserSideImport_def)
qed

text \<open>History and passwords selected from the sample profile.\<close>

theorem driver_splits_the_selection_witness:
  "\<exists>c0 c t. MaybeStartEdgeBrowserSideImport sample_bits True sample_profile 9 =
       Some (AppDataRootFromEdgeProfilePath (source_path sample_profile), source_path sample_profile, Inr c0) \<and>
     (import_step platform_sample edge_sample ^^ 5) (c0, empty_target) = (c, t) \<and>
     set (map carrier (outcomes (report c))) = {kPasswords, kLocalStorage, kIndexedDb} \<and> stored_cookies t = []"
proof -
  have ok: "bits_ok (bits_of platform_sample)" "no_secret_bits (bits_of platform_sample)"
    "distinct (map fst (ListFirstPartyIndexedDbStores (indexed_db_dir edge_sample)))"
    by (simp_all add: platform_sample_def sample_bits_ok no_secret_bits_def utility_items_of_def sample_bits_def bits_ok_def
        edge_sample_def two_origins_stores)
  have edge: "True \<and> is_edge_chromium sample_profile" by (simp add: sample_profile_def)
  have bits: "bits_of platform_sample = sample_bits" by (simp add: platform_sample_def)
  have carriers: "{x. case x of kPasswords \<Rightarrow> (9 :: 16 word) AND PASSWORDS sample_bits \<noteq> 0
      | kCookies \<Rightarrow> 9 AND COOKIES sample_bits \<noteq> 0 | _ \<Rightarrow> True} = {kPasswords, kLocalStorage, kIndexedDb}"
  proof (rule set_eqI)
    show "x \<in> {x. case x of kPasswords \<Rightarrow> (9 :: 16 word) AND PASSWORDS sample_bits \<noteq> 0
        | kCookies \<Rightarrow> 9 AND COOKIES sample_bits \<noteq> 0 | _ \<Rightarrow> True} \<longleftrightarrow> x \<in> {kPasswords, kLocalStorage, kIndexedDb}" for x
      by (cases x) (simp_all add: sample_bits_def)
  qed
  have none: "(9 :: 16 word) AND COOKIES sample_bits = 0" "stored_cookies empty_target = []"
    by (simp_all add: sample_bits_def empty_target_def)
  note H = driver_splits_the_selection [OF ok refl, of True sample_profile 9 sample_reader sample_source empty_target]
  note H' = H [unfolded bits carriers if_P [OF edge]]
  obtain c0 c t where ct: "MaybeStartEdgeBrowserSideImport sample_bits True sample_profile 9 =
      Some (AppDataRootFromEdgeProfilePath (source_path sample_profile), source_path sample_profile, Inr c0)"
    "(import_step platform_sample edge_sample ^^ 5) (c0, empty_target) = (c, t)"
    "set (map carrier (outcomes (report c))) = {kPasswords, kLocalStorage, kIndexedDb}"
    "(9 :: 16 word) AND COOKIES sample_bits = 0 \<longrightarrow> stored_cookies t = stored_cookies empty_target"
    using H' by (elim conjE exE)
  then show ?thesis using none by (intro exI [of _ c0] exI [of _ c] exI [of _ t] conjI) simp_all
qed

end
