(* ===== verification/Histories.thy ===== *)
theory Histories
  imports Prelude
begin

text \<open>
  Histories of a component: a step function run over a list of events. Each locale is an interface a step
  function can offer, with what it gives for every history; the components interpret them on their own steps.
\<close>

text \<open>Every allowed event keeps a predicate.\<close>

locale keeps =
  fixes step :: "'e \<Rightarrow> 's \<Rightarrow> 's" and allowed :: "'e \<Rightarrow> bool" and holds :: "'s \<Rightarrow> bool"
  assumes step_keeps: "holds s \<Longrightarrow> allowed e \<Longrightarrow> holds (step e s)"
begin

lemma history_keeps: "holds s \<Longrightarrow> list_all allowed es \<Longrightarrow> holds (fold step es s)"
  by (induction es arbitrary: s) (simp_all add: step_keeps)

end

text \<open>Every event moves the state along a preorder.\<close>

locale moves =
  fixes step :: "'e \<Rightarrow> 's \<Rightarrow> 's" and along :: "'s \<Rightarrow> 's \<Rightarrow> bool"
  assumes along_refl: "along s s"
    and along_trans: "along s t \<Longrightarrow> along t u \<Longrightarrow> along s u"
    and step_moves: "along s (step e s)"
begin

lemma history_moves: "along s (fold step es s)"
proof (induction es arbitrary: s)
  case (Cons e es)
  from along_trans [OF step_moves Cons] show ?case by simp
qed (simp add: along_refl)

end

text \<open>Every event adds its share to a total, or its entry to a log.\<close>

locale adds =
  fixes step :: "'e \<Rightarrow> 's \<Rightarrow> 's" and total :: "'s \<Rightarrow> 'a::comm_monoid_add" and share :: "'e \<Rightarrow> 'a"
  assumes step_adds: "total (step e s) = total s + share e"
begin

lemma history_adds: "total (fold step es s) = total s + sum_list (map share es)"
  by (induction es arbitrary: s) (simp_all add: step_adds ac_simps)

end

locale logs =
  fixes step :: "'e \<Rightarrow> 's \<Rightarrow> 's" and log_of :: "'s \<Rightarrow> 'b list" and entry :: "'e \<Rightarrow> 'b option"
  assumes step_logs: "log_of (step e s) = log_of s @ List.map_filter entry [e]"
begin

lemma history_logs: "log_of (fold step es s) = log_of s @ List.map_filter entry es"
  by (induction es arbitrary: s) (simp_all add: step_logs map_filter_simps split: option.split)

end

end
