(* ===== verification/Proxy.thy ===== *)
theory Proxy
  imports Json_Values Histories
begin

text \<open>
  The per-profile proxy: \<open>roamux/browser/proxy/proxy_config_builder.cc\<close>, which turns the typed form
  into a stored configuration or a rejection, and the settings page's handler
  \<open>roamux/browser/ui/webui/roamux_proxy_handler.cc\<close>. Chromium's parsers, its proxy servers
  and its configuration dictionaries are arguments; the proxy preference is its value in each layer.
\<close>

subsection \<open>What Chromium provides\<close>

datatype ProxyScheme = SCHEME_HTTP | SCHEME_HTTPS | SCHEME_SOCKS5 | SCHEME_OTHER

datatype ProxyMode = MODE_DIRECT | MODE_AUTO_DETECT | MODE_PAC_SCRIPT | MODE_FIXED_SERVERS | MODE_SYSTEM

text \<open>The preference: each layer's value. The first one set, in this order, is in effect.\<close>

record 'd layered_pref =
  policy_layer :: "'d option"
  extension_layer :: "'d option"
  command_line_layer :: "'d option"
  user_layer :: "'d option"
  recommended_layer :: "'d option"
  default_layer :: 'd

fun first_some :: "'a option list \<Rightarrow> 'a \<Rightarrow> 'a" where
  "first_some [] d = d"
| "first_some (None # xs) d = first_some xs d"
| "first_some (Some x # xs) d = x"

definition layered_value :: "'d layered_pref \<Rightarrow> 'd" where
  "layered_value p =
     first_some [policy_layer p, extension_layer p, command_line_layer p, user_layer p, recommended_layer p] (default_layer p)"

definition PolicyManaged :: "'d layered_pref \<Rightarrow> bool" where "PolicyManaged p \<longleftrightarrow> policy_layer p \<noteq> None"

definition IsExtensionControlled :: "'d layered_pref \<Rightarrow> bool" where
  "IsExtensionControlled p \<longleftrightarrow> policy_layer p = None \<and> extension_layer p \<noteq> None"

definition IsUserModifiable :: "'d layered_pref \<Rightarrow> bool" where
  "IsUserModifiable p \<longleftrightarrow> policy_layer p = None \<and> extension_layer p = None \<and> command_line_layer p = None"

definition HasUserSetting :: "'d layered_pref \<Rightarrow> bool" where "HasUserSetting p \<longleftrightarrow> user_layer p \<noteq> None"

datatype pref_layer = In_policy | In_extension | In_command_line | In_user | In_recommended | In_default

definition controlling :: "'d layered_pref \<Rightarrow> pref_layer" where
  "controlling p =
     (if policy_layer p \<noteq> None then In_policy else if extension_layer p \<noteq> None then In_extension
      else if command_line_layer p \<noteq> None then In_command_line else if user_layer p \<noteq> None then In_user
      else if recommended_layer p \<noteq> None then In_recommended else In_default)"

text \<open>What of a preference its readers can see: which layer controls it, and the value in effect.\<close>

definition in_effect :: "'d layered_pref \<Rightarrow> pref_layer \<times> 'd" where
  "in_effect p = (controlling p, layered_value p)"

text \<open>
  The override rules' preference, and the three that decide whether the rules are eligible: for all users, their
  scope and their affiliation.
\<close>

record rules_pref =
  rules_list :: "json list"
  rules_managed :: bool
  rules_extension :: bool

record eligibility =
  enabled_for_all_users :: json
  rules_scope :: json
  rules_affiliation :: json

text \<open>
  \<open>'s\<close> is a proxy server, \<open>'d\<close> a configuration dictionary. \<open>parse_rules\<close> gives whether the text is a
  proxy list, and its chains; \<open>rules_text\<close> is the text of the accepted bypass rules.
  \<open>engine_rules\<close> is whether the engine's own reader of the preferences finds a rule it applies. The last three
  fields say of a change of a preference, from its old and its new value, whether its observers hear of it.
\<close>

record ('s, 'd) proxy_env =
  unescape :: "string \<Rightarrow> string"
  string_to_uint :: "string \<Rightarrow> nat option"
  number_text :: "nat \<Rightarrow> string"
  server_of :: "ProxyScheme \<Rightarrow> string \<Rightarrow> nat \<Rightarrow> 's"
  server_valid :: "'s \<Rightarrow> bool"
  server_uri :: "'s \<Rightarrow> string"
  uri_server :: "string \<Rightarrow> 's"
  server_scheme :: "'s \<Rightarrow> ProxyScheme"
  server_host :: "'s \<Rightarrow> string"
  server_port :: "'s \<Rightarrow> nat"
  parse_rules :: "string \<Rightarrow> bool \<times> 's list list"
  split_bypass :: "string \<Rightarrow> string list"
  rule_accepted :: "string \<Rightarrow> bool"
  rules_text :: "string list \<Rightarrow> string"
  pac_gurl :: "string \<Rightarrow> gurl"
  data_url_ok :: "gurl \<Rightarrow> bool"
  CreateDirect :: 'd
  CreateFixedServers :: "string \<Rightarrow> string \<Rightarrow> 'd"
  CreatePacScript :: "string \<Rightarrow> bool \<Rightarrow> 'd"
  GetMode :: "'d \<Rightarrow> ProxyMode option"
  GetProxyServer :: "'d \<Rightarrow> string option"
  GetBypassList :: "'d \<Rightarrow> string option"
  GetPacUrl :: "'d \<Rightarrow> string option"
  GetPacMandatory :: "'d \<Rightarrow> bool option"
  engine_rules :: "pref_layer \<times> 'd \<Rightarrow> rules_pref \<Rightarrow> eligibility \<Rightarrow> bool"
  hears_proxy :: "'d layered_pref \<Rightarrow> 'd layered_pref \<Rightarrow> bool"
  hears_rules :: "rules_pref \<Rightarrow> rules_pref \<Rightarrow> bool"
  hears_value :: "json \<Rightarrow> json \<Rightarrow> bool"

subsection \<open>The builder\<close>

datatype BuildMode = kSystem | kDirect | kManual | kPac

record Input =
  in_mode :: BuildMode
  in_scheme :: string
  in_host :: string
  in_port :: string
  in_bypass_list :: string
  in_pac_url :: string
  in_pac_mandatory :: bool

text \<open>A rejection (field and reason), the instruction to clear the preference, or a dictionary to store.\<close>

datatype 'd Outcome = Reject string string | Clear_pref | Store 'd

definition HasListSyntax :: "string \<Rightarrow> bool" where
  "HasListSyntax v \<longleftrightarrow> list_ex (\<lambda>c. c \<in> set '',;='') v"

definition HasCredentials :: "string \<Rightarrow> bool" where
  "HasCredentials host \<longleftrightarrow> CHR ''@'' \<in> set host"

definition HasSpaceOrControl :: "string \<Rightarrow> bool" where
  "HasSpaceOrControl v \<longleftrightarrow> list_ex (\<lambda>c. of_char c \<le> (32 :: nat) \<or> of_char c = (0x7f :: nat)) v"

definition ParseScheme :: "string \<Rightarrow> ProxyScheme option" where
  "ParseScheme s =
     (if s = ''http'' then Some SCHEME_HTTP else if s = ''https'' then Some SCHEME_HTTPS
      else if s = ''socks5'' then Some SCHEME_SOCKS5 else None)"

definition SurvivesAsSingleEndpoint :: "('s, 'd) proxy_env \<Rightarrow> string \<Rightarrow> 's \<Rightarrow> bool" where
  "SurvivesAsSingleEndpoint env uri server =
     (let (is_list, chains) = parse_rules env uri
      in is_list \<and> length chains = 1 \<and> length (hd chains) = 1 \<and> hd (hd chains) = server)"

fun add_rules :: "('s, 'd) proxy_env \<Rightarrow> string list \<Rightarrow> string list \<Rightarrow> string + string list" where
  "add_rules env [] rules = Inr rules"
| "add_rules env (e # es) rules = (if \<not> rule_accepted env e then Inl e else add_rules env es (rules @ [e]))"

definition has_path_syntax :: "string \<Rightarrow> bool" where
  "has_path_syntax v \<longleftrightarrow> list_ex (\<lambda>c. c \<in> set ''/?#'') v"

definition parse_port :: "('s, 'd) proxy_env \<Rightarrow> string \<Rightarrow> nat option" where
  "parse_port env p =
     (if p = [] \<or> \<not> list_all (\<lambda>c. c \<in> set ''0123456789'') p then None
      else case string_to_uint env p of
             None \<Rightarrow> None
           | Some port \<Rightarrow> if port = 0 \<or> port > 65535 then None else Some port)"

definition BuildManual :: "('s, 'd) proxy_env \<Rightarrow> Input \<Rightarrow> 'd Outcome" where
  "BuildManual env input =
     (case ParseScheme (in_scheme input) of
        None \<Rightarrow> Reject ''scheme'' ''scheme''
      | Some scheme \<Rightarrow>
          let host = in_host input; decoded_host = unescape env host
          in if HasCredentials host then Reject ''host'' (if scheme = SCHEME_SOCKS5 then ''socks5_no_auth'' else ''userinfo'')
             else if HasListSyntax host \<or> HasListSyntax decoded_host then Reject ''host'' ''list_syntax''
             else if host = [] then Reject ''host'' ''host''
             else if has_path_syntax host \<or> has_path_syntax decoded_host \<or>
                     HasSpaceOrControl host \<or> HasSpaceOrControl decoded_host then Reject ''host'' ''not_an_endpoint''
             else case parse_port env (in_port input) of
                    None \<Rightarrow> Reject ''port'' ''port''
                  | Some port \<Rightarrow>
                      let server = server_of env scheme host port
                      in if \<not> server_valid env server then Reject ''host'' ''host''
                         else let uri = server_uri env server
                              in if \<not> SurvivesAsSingleEndpoint env uri server then Reject ''host'' ''list_syntax''
                                 else case add_rules env (split_bypass env (in_bypass_list input)) [] of
                                        Inl e \<Rightarrow> Reject ''bypass'' e
                                      | Inr rules \<Rightarrow> Store (CreateFixedServers env uri (rules_text env rules)))"

definition BuildPac :: "('s, 'd) proxy_env \<Rightarrow> Input \<Rightarrow> 'd Outcome" where
  "BuildPac env input =
     (let url = pac_gurl env (in_pac_url input)
      in if \<not> url_valid url then Reject ''pac_url'' ''pac_url''
         else let is_data = (url_scheme url = ''data'')
              in if url_scheme url \<noteq> ''http'' \<and> url_scheme url \<noteq> ''https'' \<and> \<not> is_data then Reject ''pac_url'' ''pac_scheme''
                 else if is_data \<and> \<not> data_url_ok env url then Reject ''pac_url'' ''pac_data_url''
                 else Store (CreatePacScript env (in_pac_url input) (in_pac_mandatory input)))"

definition Build :: "('s, 'd) proxy_env \<Rightarrow> Input \<Rightarrow> 'd Outcome" where
  "Build env input =
     (case in_mode input of
        kSystem \<Rightarrow> Clear_pref
      | kDirect \<Rightarrow> Store (CreateDirect env)
      | kManual \<Rightarrow> BuildManual env input
      | kPac \<Rightarrow> BuildPac env input)"

subsection \<open>The settings handler\<close>

definition ModeToken :: "ProxyMode \<Rightarrow> string" where
  "ModeToken m =
     (case m of MODE_DIRECT \<Rightarrow> ''direct'' | MODE_FIXED_SERVERS \<Rightarrow> ''manual'' | MODE_PAC_SCRIPT \<Rightarrow> ''pac''
      | MODE_AUTO_DETECT \<Rightarrow> ''auto_detect'' | MODE_SYSTEM \<Rightarrow> ''system'')"

definition StringField :: "json_dict \<Rightarrow> string \<Rightarrow> string" where
  "StringField form k = (case dict_FindString form k of None \<Rightarrow> [] | Some v \<Rightarrow> v)"

definition ToInput :: "json_dict \<Rightarrow> Input option" where
  "ToInput form =
     (let m = StringField form ''mode'';
          mode = (if m = ''system'' then Some kSystem else if m = ''direct'' then Some kDirect
                  else if m = ''manual'' then Some kManual else if m = ''pac'' then Some kPac else None)
      in case mode of
           None \<Rightarrow> None
         | Some mode \<Rightarrow>
             Some \<lparr>in_mode = mode, in_scheme = StringField form ''scheme'', in_host = StringField form ''host'',
                   in_port = StringField form ''port'', in_bypass_list = StringField form ''bypassList'',
                   in_pac_url = StringField form ''pacUrl'',
                   in_pac_mandatory = (case dict_FindBool form ''pacMandatory'' of None \<Rightarrow> True | Some b \<Rightarrow> b)\<rparr>)"

record proxy_state =
  st_mode :: string
  st_endpoint :: "(string \<times> string \<times> string) option"
  st_bypass :: "string option"
  st_pac_url :: "string option"
  st_pac_mandatory :: "bool option"
  st_base_owner :: string
  st_controller_name :: string
  st_extension_scope :: "string option"
  st_rules_configured :: bool
  st_rules_active :: bool
  st_rules_owner :: string
  st_can_edit :: bool
  st_can_reset :: bool
  st_has_our_value :: bool

text \<open>
  What the handler reads besides the preferences: the controlling extension's id (empty when there is no map or
  none) and the name of an enabled one.
\<close>

record proxy_surroundings =
  extension_id :: string
  extension_name :: "string option"

datatype proxy_answer = State_answer proxy_state | Result_answer "(string \<times> string) option"

datatype page_call = ResolveCallback string proxy_answer | FireListener proxy_state

text \<open>The preferences the handler names, and those of them the profile has registered.\<close>

datatype pref_name = kProxy | kProxyOverrideRules | kEnableProxyOverrideRulesForAllUsers | kProxyOverrideRulesScope
  | kProxyOverrideRulesAffiliation

text \<open>
  The handler with its profile's preferences: \<open>found_prefs\<close> are the preferences that exist there,
  \<open>pref_change_registrar\<close> those whose changes the handler has asked for, and \<open>page_calls\<close> what the page was sent.
\<close>

record 'd RoamuxProxyHandler =
  otr_profile :: bool
  found_prefs :: "pref_name list"
  proxy_pref :: "'d layered_pref"
  override_rules :: rules_pref
  rules_eligibility :: eligibility
  surroundings :: proxy_surroundings
  js_allowed :: bool
  pref_change_registrar :: "pref_name list"
  page_calls :: "page_call list"

definition new_handler ::
  "bool \<Rightarrow> pref_name list \<Rightarrow> 'd layered_pref \<Rightarrow> rules_pref \<Rightarrow> eligibility \<Rightarrow> proxy_surroundings \<Rightarrow> 'd RoamuxProxyHandler" where
  "new_handler otr found p r el x =
     \<lparr>otr_profile = otr, found_prefs = found, proxy_pref = p, override_rules = r, rules_eligibility = el, surroundings = x,
      js_allowed = False, pref_change_registrar = [], page_calls = []\<rparr>"

definition base_owner :: "ProxyMode \<Rightarrow> 'd layered_pref \<Rightarrow> string" where
  "base_owner mode p =
     (if PolicyManaged p then ''policy''
      else if IsExtensionControlled p then ''extension''
      else if \<not> IsUserModifiable p then ''command_line''
      else if \<not> HasUserSetting p \<and> recommended_layer p \<noteq> None then ''recommended''
      else if HasUserSetting p \<and> mode \<noteq> MODE_SYSTEM then ''roamux''
      else ''system'')"

definition scheme_token :: "ProxyScheme \<Rightarrow> string" where
  "scheme_token s = (if s = SCHEME_HTTPS then ''https'' else if s = SCHEME_SOCKS5 then ''socks5'' else ''http'')"

definition endpoint_of :: "('s, 'd) proxy_env \<Rightarrow> 'd \<Rightarrow> (string \<times> string \<times> string) option" where
  "endpoint_of env dict =
     (case GetProxyServer env dict of
        None \<Rightarrow> None
      | Some servers \<Rightarrow>
          if servers = [] then None
          else let server = uri_server env servers
               in if server_valid env server
                  then Some (scheme_token (server_scheme env server), server_host env server, number_text env (server_port env server))
                  else None)"

definition mode_of_dict :: "('s, 'd) proxy_env \<Rightarrow> 'd \<Rightarrow> ProxyMode" where
  "mode_of_dict env dict = (case GetMode env dict of None \<Rightarrow> MODE_SYSTEM | Some m \<Rightarrow> m)"

definition BuildState :: "('s, 'd) proxy_env \<Rightarrow> 'd RoamuxProxyHandler \<Rightarrow> proxy_state" where
  "BuildState env h =
     (let p = proxy_pref h; dict = layered_value p; mode = mode_of_dict env dict; x = surroundings h;
         rules = override_rules h;
          by_extension = \<not> PolicyManaged p \<and> IsExtensionControlled p
      in \<lparr>st_mode = ModeToken mode,
          st_endpoint = endpoint_of env dict,
          st_bypass = GetBypassList env dict,
          st_pac_url = GetPacUrl env dict,
          st_pac_mandatory = (if mode = MODE_PAC_SCRIPT
                              then Some (case GetPacMandatory env dict of None \<Rightarrow> False | Some b \<Rightarrow> b) else None),
          st_base_owner = base_owner mode p,
          st_controller_name = (if by_extension \<and> extension_id x \<noteq> []
                                then (case extension_name x of None \<Rightarrow> extension_id x | Some n \<Rightarrow> n) else []),
          st_extension_scope = (if by_extension \<and> otr_profile h then Some ''regular_profile'' else None),
          st_rules_configured = (rules_list rules \<noteq> []),
          st_rules_active = engine_rules env (in_effect p) rules (rules_eligibility h),
          st_rules_owner = (if rules_managed rules then ''policy'' else if rules_extension rules then ''extension'' else ''user''),
          st_can_edit = IsUserModifiable p \<and> \<not> otr_profile h,
          st_can_reset = \<not> otr_profile h,
          st_has_our_value = HasUserSetting p\<rparr>)"

definition OnProxyPrefsChanged :: "('s, 'd) proxy_env \<Rightarrow> 'd RoamuxProxyHandler \<Rightarrow> 'd RoamuxProxyHandler" where
  "OnProxyPrefsChanged env h =
     (if js_allowed h then h\<lparr>page_calls := page_calls h @ [FireListener (BuildState env h)]\<rparr> else h)"

text \<open>
  A preference has its new value: the handler's observer runs when it is registered for it and its observers
  hear of the change.
\<close>

definition pref_changed :: "('s, 'd) proxy_env \<Rightarrow> pref_name \<Rightarrow> bool \<Rightarrow> 'd RoamuxProxyHandler \<Rightarrow> 'd RoamuxProxyHandler" where
  "pref_changed env q heard h = (if q \<in> set (pref_change_registrar h) \<and> heard then OnProxyPrefsChanged env h else h)"

text \<open>\<open>PrefService::Set\<close> and \<open>ClearPref\<close> on the proxy preference write its user layer.\<close>

definition write_user_layer :: "('s, 'd) proxy_env \<Rightarrow> 'd option \<Rightarrow> 'd RoamuxProxyHandler \<Rightarrow> 'd RoamuxProxyHandler" where
  "write_user_layer env v h =
     (let p = (proxy_pref h)\<lparr>user_layer := v\<rparr>
      in pref_changed env kProxy (hears_proxy env (proxy_pref h) p) (h\<lparr>proxy_pref := p\<rparr>))"

definition Commit ::
  "('s, 'd) proxy_env \<Rightarrow> json_dict \<Rightarrow> 'd RoamuxProxyHandler \<Rightarrow> (string \<times> string) option \<times> 'd RoamuxProxyHandler" where
  "Commit env form h =
     (if otr_profile h then (Some (''mode'', ''incognito''), h)
      else let p = proxy_pref h
           in if \<not> IsUserModifiable p then
                (Some (''mode'', if PolicyManaged p then ''policy''
                                 else if IsExtensionControlled p then ''extension'' else ''command_line''), h)
              else case ToInput form of
                     None \<Rightarrow> (Some (''mode'', ''mode''), h)
                   | Some input \<Rightarrow>
                       (case Build env input of
                          Reject field reason \<Rightarrow> (Some (field, reason), h)
                        | Clear_pref \<Rightarrow> (None, write_user_layer env None h)
                        | Store d \<Rightarrow> (None, write_user_layer env (Some d) h)))"

definition ResetToSystem :: "('s, 'd) proxy_env \<Rightarrow> 'd RoamuxProxyHandler \<Rightarrow> (string \<times> string) option \<times> 'd RoamuxProxyHandler" where
  "ResetToSystem env h =
     (if otr_profile h then (Some (''mode'', ''incognito''), h) else (None, write_user_layer env None h))"

definition watched :: "pref_name list" where
  "watched = [kProxy, kProxyOverrideRules, kEnableProxyOverrideRulesForAllUsers, kProxyOverrideRulesScope,
              kProxyOverrideRulesAffiliation]"

definition OnJavascriptAllowed :: "'d RoamuxProxyHandler \<Rightarrow> 'd RoamuxProxyHandler" where
  "OnJavascriptAllowed h =
     h\<lparr>pref_change_registrar := pref_change_registrar h @ List.filter (\<lambda>q. q \<in> set (found_prefs h)) watched\<rparr>"

definition OnJavascriptDisallowed :: "'d RoamuxProxyHandler \<Rightarrow> 'd RoamuxProxyHandler" where
  "OnJavascriptDisallowed h = h\<lparr>pref_change_registrar := []\<rparr>"

text \<open>The base class runs the two hooks when its flag turns, and not again while it stays.\<close>

definition AllowJavascript :: "'d RoamuxProxyHandler \<Rightarrow> 'd RoamuxProxyHandler" where
  "AllowJavascript h = (if js_allowed h then h else OnJavascriptAllowed (h\<lparr>js_allowed := True\<rparr>))"

definition DisallowJavascript :: "'d RoamuxProxyHandler \<Rightarrow> 'd RoamuxProxyHandler" where
  "DisallowJavascript h = (if js_allowed h then OnJavascriptDisallowed (h\<lparr>js_allowed := False\<rparr>) else h)"

definition resolve :: "string \<Rightarrow> proxy_answer \<Rightarrow> 'd RoamuxProxyHandler \<Rightarrow> 'd RoamuxProxyHandler" where
  "resolve cb a h = h\<lparr>page_calls := page_calls h @ [ResolveCallback cb a]\<rparr>"

text \<open>The callback id of a message, its first argument when that is a string.\<close>

fun callback_id :: "json list \<Rightarrow> string option" where
  "callback_id (JString cb # _) = Some cb"
| "callback_id _ = None"

definition HandleGetState :: "('s, 'd) proxy_env \<Rightarrow> json list \<Rightarrow> 'd RoamuxProxyHandler \<Rightarrow> 'd RoamuxProxyHandler" where
  "HandleGetState env args h =
     (let h = AllowJavascript h
      in case callback_id args of None \<Rightarrow> h | Some cb \<Rightarrow> resolve cb (State_answer (BuildState env h)) h)"

definition HandleSet :: "('s, 'd) proxy_env \<Rightarrow> json list \<Rightarrow> 'd RoamuxProxyHandler \<Rightarrow> 'd RoamuxProxyHandler" where
  "HandleSet env args h =
     (let h = AllowJavascript h
      in case callback_id args of
           None \<Rightarrow> h
         | Some cb \<Rightarrow>
             (case tl args of
                JDict form # _ \<Rightarrow> let (r, h') = Commit env form h in resolve cb (Result_answer r) h'
              | _ \<Rightarrow> resolve cb (Result_answer (Some (''mode'', ''mode''))) h))"

definition HandleReset :: "('s, 'd) proxy_env \<Rightarrow> json list \<Rightarrow> 'd RoamuxProxyHandler \<Rightarrow> 'd RoamuxProxyHandler" where
  "HandleReset env args h =
     (let h = AllowJavascript h
      in case callback_id args of
           None \<Rightarrow> h
         | Some cb \<Rightarrow> let (r, h') = ResetToSystem env h in resolve cb (Result_answer r) h')"

text \<open>A change of a preference from outside: which one, and what it becomes. The user layer is ours to write.\<close>

datatype 'd pref_change = Proxy_layers "'d layered_pref" | Rules_become rules_pref | Enabled_for_all_becomes json
  | Scope_becomes json | Affiliation_becomes json

fun changed_pref :: "'d pref_change \<Rightarrow> pref_name" where
  "changed_pref (Proxy_layers p) = kProxy"
| "changed_pref (Rules_become r) = kProxyOverrideRules"
| "changed_pref (Enabled_for_all_becomes v) = kEnableProxyOverrideRulesForAllUsers"
| "changed_pref (Scope_becomes v) = kProxyOverrideRulesScope"
| "changed_pref (Affiliation_becomes v) = kProxyOverrideRulesAffiliation"

fun new_value :: "'d pref_change \<Rightarrow> 'd RoamuxProxyHandler \<Rightarrow> 'd RoamuxProxyHandler" where
  "new_value (Proxy_layers p) h = h\<lparr>proxy_pref := p\<lparr>user_layer := user_layer (proxy_pref h)\<rparr>\<rparr>"
| "new_value (Rules_become r) h = h\<lparr>override_rules := r\<rparr>"
| "new_value (Enabled_for_all_becomes v) h = h\<lparr>rules_eligibility := (rules_eligibility h)\<lparr>enabled_for_all_users := v\<rparr>\<rparr>"
| "new_value (Scope_becomes v) h = h\<lparr>rules_eligibility := (rules_eligibility h)\<lparr>rules_scope := v\<rparr>\<rparr>"
| "new_value (Affiliation_becomes v) h = h\<lparr>rules_eligibility := (rules_eligibility h)\<lparr>rules_affiliation := v\<rparr>\<rparr>"

fun change_heard :: "('s, 'd) proxy_env \<Rightarrow> 'd pref_change \<Rightarrow> 'd RoamuxProxyHandler \<Rightarrow> bool" where
  "change_heard env (Proxy_layers p) h \<longleftrightarrow> hears_proxy env (proxy_pref h) (p\<lparr>user_layer := user_layer (proxy_pref h)\<rparr>)"
| "change_heard env (Rules_become r) h \<longleftrightarrow> hears_rules env (override_rules h) r"
| "change_heard env (Enabled_for_all_becomes v) h \<longleftrightarrow> hears_value env (enabled_for_all_users (rules_eligibility h)) v"
| "change_heard env (Scope_becomes v) h \<longleftrightarrow> hears_value env (rules_scope (rules_eligibility h)) v"
| "change_heard env (Affiliation_becomes v) h \<longleftrightarrow> hears_value env (rules_affiliation (rules_eligibility h)) v"

text \<open>
  Everything that happens to the handler: the page's messages, the page going away, a preference changing from
  outside (only one that exists can), and the extension's id or name changing, of which no preference tells.
\<close>

datatype 'd proxy_event = Get_state "json list" | Set_fields "json list" | Reset_message "json list" | Javascript_disallowed
  | Pref_changes "'d pref_change" | Extension_changes proxy_surroundings

fun proxy_step :: "('s, 'd) proxy_env \<Rightarrow> 'd proxy_event \<Rightarrow> 'd RoamuxProxyHandler \<Rightarrow> 'd RoamuxProxyHandler" where
  "proxy_step env (Get_state args) h = HandleGetState env args h"
| "proxy_step env (Set_fields args) h = HandleSet env args h"
| "proxy_step env (Reset_message args) h = HandleReset env args h"
| "proxy_step env Javascript_disallowed h = DisallowJavascript h"
| "proxy_step env (Pref_changes c) h =
     (if changed_pref c \<in> set (found_prefs h) then pref_changed env (changed_pref c) (change_heard env c h) (new_value c h) else h)"
| "proxy_step env (Extension_changes x) h = h\<lparr>surroundings := x\<rparr>"

subsection \<open>What gets stored\<close>

text \<open>A text the endpoint's parsers and the list parser cannot read as anything but a host.\<close>

definition plain_text :: "string \<Rightarrow> bool" where
  "plain_text v \<longleftrightarrow> \<not> HasListSyntax v \<and> \<not> has_path_syntax v \<and> \<not> HasSpaceOrControl v"

definition sound_endpoint :: "('s, 'd) proxy_env \<Rightarrow> 's \<Rightarrow> bool" where
  "sound_endpoint env server \<longleftrightarrow> server_valid env server \<and> parse_rules env (server_uri env server) = (True, [[server]]) \<and>
     (\<exists>scheme \<in> {SCHEME_HTTP, SCHEME_HTTPS, SCHEME_SOCKS5}. \<exists>host port. server = server_of env scheme host port \<and>
        host \<noteq> [] \<and> \<not> HasCredentials host \<and> plain_text host \<and> plain_text (unescape env host) \<and> 1 \<le> port \<and> port \<le> 65535)"

definition sound_config :: "('s, 'd) proxy_env \<Rightarrow> 'd \<Rightarrow> bool" where
  "sound_config env d \<longleftrightarrow>
     d = CreateDirect env \<or>
     (\<exists>server rules. d = CreateFixedServers env (server_uri env server) (rules_text env rules) \<and>
        sound_endpoint env server \<and> list_all (rule_accepted env) rules) \<or>
     (\<exists>url mandatory. d = CreatePacScript env url mandatory \<and> url_valid (pac_gurl env url) \<and>
        (url_scheme (pac_gurl env url) \<in> {''http'', ''https''} \<or>
         url_scheme (pac_gurl env url) = ''data'' \<and> data_url_ok env (pac_gurl env url)))"

lemma add_rules_Inr: "add_rules env es rules = Inr rs \<Longrightarrow> rs = rules @ es \<and> list_all (rule_accepted env) es"
  by (induction env es rules rule: add_rules.induct) (auto split: if_splits)

lemma SurvivesAsSingleEndpoint_iff:
  "SurvivesAsSingleEndpoint env uri server \<longleftrightarrow> parse_rules env uri = (True, [[server]])"
  by (cases "parse_rules env uri") (auto simp: SurvivesAsSingleEndpoint_def length_Suc_conv)

lemma BuildManual_Store:
  assumes "BuildManual env input = Store d"
  obtains scheme port where "ParseScheme (in_scheme input) = Some scheme" "parse_port env (in_port input) = Some port"
    "d = CreateFixedServers env (server_uri env (server_of env scheme (in_host input) port))
           (rules_text env (split_bypass env (in_bypass_list input)))"
    "sound_endpoint env (server_of env scheme (in_host input) port)"
    "list_all (rule_accepted env) (split_bypass env (in_bypass_list input))"
proof -
  obtain scheme where s: "ParseScheme (in_scheme input) = Some scheme"
    using assms by (cases "ParseScheme (in_scheme input)") (auto simp: BuildManual_def)
  let ?h = "in_host input"
  have ok: "\<not> HasCredentials ?h" "plain_text ?h" "plain_text (unescape env ?h)" "?h \<noteq> []"
    using assms by (auto simp: BuildManual_def s Let_def plain_text_def split: if_splits)
  obtain port where p: "parse_port env (in_port input) = Some port"
    using assms by (cases "parse_port env (in_port input)") (auto simp: BuildManual_def s Let_def split: if_splits)
  let ?server = "server_of env scheme ?h port"
  have server: "server_valid env ?server" "parse_rules env (server_uri env ?server) = (True, [[?server]])"
    using assms by (auto simp: BuildManual_def s p Let_def SurvivesAsSingleEndpoint_iff split: if_splits)
  obtain rs where r: "add_rules env (split_bypass env (in_bypass_list input)) [] = Inr rs"
    using assms by (cases "add_rules env (split_bypass env (in_bypass_list input)) []")
      (auto simp: BuildManual_def s p Let_def split: if_splits)
  have "d = CreateFixedServers env (server_uri env ?server) (rules_text env rs)"
    using assms by (auto simp: BuildManual_def s p r Let_def split: if_splits)
  moreover have "1 \<le> port" "port \<le> 65535" using p by (auto simp: parse_port_def split: if_splits option.splits)
  moreover have "scheme \<in> {SCHEME_HTTP, SCHEME_HTTPS, SCHEME_SOCKS5}" using s by (auto simp: ParseScheme_def split: if_splits)
  ultimately have "d = CreateFixedServers env (server_uri env ?server) (rules_text env rs)" "sound_endpoint env ?server"
    using ok server unfolding sound_endpoint_def by blast+
  with that [OF s p] add_rules_Inr [OF r] show ?thesis by simp
qed

lemma BuildManual_not_clear: "BuildManual env input \<noteq> Clear_pref"
  by (simp add: BuildManual_def Let_def split: option.split sum.split)

lemma Build_sound: "Build env input = Store d \<Longrightarrow> sound_config env d"
proof (cases "in_mode input")
  case kManual
  assume "Build env input = Store d"
  then have "BuildManual env input = Store d" by (simp add: Build_def kManual)
  then show ?thesis by (rule BuildManual_Store) (auto simp: sound_config_def)
qed (auto simp: Build_def BuildPac_def sound_config_def Let_def split: if_splits)

subsection \<open>What a history of messages leaves\<close>

lemmas handler_defs = OnProxyPrefsChanged_def pref_changed_def write_user_layer_def resolve_def AllowJavascript_def
  OnJavascriptAllowed_def DisallowJavascript_def OnJavascriptDisallowed_def Let_def

lemma user_layer_writes [simp]:
  "user_layer (proxy_pref (pref_changed env q b h)) = user_layer (proxy_pref h)"
  "user_layer (proxy_pref (write_user_layer env v h)) = v"
  "user_layer (proxy_pref (resolve cb a h)) = user_layer (proxy_pref h)"
  "user_layer (proxy_pref (AllowJavascript h)) = user_layer (proxy_pref h)"
  "user_layer (proxy_pref (DisallowJavascript h)) = user_layer (proxy_pref h)"
  "user_layer (proxy_pref (new_value c h)) = user_layer (proxy_pref h)"
  by (simp_all add: handler_defs) (cases c; simp)

lemma otr_kept [simp]:
  "otr_profile (pref_changed env q b h) = otr_profile h"
  "otr_profile (write_user_layer env v h) = otr_profile h"
  "otr_profile (resolve cb a h) = otr_profile h"
  "otr_profile (AllowJavascript h) = otr_profile h"
  "otr_profile (DisallowJavascript h) = otr_profile h"
  "otr_profile (new_value c h) = otr_profile h"
  by (simp_all add: handler_defs) (cases c; simp)

lemma Commit_cases:
  assumes "Commit env form h = (r, h')"
  shows "r \<noteq> None \<and> h' = h \<or>
    r = None \<and> \<not> otr_profile h \<and> IsUserModifiable (proxy_pref h) \<and>
      (\<exists>v. h' = write_user_layer env v h \<and> (\<forall>d. v = Some d \<longrightarrow> sound_config env d))"
  using assms
  by (auto simp: Commit_def Let_def split: if_splits option.splits Outcome.splits dest: Build_sound)

lemma ResetToSystem_cases:
  assumes "ResetToSystem env h = (r, h')"
  shows "r \<noteq> None \<and> h' = h \<and> otr_profile h \<or> r = None \<and> \<not> otr_profile h \<and> h' = write_user_layer env None h"
  using assms by (auto simp: ResetToSystem_def split: if_splits)

text \<open>A change of the user layer that the builder allows.\<close>

definition allowed_change :: "('s, 'd) proxy_env \<Rightarrow> bool \<Rightarrow> 'd option \<Rightarrow> 'd option \<Rightarrow> bool" where
  "allowed_change env otr u u' \<longleftrightarrow> u' = u \<or> \<not> otr \<and> (\<forall>d. u' = Some d \<longrightarrow> sound_config env d)"

lemma step_allowed:
  "otr_profile (proxy_step env e h) = otr_profile h \<and>
   allowed_change env (otr_profile h) (user_layer (proxy_pref h)) (user_layer (proxy_pref (proxy_step env e h)))"
proof (cases e)
  case (Set_fields args)
  show ?thesis
  proof (cases "\<exists>cb form rest. callback_id args = Some cb \<and> tl args = JDict form # rest")
    case True
    then obtain cb form rest where a: "callback_id args = Some cb" "tl args = JDict form # rest" by blast
    obtain r h' where c: "Commit env form (AllowJavascript h) = (r, h')" by fastforce
    have "proxy_step env e h = resolve cb (Result_answer r) h'" by (simp add: Set_fields HandleSet_def a c)
    with Commit_cases [OF c] show ?thesis by (auto simp: allowed_change_def)
  next
    case False
    then show ?thesis
      by (auto simp: Set_fields HandleSet_def Let_def allowed_change_def split: option.splits list.splits json.splits)
  qed
next
  case (Reset_message args)
  obtain r h' where c: "ResetToSystem env (AllowJavascript h) = (r, h')" by fastforce
  with ResetToSystem_cases [OF c] show ?thesis
    by (auto simp: Reset_message HandleReset_def Let_def allowed_change_def split: option.split)
qed (auto simp: HandleGetState_def Let_def allowed_change_def split: option.split)

definition proxy_moves :: "('s, 'd) proxy_env \<Rightarrow> 'd RoamuxProxyHandler \<Rightarrow> 'd RoamuxProxyHandler \<Rightarrow> bool" where
  "proxy_moves env h h' \<longleftrightarrow> otr_profile h' = otr_profile h \<and>
     allowed_change env (otr_profile h) (user_layer (proxy_pref h)) (user_layer (proxy_pref h'))"

interpretation proxy_writes: moves "proxy_step env" "proxy_moves env" for env :: "('s, 'd) proxy_env"
proof unfold_locales
  show "proxy_moves env h h" for h by (simp add: proxy_moves_def allowed_change_def)
  show "proxy_moves env h h' \<Longrightarrow> proxy_moves env h' h'' \<Longrightarrow> proxy_moves env h h''" for h h' h''
    by (auto simp: proxy_moves_def allowed_change_def)
  show "proxy_moves env h (proxy_step env e h)" for e h unfolding proxy_moves_def by (rule step_allowed)
qed

text \<open>
  C12: only sound configurations are stored. Whatever messages the page sends and whatever happens
  in the other layers, the profile's own proxy value is the one it had at first, or none, or one the builder made:
  direct, a PAC script the fetcher can load, or a single endpoint of a plain host with a port from 1 to 65535 that the
  list parser reads back as exactly that one server; and in an incognito profile it never changes.
\<close>

theorem only_sound_configs_are_stored:
  "user_layer (proxy_pref (fold (proxy_step env) es h)) \<in>
     {user_layer (proxy_pref h)} \<union> (if otr_profile h then {} else insert None (Some ` Collect (sound_config env)))"
  using proxy_writes.history_moves [of env h es]
  by (cases "user_layer (proxy_pref (fold (proxy_step env) es h))") (auto simp: proxy_moves_def allowed_change_def)

subsection \<open>What the page is told\<close>

text \<open>The documented behaviour of the dictionaries and of proxy servers and their URIs.\<close>

definition dictionary_laws :: "('s, 'd) proxy_env \<Rightarrow> bool" where
  "dictionary_laws env \<longleftrightarrow>
     GetMode env (CreateDirect env) = Some MODE_DIRECT \<and>
     (\<forall>uri bypass. GetMode env (CreateFixedServers env uri bypass) = Some MODE_FIXED_SERVERS \<and>
        GetProxyServer env (CreateFixedServers env uri bypass) = Some uri \<and>
        GetBypassList env (CreateFixedServers env uri bypass) = Some bypass) \<and>
     (\<forall>url mandatory. GetMode env (CreatePacScript env url mandatory) = Some MODE_PAC_SCRIPT \<and>
        GetPacUrl env (CreatePacScript env url mandatory) = Some url \<and>
        GetPacMandatory env (CreatePacScript env url mandatory) = Some mandatory)"

definition server_laws :: "('s, 'd) proxy_env \<Rightarrow> bool" where
  "server_laws env \<longleftrightarrow>
     (\<forall>s. server_valid env s \<longrightarrow> uri_server env (server_uri env s) = s \<and> server_uri env s \<noteq> []) \<and>
     (\<forall>scheme host port. server_valid env (server_of env scheme host port) \<longrightarrow>
        server_scheme env (server_of env scheme host port) = scheme \<and> server_port env (server_of env scheme host port) = port)"

lemma BuildState_same:
  "otr_profile h' = otr_profile h \<Longrightarrow> proxy_pref h' = proxy_pref h \<Longrightarrow> surroundings h' = surroundings h \<Longrightarrow>
     override_rules h' = override_rules h \<Longrightarrow> rules_eligibility h' = rules_eligibility h \<Longrightarrow>
     BuildState env h' = BuildState env h"
  by (simp add: BuildState_def)

lemma write_user_layer_fields:
  "proxy_pref (write_user_layer env v h) = (proxy_pref h)\<lparr>user_layer := v\<rparr>"
  "surroundings (write_user_layer env v h) = surroundings h"
  "override_rules (write_user_layer env v h) = override_rules h"
  "rules_eligibility (write_user_layer env v h) = rules_eligibility h"
  by (simp_all add: handler_defs)

lemma BuildState_written:
  "BuildState env (write_user_layer env v h) = BuildState env (h\<lparr>proxy_pref := (proxy_pref h)\<lparr>user_layer := v\<rparr>\<rparr>)"
  by (rule BuildState_same) (simp_all add: write_user_layer_fields)

lemma written_value:
  "IsUserModifiable p \<Longrightarrow> layered_value (p\<lparr>user_layer := Some d\<rparr>) = d"
  by (simp add: IsUserModifiable_def layered_value_def)

lemma modifiable_owner:
  "IsUserModifiable p \<Longrightarrow> base_owner mode (p\<lparr>user_layer := Some d\<rparr>) = (if mode = MODE_SYSTEM then ''system'' else ''roamux'')"
  "IsUserModifiable p \<Longrightarrow> base_owner mode (p\<lparr>user_layer := None\<rparr>) \<noteq> ''roamux''"
  by (auto simp: IsUserModifiable_def base_owner_def PolicyManaged_def IsExtensionControlled_def HasUserSetting_def)

text \<open>
  What was accepted is what is shown. When the handler accepts a message, the state it then reports has the
  mode of the message: a manual configuration shows the typed scheme, the number of the typed port and
  all the typed bypass rules, a PAC configuration the typed URL and its blocking flag, each
  owned by Roamux; and the system mode leaves no value of ours.
\<close>

theorem accepted_proxy_is_shown:
  assumes "dictionary_laws env" and "server_laws env" and "Commit env form h = (None, h')"
    and "st = BuildState env h'" and "m = StringField form ''mode''"
  shows "st_can_edit st \<and> (m = ''system'' \<longrightarrow> \<not> st_has_our_value st \<and> st_base_owner st \<noteq> ''roamux'') \<and>
    (m \<noteq> ''system'' \<longrightarrow> st_mode st = m \<and> st_has_our_value st \<and> st_base_owner st = ''roamux'') \<and>
    (m = ''manual'' \<longrightarrow> (\<exists>host port. parse_port env (StringField form ''port'') = Some port \<and>
       st_endpoint st = Some (StringField form ''scheme'', host, number_text env port) \<and>
       st_bypass st = Some (rules_text env (split_bypass env (StringField form ''bypassList''))))) \<and>
    (m = ''pac'' \<longrightarrow> st_pac_url st = Some (StringField form ''pacUrl'') \<and>
       st_pac_mandatory st = Some (case dict_FindBool form ''pacMandatory'' of None \<Rightarrow> True | Some b \<Rightarrow> b))"
proof -
  obtain input where i: "ToInput form = Some input" and ok: "\<not> otr_profile h" "IsUserModifiable (proxy_pref h)"
    and o: "Build env input = Clear_pref \<and> h' = write_user_layer env None h \<or>
            (\<exists>d. Build env input = Store d \<and> h' = write_user_layer env (Some d) h)"
    using assms(3) by (auto simp: Commit_def Let_def split: if_splits option.splits Outcome.splits)
  let ?p = "proxy_pref h"
  have edit: "IsUserModifiable (?p\<lparr>user_layer := v\<rparr>)" for v using ok(2) by (simp add: IsUserModifiable_def)
  have stored: "st_can_edit st \<and> st_mode st = ModeToken (mode_of_dict env d) \<and> st_has_our_value st \<and>
      (mode_of_dict env d \<noteq> MODE_SYSTEM \<longrightarrow> st_base_owner st = ''roamux'') \<and> st_endpoint st = endpoint_of env d \<and>
      st_bypass st = GetBypassList env d \<and> st_pac_url st = GetPacUrl env d \<and>
      (mode_of_dict env d = MODE_PAC_SCRIPT \<longrightarrow>
         st_pac_mandatory st = Some (case GetPacMandatory env d of None \<Rightarrow> False | Some b \<Rightarrow> b))"
    if "h' = write_user_layer env (Some d) h" for d
    unfolding assms(4) that BuildState_written
    by (simp add: BuildState_def Let_def written_value [OF ok(2)] modifiable_owner [OF ok(2)] edit ok(1) HasUserSetting_def)
  consider "m = ''system''" "in_mode input = kSystem" | "m = ''direct''" "in_mode input = kDirect"
    | "m = ''manual''" "in_mode input = kManual" | "m = ''pac''" "in_mode input = kPac"
    using i unfolding assms(5) by (auto simp: ToInput_def Let_def split: if_splits)
  then show ?thesis
  proof cases
    case 1
    then have "h' = write_user_layer env None h" using o by (simp add: Build_def)
    then have "st = BuildState env (h\<lparr>proxy_pref := ?p\<lparr>user_layer := None\<rparr>\<rparr>)" by (simp add: assms(4) BuildState_written)
    then show ?thesis using 1 ok edit modifiable_owner(2) [OF ok(2)]
      by (auto simp: BuildState_def Let_def HasUserSetting_def)
  next
    case 2
    then have "h' = write_user_layer env (Some (CreateDirect env)) h" using o by (simp add: Build_def)
    from stored [OF this] assms(1) 2 show ?thesis by (simp add: dictionary_laws_def mode_of_dict_def ModeToken_def)
  next
    case 3
    with o obtain d where d: "BuildManual env input = Store d" "h' = write_user_layer env (Some d) h"
      by (auto simp: Build_def BuildManual_not_clear)
    from d(1) obtain scheme port where b: "ParseScheme (in_scheme input) = Some scheme" "parse_port env (in_port input) = Some port"
      "d = CreateFixedServers env (server_uri env (server_of env scheme (in_host input) port))
             (rules_text env (split_bypass env (in_bypass_list input)))"
      "sound_endpoint env (server_of env scheme (in_host input) port)" by (rule BuildManual_Store)
    let ?s = "server_of env scheme (in_host input) port"
    have "server_valid env ?s" using b(4) by (simp add: sound_endpoint_def)
    with assms(1,2) have "endpoint_of env d = Some (scheme_token scheme, server_host env ?s, number_text env port)"
      by (simp add: endpoint_of_def b(3) dictionary_laws_def server_laws_def)
    moreover have "scheme_token scheme = in_scheme input" using b(1) by (auto simp: ParseScheme_def scheme_token_def split: if_splits)
    moreover have "in_scheme input = StringField form ''scheme''" "in_port input = StringField form ''port''"
      "in_bypass_list input = StringField form ''bypassList''" using i by (auto simp: ToInput_def Let_def split: if_splits)
    moreover have "mode_of_dict env d = MODE_FIXED_SERVERS" "GetBypassList env d = Some (rules_text env (split_bypass env (in_bypass_list input)))"
      using assms(1) by (simp_all add: mode_of_dict_def b(3) dictionary_laws_def)
    ultimately show ?thesis using stored [OF d(2)] b(2) 3 by (simp add: ModeToken_def)
  next
    case 4
    with o obtain d where d: "BuildPac env input = Store d" "h' = write_user_layer env (Some d) h"
      by (auto simp: Build_def BuildPac_def Let_def split: if_splits)
    then have "d = CreatePacScript env (in_pac_url input) (in_pac_mandatory input)"
      by (auto simp: BuildPac_def Let_def split: if_splits)
    moreover have "in_pac_url input = StringField form ''pacUrl''"
      "in_pac_mandatory input = (case dict_FindBool form ''pacMandatory'' of None \<Rightarrow> True | Some b \<Rightarrow> b)"
      using i by (auto simp: ToInput_def Let_def split: if_splits)
    ultimately show ?thesis using stored [OF d(2)] assms(1) 4
      by (simp add: dictionary_laws_def mode_of_dict_def ModeToken_def)
  qed
qed

text \<open>The answers the page gets, by callback, and the messages that ask for one.\<close>

fun answered :: "page_call \<Rightarrow> string option" where
  "answered (ResolveCallback cb a) = Some cb" | "answered (FireListener s) = None"

fun asked :: "'d proxy_event \<Rightarrow> string option" where
  "asked (Get_state args) = callback_id args" | "asked (Set_fields args) = callback_id args"
| "asked (Reset_message args) = callback_id args" | "asked Javascript_disallowed = None" | "asked (Pref_changes c) = None"
| "asked (Extension_changes x) = None"

fun state_told :: "page_call \<Rightarrow> proxy_state option" where
  "state_told (ResolveCallback cb (State_answer s)) = Some s" | "state_told (FireListener s) = Some s"
| "state_told (ResolveCallback cb (Result_answer r)) = None"

definition told :: "'d RoamuxProxyHandler \<Rightarrow> proxy_state list" where
  "told h = List.map_filter state_told (page_calls h)"

definition answers :: "'d RoamuxProxyHandler \<Rightarrow> string list" where
  "answers h = List.map_filter answered (page_calls h)"

text \<open>
  The documented behaviour of the preferences' observers: a change goes unheard only if it leaves what readers
  see, the controlling layer and the value in effect, as it was.
\<close>

definition notification_laws :: "('s, 'd) proxy_env \<Rightarrow> bool" where
  "notification_laws env \<longleftrightarrow>
     (\<forall>p p'. \<not> hears_proxy env p p' \<longrightarrow> in_effect p' = in_effect p) \<and>
     (\<forall>r r'. \<not> hears_rules env r r' \<longrightarrow> r' = r) \<and> (\<forall>v v'. \<not> hears_value env v v' \<longrightarrow> v' = v)"

text \<open>
  The page is up to date: what it was last told is the state now. Whether a value of ours is stored may lag while
  a layer above it controls the preference, and the controller's name (when \<open>named\<close> is false) when the
  extension was renamed.
\<close>

definition same_state :: "bool \<Rightarrow> bool \<Rightarrow> proxy_state \<Rightarrow> proxy_state \<Rightarrow> bool" where
  "same_state ours named s t \<longleftrightarrow>
     s\<lparr>st_has_our_value := False, st_controller_name := []\<rparr> = t\<lparr>st_has_our_value := False, st_controller_name := []\<rparr> \<and>
     (ours \<longrightarrow> st_has_our_value s = st_has_our_value t) \<and> (named \<longrightarrow> st_controller_name s = st_controller_name t)"

definition up_to_date :: "('s, 'd) proxy_env \<Rightarrow> bool \<Rightarrow> 'd RoamuxProxyHandler \<Rightarrow> bool" where
  "up_to_date env named h \<longleftrightarrow>
     told h \<noteq> [] \<and> same_state (IsUserModifiable (proxy_pref h)) named (last (told h)) (BuildState env h)"

text \<open>A handler listens to the preferences that exist exactly while its page may be called.\<close>

definition listening :: "'d RoamuxProxyHandler \<Rightarrow> bool" where
  "listening h \<longleftrightarrow>
     pref_change_registrar h = (if js_allowed h then List.filter (\<lambda>q. q \<in> set (found_prefs h)) watched else []) \<and>
     kProxy \<in> set (found_prefs h)"

lemma watched_all: "q \<in> set watched"
  by (cases q) (simp_all add: watched_def)

lemma same_state_refl [simp]: "same_state b n s s"
  by (simp add: same_state_def)

lemma same_stateD:
  assumes "same_state b n s t"
  shows "s\<lparr>st_has_our_value := st_has_our_value t, st_controller_name := st_controller_name t\<rparr> = t"
    "b \<longrightarrow> st_has_our_value s = st_has_our_value t" "n \<longrightarrow> st_controller_name s = st_controller_name t"
  using assms by (cases s; cases t; simp add: same_state_def)+

lemma BuildState_calls [simp]:
  "BuildState env (h\<lparr>page_calls := cs\<rparr>) = BuildState env h" "BuildState env (h\<lparr>js_allowed := b\<rparr>) = BuildState env h"
  "BuildState env (h\<lparr>pref_change_registrar := qs\<rparr>) = BuildState env h"
  by (rule BuildState_same; simp)+

lemma told_simps [simp]:
  "told (resolve cb (State_answer s) h) = told h @ [s]" "told (resolve cb (Result_answer r) h) = told h"
  "told (AllowJavascript h) = told h" "BuildState env (resolve cb a h) = BuildState env h"
  "BuildState env (AllowJavascript h) = BuildState env h"
  by (simp_all add: told_def handler_defs map_filter_snoc)

lemma answers_simps [simp]:
  "answers (resolve cb a h) = answers h @ [cb]" "answers (AllowJavascript h) = answers h"
  "answers (DisallowJavascript h) = answers h" "answers (pref_changed env q b h) = answers h"
  "answers (write_user_layer env v h) = answers h" "answers (new_value c h) = answers h"
  by (simp_all add: answers_def handler_defs map_filter_snoc) (cases c; simp)

lemma handler_simps [simp]:
  "js_allowed (resolve cb a h) = js_allowed h" "js_allowed (AllowJavascript h)" "js_allowed (pref_changed env q b h) = js_allowed h"
  "js_allowed (write_user_layer env v h) = js_allowed h" "js_allowed (new_value c h) = js_allowed h"
  "proxy_pref (resolve cb a h) = proxy_pref h" "proxy_pref (AllowJavascript h) = proxy_pref h"
  "proxy_pref (pref_changed env q b h) = proxy_pref h" "found_prefs (new_value c h) = found_prefs h"
  "pref_change_registrar (new_value c h) = pref_change_registrar h" "told (new_value c h) = told h"
  by (simp_all add: told_def handler_defs) (cases c; simp)+

lemma listening_simps [simp]:
  "listening (resolve cb a h) = listening h" "listening (pref_changed env q b h) = listening h"
  "listening (write_user_layer env v h) = listening h" "listening (new_value c h) = listening h"
  "listening (h\<lparr>surroundings := x\<rparr>) = listening h"
  by (simp_all add: listening_def handler_defs)

lemma listening_hooks [intro]:
  "listening h \<Longrightarrow> listening (AllowJavascript h)" "listening h \<Longrightarrow> listening (DisallowJavascript h)"
  by (auto simp: listening_def handler_defs)

lemma listens_to: "listening h \<Longrightarrow> js_allowed h \<Longrightarrow> q \<in> set (found_prefs h) \<Longrightarrow> q \<in> set (pref_change_registrar h)"
  using watched_all by (simp add: listening_def)

text \<open>A change that goes unheard changes nothing the page shows, but whether a shadowed value of ours is stored.\<close>

lemma controlling_reads:
  "controlling p' = controlling p \<Longrightarrow> PolicyManaged p' = PolicyManaged p \<and> IsExtensionControlled p' = IsExtensionControlled p \<and>
     IsUserModifiable p' = IsUserModifiable p \<and> base_owner m p' = base_owner m p \<and>
     (IsUserModifiable p \<longrightarrow> HasUserSetting p' = HasUserSetting p)"
  by (auto simp: controlling_def PolicyManaged_def IsExtensionControlled_def IsUserModifiable_def HasUserSetting_def base_owner_def
      split: if_splits)

lemma BuildState_unheard:
  assumes "in_effect p' = in_effect (proxy_pref h)"
  shows "same_state (IsUserModifiable p') n (BuildState env h) (BuildState env (h\<lparr>proxy_pref := p'\<rparr>))"
    and "IsUserModifiable p' = IsUserModifiable (proxy_pref h)"
  using controlling_reads [of p' "proxy_pref h"] assms
  by (simp_all add: same_state_def BuildState_def Let_def in_effect_def)

lemma same_state_trans: "same_state b n s t \<Longrightarrow> same_state b n t u \<Longrightarrow> same_state b n s u"
  by (auto simp: same_state_def)

lemma up_to_date_same:
  assumes "up_to_date env n h" "told h' = told h" "IsUserModifiable (proxy_pref h') = IsUserModifiable (proxy_pref h)"
    "same_state (IsUserModifiable (proxy_pref h')) n (BuildState env h) (BuildState env h')"
  shows "up_to_date env n h'"
proof -
  from assms(1,3) have "same_state (IsUserModifiable (proxy_pref h')) n (last (told h)) (BuildState env h)"
    by (simp add: up_to_date_def)
  from same_state_trans [OF this assms(4)] assms(1,2) show ?thesis by (simp add: up_to_date_def)
qed

lemma up_to_date_fired: "js_allowed h \<Longrightarrow> up_to_date env n (OnProxyPrefsChanged env h)"
  by (simp add: up_to_date_def OnProxyPrefsChanged_def told_def map_filter_snoc)

lemma up_to_date_pref:
  assumes "js_allowed h" "q \<in> set (pref_change_registrar h)" "\<not> b \<Longrightarrow> up_to_date env n h"
  shows "up_to_date env n (pref_changed env q b h)"
  using assms by (simp add: pref_changed_def up_to_date_fired)

lemma unheard_proxy:
  assumes "notification_laws env" "\<not> hears_proxy env (proxy_pref h) p" "up_to_date env n h"
  shows "up_to_date env n (h\<lparr>proxy_pref := p\<rparr>)"
proof -
  have "in_effect p = in_effect (proxy_pref h)" using assms(1,2) by (auto simp: notification_laws_def)
  from BuildState_unheard [OF this] show ?thesis
    by (intro up_to_date_same [OF assms(3)]) (simp_all add: told_def)
qed

lemma unheard_new_value:
  assumes "notification_laws env" "\<not> change_heard env c h" "up_to_date env n h"
  shows "up_to_date env n (new_value c h)"
proof (cases c)
  case (Proxy_layers p)
  with unheard_proxy [OF assms(1) _ assms(3)] assms(2) show ?thesis by simp
next
  case (Rules_become r)
  with assms(1,2) have "r = override_rules h" by (auto simp: notification_laws_def)
  with assms(3) show ?thesis by (simp add: Rules_become)
next
  case (Enabled_for_all_becomes v)
  with assms(1,2) have "v = enabled_for_all_users (rules_eligibility h)" by (auto simp: notification_laws_def)
  with assms(3) show ?thesis by (simp add: Enabled_for_all_becomes)
next
  case (Scope_becomes v)
  with assms(1,2) have "v = rules_scope (rules_eligibility h)" by (auto simp: notification_laws_def)
  with assms(3) show ?thesis by (simp add: Scope_becomes)
next
  case (Affiliation_becomes v)
  with assms(1,2) have "v = rules_affiliation (rules_eligibility h)" by (auto simp: notification_laws_def)
  with assms(3) show ?thesis by (simp add: Affiliation_becomes)
qed

text \<open>The page stays up to date, and the handler listening.\<close>

definition page_current :: "('s, 'd) proxy_env \<Rightarrow> bool \<Rightarrow> 'd RoamuxProxyHandler \<Rightarrow> bool" where
  "page_current env n h \<longleftrightarrow> notification_laws env \<longrightarrow> listening h \<and> js_allowed h \<and> up_to_date env n h"

lemma page_current_write: "page_current env n h \<Longrightarrow> page_current env n (write_user_layer env v h)"
proof -
  assume c: "page_current env n h"
  let ?p = "(proxy_pref h)\<lparr>user_layer := v\<rparr>"
  have "up_to_date env n (write_user_layer env v h)" if l: "notification_laws env"
  proof -
    have h: "listening h" "js_allowed h" "up_to_date env n h" using c l by (simp_all add: page_current_def)
    from h(1) have "kProxy \<in> set (found_prefs h)" by (simp add: listening_def)
    from listens_to [OF h(1,2) this] show ?thesis unfolding write_user_layer_def Let_def
      by (intro up_to_date_pref) (simp_all add: h(2) unheard_proxy [OF l _ h(3)])
  qed
  with c show ?thesis by (simp add: page_current_def)
qed

lemma page_current_resolve: "page_current env n h \<Longrightarrow> page_current env n (resolve cb (Result_answer r) h)"
  by (simp add: page_current_def up_to_date_def)

lemma page_current_allow: "page_current env n h \<Longrightarrow> page_current env n (AllowJavascript h)"
  by (auto simp: page_current_def up_to_date_def)

lemma Commit_page:
  assumes "Commit env form h = (r, h')"
  shows "answers h' = answers h" "page_current env n h \<Longrightarrow> page_current env n h'"
  using Commit_cases [OF assms] by (auto simp: page_current_write)

lemma ResetToSystem_page:
  assumes "ResetToSystem env h = (r, h')"
  shows "answers h' = answers h" "page_current env n h \<Longrightarrow> page_current env n h'"
  using ResetToSystem_cases [OF assms] by (auto simp: page_current_write)

lemma step_answers: "answers (proxy_step env e h) = answers h @ List.map_filter asked [e]"
proof (cases e)
  case (Set_fields args)
  show ?thesis
    by (auto simp: Set_fields HandleSet_def Let_def map_filter_simps split: option.split list.split json.split prod.split
        dest: Commit_page(1))
next
  case (Reset_message args)
  show ?thesis
    by (auto simp: Reset_message HandleReset_def Let_def map_filter_simps split: option.split prod.split dest: ResetToSystem_page(1))
next
  case (Extension_changes x)
  then show ?thesis by (simp add: map_filter_simps) (simp add: answers_def)
qed (auto simp: HandleGetState_def Let_def map_filter_simps split: option.split)

text \<open>The events under which the page stays, and, if the controller's name is to stay right, the extension.\<close>

fun page_stays :: "bool \<Rightarrow> 'd proxy_event \<Rightarrow> bool" where
  "page_stays n Javascript_disallowed \<longleftrightarrow> False"
| "page_stays n (Extension_changes x) \<longleftrightarrow> \<not> n"
| "page_stays n e \<longleftrightarrow> True"

lemma step_page_current:
  assumes "page_current env n h" and "page_stays n e"
  shows "page_current env n (proxy_step env e h)"
proof (cases e)
  case (Set_fields args)
  from page_current_allow [OF assms(1)] show ?thesis
    by (auto simp: Set_fields HandleSet_def Let_def split: option.split list.split json.split prod.split
        intro!: page_current_resolve dest: Commit_page(2))
next
  case (Reset_message args)
  from page_current_allow [OF assms(1)] show ?thesis
    by (auto simp: Reset_message HandleReset_def Let_def split: option.split prod.split
        intro!: page_current_resolve dest: ResetToSystem_page(2))
next
  case (Pref_changes c)
  show ?thesis
    using assms(1) listens_to [of h "changed_pref c"] unheard_new_value [of env c h n]
    by (auto simp: Pref_changes page_current_def intro!: up_to_date_pref)
next
  case (Extension_changes x)
  then show ?thesis using assms
    by (auto simp: page_current_def up_to_date_def told_def same_state_def BuildState_def Let_def)
next
  case (Get_state args)
  then show ?thesis using page_current_allow [OF assms(1)]
    by (auto simp: HandleGetState_def Let_def page_current_def up_to_date_def split: option.split)
qed (use assms(2) in simp)

interpretation proxy_answers: logs "proxy_step env" answers asked for env :: "('s, 'd) proxy_env"
  by unfold_locales (rule step_answers)

interpretation proxy_page: keeps "proxy_step env" "page_stays n" "page_current env n"
  for env :: "('s, 'd) proxy_env" and n
  by unfold_locales (rule step_page_current)

lemma step_listening: "listening h \<Longrightarrow> listening (proxy_step env e h)"
proof (cases e)
  case (Set_fields args)
  assume "listening h"
  then have "listening (AllowJavascript h)" by blast
  then show ?thesis
    by (auto simp: Set_fields HandleSet_def Let_def split: option.split list.split json.split prod.split dest!: Commit_cases)
next
  case (Reset_message args)
  assume "listening h"
  then have "listening (AllowJavascript h)" by blast
  then show ?thesis
    by (auto simp: Reset_message HandleReset_def Let_def split: option.split prod.split dest!: ResetToSystem_cases)
qed (auto simp: HandleGetState_def Let_def split: option.split)

interpretation proxy_listens: keeps "proxy_step env" "\<lambda>e. True" listening for env :: "('s, 'd) proxy_env"
  by unfold_locales (rule step_listening)

text \<open>
  C24: the page is always answered and never stale. From a new handler, each message with a callback is
  answered exactly once, in order, whatever it holds. Once the page has asked for the state, and for as long as it
  stays, whatever messages it sends and however the watched preferences change, the last state it was told
  agrees with the state now in every field but two: whether a value of ours is stored agrees while
  no layer above the user's controls the preference, and the controller's name agrees while the extension keeps its id
  and name. The observers of a preference hear of a change of what readers see, and the profile has the proxy
  preference.
\<close>

theorem page_is_answered_and_current:
  assumes "notification_laws env" and "kProxy \<in> set found"
    and "start = new_handler otr found p r el x"
    and "h = fold (proxy_step env) es' (proxy_step env (Get_state (JString cb # args)) (fold (proxy_step env) es start))"
    and "Javascript_disallowed \<notin> set es'" and "now = BuildState env h"
  shows "answers h = List.map_filter asked (es @ Get_state (JString cb # args) # es') \<and> js_allowed h \<and>
    (\<exists>s. told h \<noteq> [] \<and> s = last (told h) \<and>
       s\<lparr>st_has_our_value := st_has_our_value now, st_controller_name := st_controller_name now\<rparr> = now \<and>
       (IsUserModifiable (proxy_pref h) \<longrightarrow> st_has_our_value s = st_has_our_value now) \<and>
       ((\<forall>y. Extension_changes y \<notin> set es') \<longrightarrow> st_controller_name s = st_controller_name now))"
proof -
  define h1 where "h1 = fold (proxy_step env) es start"
  define n where "n \<longleftrightarrow> (\<forall>y. Extension_changes y \<notin> set es')"
  have "listening start" using assms(2) by (simp add: assms(3) new_handler_def listening_def)
  then have "listening h1" unfolding h1_def by (rule proxy_listens.history_keeps) (simp add: list_all_iff)
  then have "page_current env n (proxy_step env (Get_state (JString cb # args)) h1)"
    by (auto simp: page_current_def HandleGetState_def Let_def up_to_date_def)
  moreover have "list_all (page_stays n) es'"
    unfolding list_all_iff
  proof
    fix e assume "e \<in> set es'"
    then show "page_stays n e" using assms(5) by (cases e rule: proxy_event.exhaust) (auto simp: n_def)
  qed
  ultimately have "page_current env n h" unfolding assms(4) h1_def [symmetric] by (rule proxy_page.history_keeps)
  then have c: "js_allowed h" "told h \<noteq> []" "same_state (IsUserModifiable (proxy_pref h)) n (last (told h)) now"
    using assms(1) by (auto simp: page_current_def up_to_date_def assms(6))
  have "answers start = []" by (simp add: assms(3) new_handler_def answers_def map_filter_simps)
  then have "answers h = List.map_filter asked (es @ Get_state (JString cb # args) # es')"
    using proxy_answers.history_logs [of env "es @ Get_state (JString cb # args) # es'" start] by (simp add: assms(4))
  with c(1,2) same_stateD [OF c(3)] show ?thesis unfolding n_def by blast
qed

subsection \<open>A concrete instance\<close>

datatype demo_dict = Demo_direct | Demo_fixed string string | Demo_pac string bool

definition demo_server :: "ProxyScheme \<times> string \<times> nat" where
  "demo_server = (SCHEME_HTTP, ''h'', 8080)"

definition demo_proxy_env :: "(ProxyScheme \<times> string \<times> nat, demo_dict) proxy_env" where
  "demo_proxy_env = \<lparr>unescape = (\<lambda>t. t), string_to_uint = (\<lambda>t. Some 8080), number_text = (\<lambda>n. ''8080''),
     server_of = (\<lambda>scheme host port. (scheme, host, port)), server_valid = (\<lambda>s. s = demo_server),
     server_uri = (\<lambda>s. ''h:8080''), uri_server = (\<lambda>u. demo_server), server_scheme = fst,
     server_host = (\<lambda>s. fst (snd s)), server_port = (\<lambda>s. snd (snd s)),
     parse_rules = (\<lambda>u. (True, [[demo_server]])), split_bypass = (\<lambda>t. [t]), rule_accepted = (\<lambda>t. t \<noteq> []),
     rules_text = concat,
     pac_gurl = (\<lambda>u. \<lparr>url_valid = True, url_spec = u, url_scheme = ''https'', url_host = [], url_about_blank = False\<rparr>),
     data_url_ok = (\<lambda>u. False), CreateDirect = Demo_direct, CreateFixedServers = Demo_fixed, CreatePacScript = Demo_pac,
     GetMode = (\<lambda>d. case d of Demo_direct \<Rightarrow> Some MODE_DIRECT | Demo_fixed u b \<Rightarrow> Some MODE_FIXED_SERVERS
                         | Demo_pac u m \<Rightarrow> Some MODE_PAC_SCRIPT),
     GetProxyServer = (\<lambda>d. case d of Demo_fixed u b \<Rightarrow> Some u | _ \<Rightarrow> None),
     GetBypassList = (\<lambda>d. case d of Demo_fixed u b \<Rightarrow> Some b | _ \<Rightarrow> None),
     GetPacUrl = (\<lambda>d. case d of Demo_pac u m \<Rightarrow> Some u | _ \<Rightarrow> None),
     GetPacMandatory = (\<lambda>d. case d of Demo_pac u m \<Rightarrow> Some m | _ \<Rightarrow> None),
     engine_rules = (\<lambda>v r el. rules_list r \<noteq> [] \<and> rules_scope el = JString ''m''),
     hears_proxy = (\<lambda>p p'. in_effect p' \<noteq> in_effect p), hears_rules = (\<lambda>r r'. r' \<noteq> r), hears_value = (\<lambda>v v'. v' \<noteq> v)\<rparr>"

definition demo_proxy_handler :: "demo_dict RoamuxProxyHandler" where
  "demo_proxy_handler = new_handler False watched
     \<lparr>policy_layer = None, extension_layer = None, command_line_layer = None, user_layer = None,
      recommended_layer = None, default_layer = Demo_direct\<rparr>
     \<lparr>rules_list = [], rules_managed = False, rules_extension = False\<rparr>
     \<lparr>enabled_for_all_users = JString [], rules_scope = JString [], rules_affiliation = JString []\<rparr>
     \<lparr>extension_id = [], extension_name = None\<rparr>"

definition demo_form :: json_dict where
  "demo_form = [(''bypassList'', JString ''x''), (''host'', JString ''h''), (''mode'', JString ''manual''),
     (''port'', JString ''8080''), (''scheme'', JString ''http'')]"

lemma demo_laws: "dictionary_laws demo_proxy_env" "server_laws demo_proxy_env"
  by (auto simp: dictionary_laws_def server_laws_def demo_proxy_env_def demo_server_def)

lemma demo_commit: "fst (Commit demo_proxy_env demo_form demo_proxy_handler) = None"
proof -
  have "BuildManual demo_proxy_env \<lparr>in_mode = kManual, in_scheme = ''http'', in_host = ''h'', in_port = ''8080'',
      in_bypass_list = ''x'', in_pac_url = [], in_pac_mandatory = True\<rparr> = Store (Demo_fixed ''h:8080'' ''x'')"
    by (simp add: BuildManual_def ParseScheme_def Let_def HasCredentials_def HasListSyntax_def has_path_syntax_def
        HasSpaceOrControl_def parse_port_def SurvivesAsSingleEndpoint_def demo_proxy_env_def demo_server_def)
  then show ?thesis
    by (simp add: Commit_def demo_proxy_handler_def new_handler_def IsUserModifiable_def ToInput_def StringField_def dict_FindString_def dict_FindBool_def
        demo_form_def Build_def Let_def)
qed

theorem accepted_proxy_is_shown_witness:
  "st_endpoint (BuildState demo_proxy_env (snd (Commit demo_proxy_env demo_form demo_proxy_handler))) \<noteq> None \<and>
   st_mode (BuildState demo_proxy_env (snd (Commit demo_proxy_env demo_form demo_proxy_handler))) = ''manual''"
proof -
  have c: "Commit demo_proxy_env demo_form demo_proxy_handler = (None, snd (Commit demo_proxy_env demo_form demo_proxy_handler))"
    using demo_commit by (simp add: prod_eq_iff)
  have "StringField demo_form ''mode'' = ''manual''" by (simp add: demo_form_def StringField_def dict_FindString_def)
  with accepted_proxy_is_shown [OF demo_laws c refl refl] show ?thesis by auto
qed

definition demo_events :: "demo_dict proxy_event list" where
  "demo_events = [Set_fields [JString ''c'', JDict demo_form], Pref_changes (Scope_becomes (JString ''m'')), Reset_message [JString ''d'']]"

theorem page_is_answered_and_current_witness:
  "answers (fold (proxy_step demo_proxy_env) demo_events
       (proxy_step demo_proxy_env (Get_state [JString ''a'']) demo_proxy_handler)) = [''a'', ''c'', ''d''] \<and>
   told (fold (proxy_step demo_proxy_env) demo_events
       (proxy_step demo_proxy_env (Get_state [JString ''a'']) demo_proxy_handler)) \<noteq> []"
proof -
  have l: "notification_laws demo_proxy_env" by (simp add: notification_laws_def demo_proxy_env_def)
  have d: "Javascript_disallowed \<notin> set demo_events" by (simp add: demo_events_def)
  have a: "List.map_filter asked (Get_state [JString ''a''] # demo_events) = [''a'', ''c'', ''d'']"
    by (simp add: demo_events_def map_filter_simps)
  show ?thesis
    using page_is_answered_and_current [where es = "[]" and args = "[]" and cb = "''a''" and start = demo_proxy_handler,
        OF l watched_all demo_proxy_handler_def refl d refl]
    unfolding fold_simps append_Nil a by blast
qed

end
