(* ===== verification/Bookmark_Groups.thy ===== *)
theory Bookmark_Groups
  imports Prelude
begin

text \<open>
  Opening the subfolders of a bookmark folder as tab groups of one new window:
  \<open>roamux/browser/bookmarks/subfolder_tab_groups.cc\<close>. The bookmark tree, the outcome of each
  navigation (whether the new window gets a tab), the tab strip's grouping of tabs and the
  answer of the prompt are arguments; a new background tab is appended to the strip.
\<close>

subsection \<open>Plans\<close>

datatype bookmark_node =
  Url_node string gurl
| Folder_node (node_title: string) (is_permanent_node: bool) (node_children: "bookmark_node list")

fun node_is_folder :: "bookmark_node \<Rightarrow> bool" where
  "node_is_folder (Folder_node t p cs) = True" | "node_is_folder (Url_node t u) = False"

record SubfolderGroupPlan =
  plan_title :: string
  plan_urls :: "gurl list"

definition first_level_links :: "bookmark_node list \<Rightarrow> gurl list" where
  "first_level_links grandchildren =
     fold (\<lambda>g urls. case g of Url_node t u \<Rightarrow> urls @ [u] | Folder_node t p cs \<Rightarrow> urls) grandchildren []"

definition BuildSubfolderGroupPlans :: "bookmark_node list \<Rightarrow> SubfolderGroupPlan list" where
  "BuildSubfolderGroupPlans children =
     fold (\<lambda>child plans.
       case child of
         Url_node t u \<Rightarrow> plans
       | Folder_node title p grandchildren \<Rightarrow>
           let urls = first_level_links grandchildren
           in if urls \<noteq> [] then plans @ [\<lparr>plan_title = title, plan_urls = urls\<rparr>] else plans) children []"

subsection \<open>The new window\<close>

record new_tab =
  new_tab_url :: gurl
  new_tab_group :: "nat option"

record tab_group_data =
  group_title :: string
  group_color :: nat
  group_customized :: bool

record opened_window =
  strip :: "new_tab list"
  strip_groups :: "tab_group_data list"
  active_tab :: "nat option"
  window_shown :: bool
  window_closed :: bool

text \<open>
  \<open>opens k u\<close>: whether the \<open>k\<close>-th navigation of the new window, to \<open>u\<close>, adds a tab. \<open>AddToNewGroup\<close> and
  \<open>ChangeTabGroupVisuals\<close> are the tab strip's own operations, on the indices of tabs and on a group; a group is
  known by its number.
\<close>

record open_env =
  opens :: "nat \<Rightarrow> gurl \<Rightarrow> bool"
  AddToNewGroup :: "nat list \<Rightarrow> opened_window \<Rightarrow> nat \<times> opened_window"
  ChangeTabGroupVisuals :: "nat \<Rightarrow> string \<Rightarrow> nat \<Rightarrow> bool \<Rightarrow> opened_window \<Rightarrow> opened_window"
  kNumBookmarkUrlsBeforePrompting :: nat

text \<open>
  What the tab strip documents of the two: the last tabs of the strip, given to \<open>AddToNewGroup\<close>, stay where they
  are and form a new group; \<open>ChangeTabGroupVisuals\<close> gives a group its title, colour and mark.
\<close>

definition strip_laws :: "open_env \<Rightarrow> bool" where
  "strip_laws env \<longleftrightarrow>
     (\<forall>w xs ys. strip w = xs @ ys \<and> ys \<noteq> [] \<longrightarrow>
        (\<exists>d. AddToNewGroup env [length xs..<length (xs @ ys)] w =
           (length (strip_groups w),
            w\<lparr>strip := xs @ map (\<lambda>t. t\<lparr>new_tab_group := Some (length (strip_groups w))\<rparr>) ys,
              strip_groups := strip_groups w @ [d]\<rparr>))) \<and>
     (\<forall>w g title color customized. g < length (strip_groups w) \<longrightarrow>
        ChangeTabGroupVisuals env g title color customized w =
          w\<lparr>strip_groups := (strip_groups w)[g := \<lparr>group_title = title, group_color = color, group_customized = customized\<rparr>]\<rparr>)"

definition navigate_all :: "open_env \<Rightarrow> gurl list \<Rightarrow> nat \<times> new_tab list \<Rightarrow> nat \<times> new_tab list" where
  "navigate_all env urls x =
     fold (\<lambda>u (k, tabs). (k + 1, if opens env k u then tabs @ [\<lparr>new_tab_url = u, new_tab_group = None\<rparr>] else tabs)) urls x"

definition open_plan :: "open_env \<Rightarrow> SubfolderGroupPlan \<Rightarrow> nat \<times> opened_window \<Rightarrow> nat \<times> opened_window" where
  "open_plan env plan x =
     (let (k, w) = x;
          start = length (strip w);
          (k', tabs) = navigate_all env (plan_urls plan) (k, strip w);
          w1 = w\<lparr>strip := tabs\<rparr>;
          indices = [start..<length tabs]
      in if indices = [] then (k', w1)
         else let (g, w2) = AddToNewGroup env indices w1;
                  assigned = strip_groups w2 ! g
              in (k', ChangeTabGroupVisuals env g (plan_title plan) (group_color assigned) True w2))"

definition new_window :: opened_window where
  "new_window = \<lparr>strip = [], strip_groups = [], active_tab = None, window_shown = False, window_closed = False\<rparr>"

definition DoOpenSubfolderGroups :: "open_env \<Rightarrow> SubfolderGroupPlan list \<Rightarrow> opened_window" where
  "DoOpenSubfolderGroups env plans =
     (let w = snd (fold (open_plan env) plans (0, new_window))
      in if strip w = [] then w\<lparr>window_closed := True\<rparr>
         else w\<lparr>active_tab := Some 0, window_shown := True\<rparr>)"

subsection \<open>The prompt and the gates\<close>

text \<open>
  Profiles are numbers. \<open>prompts\<close> holds the plans of the questions still open, each once; \<open>opened\<close> the windows opened so far with
  their profiles; \<open>hook\<close> is the test callback.
\<close>

record groups_world =
  prompts :: "nat \<rightharpoonup> nat \<times> SubfolderGroupPlan list"
  next_prompt :: nat
  opened :: "(nat \<times> opened_window) list"
  hook :: "(nat \<Rightarrow> bool) option"

definition open_in :: "open_env \<Rightarrow> nat \<Rightarrow> SubfolderGroupPlan list \<Rightarrow> groups_world \<Rightarrow> groups_world" where
  "open_in env profile plans w = w\<lparr>opened := opened w @ [(profile, DoOpenSubfolderGroups env plans)]\<rparr>"

definition total_urls :: "SubfolderGroupPlan list \<Rightarrow> nat" where
  "total_urls plans = fold (\<lambda>plan total. total + length (plan_urls plan)) plans 0"

text \<open>\<open>source\<close> is the profile of the invoking window, None when there is none.\<close>

definition OpenSubfolderGroupsInNewWindow ::
  "open_env \<Rightarrow> nat option \<Rightarrow> SubfolderGroupPlan list \<Rightarrow> groups_world \<Rightarrow> groups_world" where
  "OpenSubfolderGroupsInNewWindow env source plans w =
     (case source of
        None \<Rightarrow> w
      | Some profile \<Rightarrow>
          if plans = [] then w
          else let total = total_urls plans
               in if total \<ge> kNumBookmarkUrlsBeforePrompting env then
                    (case hook w of
                       Some h \<Rightarrow> if h total then open_in env profile plans w else w
                     | None \<Rightarrow> w\<lparr>prompts := (prompts w)(next_prompt w \<mapsto> (profile, plans)), next_prompt := next_prompt w + 1\<rparr>)
                  else open_in env profile plans w)"

definition OnBulkOpenPromptAnswered :: "open_env \<Rightarrow> nat \<Rightarrow> bool \<Rightarrow> groups_world \<Rightarrow> groups_world" where
  "OnBulkOpenPromptAnswered env q yes w =
     (case prompts w q of
        None \<Rightarrow> w
      | Some (profile, plans) \<Rightarrow>
          let w1 = w\<lparr>prompts := (prompts w)(q := None)\<rparr> in if yes then open_in env profile plans w1 else w1)"

definition SetBulkOpenPromptCallbackForTesting :: "(nat \<Rightarrow> bool) option \<Rightarrow> groups_world \<Rightarrow> (nat \<Rightarrow> bool) option \<times> groups_world" where
  "SetBulkOpenPromptCallbackForTesting h w = (hook w, w\<lparr>hook := h\<rparr>)"

text \<open>\<open>to_int64\<close> parses an id, \<open>node_by_id\<close> is the model's lookup.\<close>

definition ResolveSidePanelFolderForMenus ::
  "(string \<Rightarrow> int option) \<Rightarrow> (int \<Rightarrow> bookmark_node option) option \<Rightarrow> string \<Rightarrow> bookmark_node option" where
  "ResolveSidePanelFolderForMenus to_int64 model side_panel_id =
     (case model of
        None \<Rightarrow> None
      | Some node_by_id \<Rightarrow>
          (case to_int64 side_panel_id of
             None \<Rightarrow> None
           | Some folder_id \<Rightarrow>
               (case node_by_id folder_id of
                  None \<Rightarrow> None
                | Some node \<Rightarrow> if \<not> node_is_folder node \<or> is_permanent_node node then None else Some node)))"

record menu_profile =
  profile_number :: nat
  profile_off_the_record :: bool
  incognito_forced :: bool

definition GetQualifyingSubfolderCountForMenus :: "bool \<Rightarrow> menu_profile option \<Rightarrow> bookmark_node option \<Rightarrow> nat" where
  "GetQualifyingSubfolderCountForMenus feature profile folder =
     (case (profile, folder) of
        (Some p, Some f) \<Rightarrow>
          if \<not> feature \<or> profile_off_the_record p \<or> incognito_forced p \<or> \<not> node_is_folder f \<or> is_permanent_node f then 0
          else length (BuildSubfolderGroupPlans (node_children f))
      | _ \<Rightarrow> 0)"

definition ValidateAndOpenSubfolderGroups ::
  "open_env \<Rightarrow> bool \<Rightarrow> menu_profile option \<Rightarrow> bookmark_node option \<Rightarrow> groups_world \<Rightarrow> bool \<times> groups_world" where
  "ValidateAndOpenSubfolderGroups env feature source folder w =
     (case (source, folder) of
        (Some p, Some f) \<Rightarrow>
          if GetQualifyingSubfolderCountForMenus feature (Some p) (Some f) = 0 then (False, w)
          else (True, OpenSubfolderGroupsInNewWindow env (Some (profile_number p)) (BuildSubfolderGroupPlans (node_children f)) w)
      | _ \<Rightarrow> (False, w))"

subsection \<open>The plans are the qualifying subfolders\<close>

definition link_of :: "bookmark_node \<Rightarrow> gurl option" where
  "link_of n = (case n of Url_node t u \<Rightarrow> Some u | Folder_node t p cs \<Rightarrow> None)"

definition links :: "bookmark_node \<Rightarrow> gurl list" where
  "links n = (if node_is_folder n then List.map_filter link_of (node_children n) else [])"

lemma first_level_links_eq: "first_level_links cs = List.map_filter link_of cs"
proof (induction cs rule: rev_induct)
  case (snoc x xs)
  then show ?case by (cases x) (simp_all add: first_level_links_def map_filter_snoc link_of_def)
qed (simp add: first_level_links_def map_filter_simps)

lemma BuildSubfolderGroupPlans_eq:
  "BuildSubfolderGroupPlans cs =
     map (\<lambda>n. \<lparr>plan_title = node_title n, plan_urls = links n\<rparr>) (filter (\<lambda>n. links n \<noteq> []) cs)"
proof (induction cs rule: rev_induct)
  case (snoc x xs)
  then show ?case
    by (cases x) (simp_all add: BuildSubfolderGroupPlans_def links_def first_level_links_eq Let_def)
qed (simp add: BuildSubfolderGroupPlans_def)

subsection \<open>The window mirrors the plans\<close>

fun opened_urls :: "open_env \<Rightarrow> nat \<Rightarrow> gurl list \<Rightarrow> gurl list" where
  "opened_urls env k [] = []"
| "opened_urls env k (u # us) = (if opens env k u then u # opened_urls env (k + 1) us else opened_urls env (k + 1) us)"

text \<open>The titles and links of the plans of which some link opened.\<close>

fun surviving :: "open_env \<Rightarrow> nat \<Rightarrow> SubfolderGroupPlan list \<Rightarrow> (string \<times> gurl list) list" where
  "surviving env k [] = []"
| "surviving env k (p # ps) =
     (let us = opened_urls env k (plan_urls p); rest = surviving env (k + length (plan_urls p)) ps
      in if us = [] then rest else (plan_title p, us) # rest)"

fun group_tabs :: "nat \<Rightarrow> (string \<times> gurl list) list \<Rightarrow> new_tab list" where
  "group_tabs g [] = []"
| "group_tabs g (x # xs) = map (\<lambda>u. \<lparr>new_tab_url = u, new_tab_group = Some g\<rparr>) (snd x) @ group_tabs (g + 1) xs"

lemma navigate_all_eq:
  "navigate_all env us (k, tabs) =
     (k + length us, tabs @ map (\<lambda>u. \<lparr>new_tab_url = u, new_tab_group = None\<rparr>) (opened_urls env k us))"
proof (induction us arbitrary: k tabs)
  case (Cons u us)
  have "navigate_all env (u # us) (k, tabs) =
      navigate_all env us (k + 1, if opens env k u then tabs @ [\<lparr>new_tab_url = u, new_tab_group = None\<rparr>] else tabs)"
    by (simp add: navigate_all_def)
  then show ?case by (simp add: Cons)
qed (simp add: navigate_all_def)

lemma open_plan_nothing: "opened_urls env k (plan_urls p) = [] \<Longrightarrow> open_plan env p (k, w) = (k + length (plan_urls p), w)"
  by (simp add: open_plan_def navigate_all_eq Let_def)

lemma AddToNewGroup_tail:
  "strip_laws env \<Longrightarrow> strip w = xs @ ys \<Longrightarrow> ys \<noteq> [] \<Longrightarrow>
     \<exists>d. AddToNewGroup env [length xs..<length (xs @ ys)] w =
       (length (strip_groups w),
        w\<lparr>strip := xs @ map (\<lambda>t. t\<lparr>new_tab_group := Some (length (strip_groups w))\<rparr>) ys,
          strip_groups := strip_groups w @ [d]\<rparr>)"
  unfolding strip_laws_def by blast

lemma open_plan_group:
  assumes "strip_laws env" and "opened_urls env k (plan_urls p) = us" and "us \<noteq> []" and "g = length (strip_groups w)"
  shows "\<exists>color. open_plan env p (k, w) =
     (k + length (plan_urls p),
      w\<lparr>strip := strip w @ map (\<lambda>u. \<lparr>new_tab_url = u, new_tab_group = Some g\<rparr>) us,
        strip_groups := strip_groups w @ [\<lparr>group_title = plan_title p, group_color = color, group_customized = True\<rparr>]\<rparr>)"
proof -
  let ?new = "map (\<lambda>u. \<lparr>new_tab_url = u, new_tab_group = None\<rparr>) us :: new_tab list"
  let ?w1 = "w\<lparr>strip := strip w @ ?new\<rparr>"
  have "strip ?w1 = strip w @ ?new" "?new \<noteq> []" using assms(3) by simp_all
  from AddToNewGroup_tail [OF assms(1) this] obtain d where add: "AddToNewGroup env [length (strip w)..<length (strip w @ ?new)] ?w1 =
      (g, ?w1\<lparr>strip := strip w @ map (\<lambda>t. t\<lparr>new_tab_group := Some g\<rparr>) ?new, strip_groups := strip_groups w @ [d]\<rparr>)"
    by (auto simp: assms(4))
  define w2 where "w2 = ?w1\<lparr>strip := strip w @ map (\<lambda>t. t\<lparr>new_tab_group := Some g\<rparr>) ?new, strip_groups := strip_groups w @ [d]\<rparr>"
  have w2: "strip_groups w2 = strip_groups w @ [d]" by (simp add: w2_def)
  then have "ChangeTabGroupVisuals env g title color True w2 =
      w2\<lparr>strip_groups := strip_groups w @ [\<lparr>group_title = title, group_color = color, group_customized = True\<rparr>]\<rparr>" for title color
    using assms(1,4) by (simp add: strip_laws_def)
  moreover have "strip_groups w2 ! g = d" by (simp add: w2 assms(4))
  moreover have "[length (strip w)..<length (strip w @ ?new)] \<noteq> []" using assms(3) by simp
  ultimately have "open_plan env p (k, w) = (k + length (plan_urls p),
      w2\<lparr>strip_groups := strip_groups w @ [\<lparr>group_title = plan_title p, group_color = group_color d, group_customized = True\<rparr>]\<rparr>)"
    using add [folded w2_def] assms(2) by (simp add: open_plan_def navigate_all_eq Let_def del: upt_eq_Nil_conv)
  then show ?thesis by (intro exI [of _ "group_color d"]) (simp add: w2_def comp_def)
qed

lemma fold_open_plan:
  assumes "strip_laws env"
  shows "\<exists>w'. fold (open_plan env) plans (k, w) = (k + length (concat (map plan_urls plans)), w') \<and>
     strip w' = strip w @ group_tabs (length (strip_groups w)) (surviving env k plans) \<and>
     map group_title (strip_groups w') = map group_title (strip_groups w) @ map fst (surviving env k plans) \<and>
     window_closed w' = window_closed w \<and> window_shown w' = window_shown w"
proof (induction plans arbitrary: k w)
  case (Cons p ps)
  let ?k = "k + length (plan_urls p)"
  show ?case
  proof (cases "opened_urls env k (plan_urls p) = []")
    case True
    then show ?thesis using Cons.IH [of ?k w] by (simp add: open_plan_nothing add.assoc)
  next
    case False
    obtain color where "open_plan env p (k, w) = (?k,
        w\<lparr>strip := strip w @ map (\<lambda>u. \<lparr>new_tab_url = u, new_tab_group = Some (length (strip_groups w))\<rparr>) (opened_urls env k (plan_urls p)),
          strip_groups := strip_groups w @ [\<lparr>group_title = plan_title p, group_color = color, group_customized = True\<rparr>]\<rparr>)"
      (is "_ = (?k, ?w1)") using open_plan_group [OF assms refl False refl] by blast
    then show ?thesis using Cons.IH [of ?k ?w1] False by (auto simp: Let_def)
  qed
qed simp

lemma opened_urls_all: "\<forall>k u. opens env k u \<Longrightarrow> opened_urls env k us = us"
  by (induction us arbitrary: k) simp_all

lemma surviving_all:
  "\<forall>k u. opens env k u \<Longrightarrow> \<forall>p \<in> set plans. plan_urls p \<noteq> [] \<Longrightarrow>
     surviving env k plans = map (\<lambda>p. (plan_title p, plan_urls p)) plans"
  by (induction plans arbitrary: k) (simp_all add: opened_urls_all)

lemma group_tabs_later: "t \<in> set (group_tabs m xs) \<Longrightarrow> \<exists>i \<ge> m. new_tab_group t = Some i"
proof (induction xs arbitrary: m)
  case (Cons x xs)
  then show ?case using Cons.IH [of "m + 1"] by fastforce
qed simp

lemma group_tabs_group:
  "map new_tab_url (filter (\<lambda>t. new_tab_group t = Some (g + i)) (group_tabs g xs)) = (if i < length xs then snd (xs ! i) else [])"
proof (induction xs arbitrary: g i)
  case (Cons x xs)
  have mine: "filter (\<lambda>t. new_tab_group t = Some j) (map (\<lambda>u. \<lparr>new_tab_url = u, new_tab_group = Some g\<rparr>) us) =
      (if j = g then map (\<lambda>u. \<lparr>new_tab_url = u, new_tab_group = Some g\<rparr>) us else [])" for j us by (induction us) auto
  show ?case
  proof (cases i)
    case 0
    have "filter (\<lambda>t. new_tab_group t = Some g) (group_tabs (g + 1) xs) = []"
      using group_tabs_later [of _ "g + 1" xs] by (fastforce simp: filter_empty_conv)
    then show ?thesis using 0 mine [of g] by (simp add: comp_def)
  next
    case (Suc k)
    then show ?thesis using Cons [of "g + 1" k] mine [of "g + i"] by simp
  qed
qed simp

lemma group_tabs_simps:
  "map new_tab_url (group_tabs g xs) = concat (map snd xs)" "t \<in> set (group_tabs g xs) \<Longrightarrow> new_tab_group t \<noteq> None"
  "group_tabs g xs = [] \<longleftrightarrow> concat (map snd xs) = []"
  by (induction xs arbitrary: g) (auto simp: comp_def)

text \<open>
  C25: the new window mirrors the subfolders. Whichever links open, the window has one group per subfolder with
  some link that opened, in order and under its exact title; the tabs are the links that opened, in bookmark order, each
  in its subfolder's group; the window is shown with its first tab active, or closed if none opened. When
  all open, these are exactly the subfolders with links, as many as the menu's count. The tab strip groups the tabs
  it is given, and titles a group, as it documents.
\<close>

theorem window_mirrors_subfolders:
  assumes "plans = BuildSubfolderGroupPlans (node_children f)" and "w = DoOpenSubfolderGroups env plans"
    and "groups = surviving env 0 plans" and "strip_laws env"
  shows "map group_title (strip_groups w) = map fst groups \<and> map new_tab_url (strip w) = concat (map snd groups) \<and>
    (\<forall>i. map new_tab_url (filter (\<lambda>t. new_tab_group t = Some i) (strip w)) = (if i < length groups then snd (groups ! i) else [])) \<and>
    (\<forall>t \<in> set (strip w). new_tab_group t \<noteq> None) \<and>
    (if strip w = [] then window_closed w else window_shown w \<and> active_tab w = Some 0) \<and>
    ((\<forall>k u. opens env k u) \<longrightarrow>
       groups = map (\<lambda>n. (node_title n, links n)) (filter (\<lambda>n. links n \<noteq> []) (node_children f)))"
proof -
  obtain w' where w': "fold (open_plan env) plans (0, new_window) = (length (concat (map plan_urls plans)), w')"
    "strip w' = group_tabs 0 groups" "map group_title (strip_groups w') = map fst groups"
    using fold_open_plan [OF assms(4), of plans 0 new_window] assms(3) by (auto simp: new_window_def)
  have w: "strip w = group_tabs 0 groups" "strip_groups w = strip_groups w'"
    "if strip w = [] then window_closed w else window_shown w \<and> active_tab w = Some 0"
    using w' assms(2) by (simp_all add: DoOpenSubfolderGroups_def Let_def)
  have "groups = map (\<lambda>n. (node_title n, links n)) (filter (\<lambda>n. links n \<noteq> []) (node_children f))" if "\<forall>k u. opens env k u"
    using surviving_all [OF that, of plans 0] assms(3) by (simp add: assms(1) BuildSubfolderGroupPlans_eq comp_def)
  then show ?thesis using w w'(3) group_tabs_simps [where g = 0 and xs = groups] group_tabs_group [of 0 _ groups] by simp
qed

definition demo_link :: "string \<Rightarrow> bookmark_node" where
  "demo_link u = Url_node u \<lparr>url_valid = True, url_spec = u, url_scheme = ''https'', url_host = [], url_about_blank = False\<rparr>"

definition demo_folder :: bookmark_node where
  "demo_folder = Folder_node ''F'' False
     [demo_link ''x'', Folder_node ''A'' False [demo_link ''a'', demo_link ''b''], Folder_node ''B'' False [],
      Folder_node ''C'' False [demo_link ''c'']]"

definition demo_open_env :: open_env where
  "demo_open_env = \<lparr>opens = (\<lambda>k u. True),
     AddToNewGroup = (\<lambda>is w.
       (length (strip_groups w),
        w\<lparr>strip := map (\<lambda>i. if i \<in> set is then (strip w ! i)\<lparr>new_tab_group := Some (length (strip_groups w))\<rparr> else strip w ! i)
                     [0..<length (strip w)],
          strip_groups := strip_groups w @ [\<lparr>group_title = [], group_color = length (strip_groups w), group_customized = False\<rparr>]\<rparr>)),
     ChangeTabGroupVisuals = (\<lambda>g title color customized w.
       w\<lparr>strip_groups := (strip_groups w)[g := \<lparr>group_title = title, group_color = color, group_customized = customized\<rparr>]\<rparr>),
     kNumBookmarkUrlsBeforePrompting = 3\<rparr>"

lemma regroup_tail:
  "map (\<lambda>i. if i \<in> set [length xs..<length (xs @ ys)] then f ((xs @ ys) ! i) else (xs @ ys) ! i) [0..<length (xs @ ys)] = xs @ map f ys"
  by (rule nth_equalityI) (auto simp: nth_append)

lemma demo_strip_laws: "strip_laws demo_open_env"
proof -
  have "AddToNewGroup demo_open_env [length xs..<length (xs @ ys)] w =
      (length (strip_groups w), w\<lparr>strip := xs @ map (\<lambda>t. t\<lparr>new_tab_group := Some (length (strip_groups w))\<rparr>) ys,
        strip_groups := strip_groups w @ [\<lparr>group_title = [], group_color = length (strip_groups w), group_customized = False\<rparr>]\<rparr>)"
    if "strip w = xs @ ys" for w xs ys
    using regroup_tail [of xs ys "\<lambda>t. t\<lparr>new_tab_group := Some (length (strip_groups w))\<rparr>"]
    by (simp only: demo_open_env_def open_env.simps that)
  then show ?thesis unfolding strip_laws_def by (auto simp: demo_open_env_def)
qed

lemma demo_plans: "map plan_title (BuildSubfolderGroupPlans (node_children demo_folder)) = [''A'', ''C'']"
  "total_urls (BuildSubfolderGroupPlans (node_children demo_folder)) = 3"
  by (simp_all add: BuildSubfolderGroupPlans_eq demo_folder_def demo_link_def links_def link_of_def map_filter_simps total_urls_def)

theorem window_mirrors_subfolders_witness:
  "map group_title (strip_groups (DoOpenSubfolderGroups demo_open_env (BuildSubfolderGroupPlans (node_children demo_folder)))) =
     [''A'', ''C'']"
proof -
  let ?plans = "BuildSubfolderGroupPlans (node_children demo_folder)"
  have "\<forall>k u. opens demo_open_env k u" by (simp add: demo_open_env_def)
  then have "surviving demo_open_env 0 ?plans =
      map (\<lambda>n. (node_title n, links n)) (filter (\<lambda>n. links n \<noteq> []) (node_children demo_folder))"
    using window_mirrors_subfolders [of ?plans demo_folder _ demo_open_env, OF refl refl refl demo_strip_laws] by blast
  moreover have "map group_title (strip_groups (DoOpenSubfolderGroups demo_open_env ?plans)) = map fst (surviving demo_open_env 0 ?plans)"
    using window_mirrors_subfolders [of ?plans demo_folder _ demo_open_env, OF refl refl refl demo_strip_laws] by blast
  ultimately show ?thesis using demo_plans(1) by (simp add: BuildSubfolderGroupPlans_eq comp_def)
qed

text \<open>
  What answering question \<open>q\<close> does in any world in which it is open: a yes opens the planned window, a no none,
  and a further answer does nothing.
\<close>

definition answered_once :: "open_env \<Rightarrow> nat \<Rightarrow> nat \<Rightarrow> SubfolderGroupPlan list \<Rightarrow> bool" where
  "answered_once env q profile plans \<longleftrightarrow>
     (\<forall>yes w. prompts w q = Some (profile, plans) \<longrightarrow>
        opened (OnBulkOpenPromptAnswered env q yes w) =
          opened w @ (if yes then [(profile, DoOpenSubfolderGroups env plans)] else []) \<and>
        (\<forall>again. OnBulkOpenPromptAnswered env q again (OnBulkOpenPromptAnswered env q yes w) = OnBulkOpenPromptAnswered env q yes w))"

lemma always_answered_once: "answered_once env q profile plans"
  by (simp add: answered_once_def OnBulkOpenPromptAnswered_def open_in_def Let_def)

text \<open>
  A large folder asks first, and once. A request opens nothing unless every gate holds and some subfolder has a
  link, and then reports that it did; below the threshold the window opens at once with as many planned groups as
  the menu counts; from the threshold on nothing opens until the question is answered, a yes then opens the
  window planned when it was asked, a no opens none, and no further answer to the same question does anything.
\<close>

theorem large_folders_ask_first:
  assumes "hook w = None" and "ValidateAndOpenSubfolderGroups env feature source folder w = (ok, w1)"
  shows "(ok \<longleftrightarrow> GetQualifyingSubfolderCountForMenus feature source folder > 0) \<and> (\<not> ok \<longrightarrow> w1 = w) \<and>
    (ok \<longrightarrow> (\<exists>p f plans. source = Some p \<and> folder = Some f \<and> plans = BuildSubfolderGroupPlans (node_children f) \<and>
       length plans = GetQualifyingSubfolderCountForMenus feature source folder \<and>
       (if total_urls plans < kNumBookmarkUrlsBeforePrompting env
        then w1 = open_in env (profile_number p) plans w
        else opened w1 = opened w \<and> prompts w1 (next_prompt w) = Some (profile_number p, plans) \<and>
          answered_once env (next_prompt w) (profile_number p) plans)))"
proof (cases "GetQualifyingSubfolderCountForMenus feature source folder > 0")
  case False
  then have "(ok, w1) = (False, w)"
    using assms(2) by (auto simp: ValidateAndOpenSubfolderGroups_def split: option.splits)
  with False show ?thesis by simp
next
  case True
  note count = True
  from count obtain p f where pf: "source = Some p" "folder = Some f"
    by (auto simp: GetQualifyingSubfolderCountForMenus_def split: option.splits)
  let ?plans = "BuildSubfolderGroupPlans (node_children f)"
  have n: "length ?plans = GetQualifyingSubfolderCountForMenus feature source folder" "?plans \<noteq> []"
    using True by (auto simp: pf GetQualifyingSubfolderCountForMenus_def split: if_splits)
  have w1: "ok" "w1 = OpenSubfolderGroupsInNewWindow env (Some (profile_number p)) ?plans w"
    using assms(2) True by (auto simp: ValidateAndOpenSubfolderGroups_def pf)
  show ?thesis
  proof (cases "total_urls ?plans < kNumBookmarkUrlsBeforePrompting env")
    case True
    then have "w1 = open_in env (profile_number p) ?plans w"
      using w1(2) n(2) by (simp add: OpenSubfolderGroupsInNewWindow_def Let_def)
    with True count w1(1) pf n show ?thesis by simp
  next
    case False
    then have "opened w1 = opened w" "prompts w1 (next_prompt w) = Some (profile_number p, ?plans)"
      using w1(2) n(2) assms(1) by (simp_all add: OpenSubfolderGroupsInNewWindow_def Let_def)
    with False count w1(1) pf n always_answered_once show ?thesis by simp
  qed
qed

definition demo_groups_world :: groups_world where
  "demo_groups_world = \<lparr>prompts = Map.empty, next_prompt = 5, opened = [], hook = None\<rparr>"

definition demo_menu_profile :: menu_profile where
  "demo_menu_profile = \<lparr>profile_number = 2, profile_off_the_record = False, incognito_forced = False\<rparr>"

theorem large_folders_ask_first_witness:
  "\<exists>w1. ValidateAndOpenSubfolderGroups demo_open_env True (Some demo_menu_profile) (Some demo_folder) demo_groups_world = (True, w1) \<and>
     opened w1 = [] \<and> prompts w1 5 = Some (2, BuildSubfolderGroupPlans (node_children demo_folder))"
proof -
  obtain ok w1 where v: "ValidateAndOpenSubfolderGroups demo_open_env True (Some demo_menu_profile) (Some demo_folder) demo_groups_world = (ok, w1)"
    by fastforce
  have count: "GetQualifyingSubfolderCountForMenus True (Some demo_menu_profile) (Some demo_folder) = 2"
    using demo_plans(1) [THEN arg_cong, of length]
    by (simp add: GetQualifyingSubfolderCountForMenus_def demo_menu_profile_def demo_folder_def)
  have "hook demo_groups_world = None" by (simp add: demo_groups_world_def)
  from large_folders_ask_first [OF this v] count demo_plans(2) v show ?thesis
    by (simp add: demo_open_env_def demo_groups_world_def demo_menu_profile_def split: if_splits)
qed

end
