(* ===== verification/Surfaces.thy ===== *)
theory Surfaces
  imports Placement Edge_Files
begin

text \<open>
  The small decisions Chromium's surfaces ask of the overlay: the profile of an external open
  (\<open>roamux/browser/profiles/external_open_profile.cc\<close>), name-only profile creation
  (\<open>brave_style_profiles.cc\<close>), the inert sign-in (\<open>roamux/browser/signin/\<close>), and the \<open>roamux\<close> scheme, which
  is rewritten to \<open>chrome\<close> when navigated to and shown for it when displayed
  (\<open>roamux/browser/scheme/\<close>). Feature flags, switches and the build's keys are arguments.
\<close>

subsection \<open>The profile of an external open\<close>

definition kGuestProfileDirName :: string where "kGuestProfileDirName = ''Guest Profile''"
definition kSystemProfileDirName :: string where "kSystemProfileDirName = ''System Profile''"
definition kModeDesignatedProfile :: int where "kModeDesignatedProfile = 1"

text \<open>The inner None is the current behaviour; the outer one a read of an unregistered preference.\<close>

definition ResolveExternalOpenProfile ::
  "bool \<Rightarrow> bool \<Rightarrow> pref_service option \<Rightarrow> path \<Rightarrow> (path \<Rightarrow> bool) \<Rightarrow> path option option" where
  "ResolveExternalOpenProfile feature has_profile_switch local_state user_data profile_exists =
     (if \<not> feature then Some None
      else case local_state of
             None \<Rightarrow> Some None
           | Some prefs \<Rightarrow>
               (case int_prefs prefs kExternalOpenMode of
                  None \<Rightarrow> None
                | Some mode \<Rightarrow>
                    if pref_value mode \<noteq> kModeDesignatedProfile then Some None
                    else if has_profile_switch then Some None
                    else (case string_prefs prefs kExternalOpenProfile of
                            None \<Rightarrow> None
                          | Some name \<Rightarrow>
                              let base_name = pref_value name
                              in if base_name = [] then Some None
                                 else if base_name = kGuestProfileDirName \<or> base_name = kSystemProfileDirName then Some None
                                 else let p = append_path user_data base_name
                                      in if \<not> profile_exists p then Some None else Some (Some p))))"

lemma external_open_designated:
  assumes "ResolveExternalOpenProfile feature switch local_state user_data profile_exists = Some (Some p)"
  shows "feature \<and> \<not> switch \<and> profile_exists p \<and> DirName p = user_data \<and>
    p \<notin> append_path user_data ` {kGuestProfileDirName, kSystemProfileDirName}"
  using assms
  by (auto simp: ResolveExternalOpenProfile_def Let_def append_path_def DirName_def split: if_splits option.splits)

lemma external_open_default:
  "ResolveExternalOpenProfile feature switch (Some (RegisterLocalStatePrefs p)) user_data profile_exists = Some None"
  by (simp add: ResolveExternalOpenProfile_def RegisterLocalStatePrefs_def kExternalOpenMode_def kExternalOpenProfile_def
      new_pref_def pref_value_def kModeDesignatedProfile_def)

subsection \<open>Profile creation and sign-in\<close>

definition IsNameOnlyProfileCreationEnabled :: "bool \<Rightarrow> bool" where
  "IsNameOnlyProfileCreationEnabled brave_style = brave_style"

definition AllowSigninProfileCreationStep :: "bool \<Rightarrow> bool \<Rightarrow> bool" where
  "AllowSigninProfileCreationStep brave_style upstream_allowed \<longleftrightarrow>
     upstream_allowed \<and> \<not> IsNameOnlyProfileCreationEnabled brave_style"

datatype SigninBuildState = kKeyless | kKeyedUnauthorized | kKeyedAuthorized

definition GetBuildStateForInputs :: "bool \<Rightarrow> bool \<Rightarrow> SigninBuildState" where
  "GetBuildStateForInputs has_api_keys authorized_build =
     (if \<not> has_api_keys then kKeyless else if authorized_build then kKeyedAuthorized else kKeyedUnauthorized)"

definition IsSigninInert :: "SigninBuildState \<Rightarrow> bool" where
  "IsSigninInert s \<longleftrightarrow> s \<noteq> kKeyedAuthorized"

definition ShouldInterceptSigninForState :: "bool \<Rightarrow> SigninBuildState \<Rightarrow> bool" where
  "ShouldInterceptSigninForState brave_style s \<longleftrightarrow> brave_style \<and> s \<noteq> kKeyedAuthorized"

fun GetInertSigninExplanation :: "SigninBuildState \<Rightarrow> string" where
  "GetInertSigninExplanation kKeyless =
     ''This Roamux build ships without Google API keys, so Google sign-in and sync cannot run. Profiles stay local and isolated; no account is needed.''"
| "GetInertSigninExplanation kKeyedUnauthorized =
     ''This build has API keys but no Google authorization for sign-in/sync, so Google sign-in cannot mint tokens. Profiles stay local and isolated.''"
| "GetInertSigninExplanation kKeyedAuthorized = []"

text \<open>What the sign-in funnel records for the browser tests.\<close>

record signin_flags =
  g_intercepted :: bool
  g_explanation_shown :: bool
  g_dialog_suppressed :: bool

definition initial_signin_flags :: signin_flags where
  "initial_signin_flags = \<lparr>g_intercepted = False, g_explanation_shown = False, g_dialog_suppressed = False\<rparr>"

definition RecordInertSigninIntercepted :: "signin_flags \<Rightarrow> signin_flags" where
  "RecordInertSigninIntercepted f = f\<lparr>g_intercepted := True\<rparr>"

definition RecordInertExplanationShown :: "signin_flags \<Rightarrow> signin_flags" where
  "RecordInertExplanationShown f = f\<lparr>g_explanation_shown := True\<rparr>"

definition ResetInertSigninTestState :: "signin_flags \<Rightarrow> signin_flags" where
  "ResetInertSigninTestState f = f\<lparr>g_intercepted := False, g_explanation_shown := False\<rparr>"

definition SetInertExplanationDialogSuppressed :: "bool \<Rightarrow> signin_flags \<Rightarrow> signin_flags" where
  "SetInertExplanationDialogSuppressed b f = f\<lparr>g_dialog_suppressed := b\<rparr>"

text \<open>\<open>upstream\<close> and \<open>entry_point\<close> are the two preferences, \<open>switch\<close> the opt-in on the command line.\<close>

definition IsSigninAllowedOnNextStartup :: "bool \<Rightarrow> bool \<Rightarrow> bool \<Rightarrow> bool \<Rightarrow> bool" where
  "IsSigninAllowedOnNextStartup brave_style switch entry_point upstream =
     (if \<not> brave_style then upstream else (entry_point \<or> switch) \<and> upstream)"

lemma intercepted_is_explained:
  "ShouldInterceptSigninForState brave_style s \<longleftrightarrow> brave_style \<and> GetInertSigninExplanation s \<noteq> []"
  "ShouldInterceptSigninForState brave_style s \<longleftrightarrow> brave_style \<and> IsSigninInert s"
  by (cases s; simp add: ShouldInterceptSigninForState_def IsSigninInert_def)+

subsection \<open>The scheme\<close>

text \<open>A standard URL: \<open>ReplaceComponents\<close> changes the parts that are set, \<open>rest\<close> is its query and fragment.\<close>

record ui_url =
  ui_scheme :: string
  ui_host :: string
  ui_path :: string
  ui_rest :: string

definition kRoamuxScheme :: string where "kRoamuxScheme = ''roamux''"
definition kChromeUIScheme :: string where "kChromeUIScheme = ''chrome''"

definition kAliasMap :: "(string \<times> string \<times> string) list" where
  "kAliasMap = [(''about'', ''settings'', ''/help'')]"

text \<open>The URL after the call; the call's own result is always false.\<close>

definition MaybeRewriteRoamuxAliasURL :: "bool \<Rightarrow> ui_url \<Rightarrow> bool \<times> ui_url" where
  "MaybeRewriteRoamuxAliasURL feature url =
     (if \<not> feature then (False, url)
      else if ui_scheme url \<noteq> kRoamuxScheme then (False, url)
      else let url1 = url\<lparr>ui_scheme := kChromeUIScheme\<rparr>
           in case find (\<lambda>row. fst row = ui_host url) kAliasMap of
                None \<Rightarrow> (False, url1)
              | Some (h, chrome_host, chrome_path) \<Rightarrow>
                  let url2 = url1\<lparr>ui_host := chrome_host\<rparr>
                  in (False, if chrome_path \<noteq> [] then url2\<lparr>ui_path := chrome_path\<rparr> else url2))"

definition kChromePrefix :: string where "kChromePrefix = ''chrome://''"

definition MaybeBrandFormattedUrlForDisplay :: "bool \<Rightarrow> ui_url \<Rightarrow> string \<Rightarrow> string" where
  "MaybeBrandFormattedUrlForDisplay feature url formatted =
     (if \<not> feature then formatted
      else if ui_scheme url \<noteq> kChromeUIScheme then formatted
      else if take (length kChromePrefix) formatted \<noteq> kChromePrefix then formatted
      else ''roamux://'' @ drop (length kChromePrefix) formatted)"

text \<open>Both schemes are standard: their URLs parse alike.\<close>

definition schemes_parse_alike :: "(string \<Rightarrow> ui_url option) \<Rightarrow> bool" where
  "schemes_parse_alike parse \<longleftrightarrow>
     (\<forall>t. parse (''roamux://'' @ t) = map_option (\<lambda>u. u\<lparr>ui_scheme := kRoamuxScheme\<rparr>) (parse (''chrome://'' @ t)))"

text \<open>
  C40: what is shown leads back, except for one host. With the feature on, the text shown for a \<open>chrome\<close>
  URL that carries its scheme is branded, and typing it again reaches that same URL exactly if its host is
  not \<open>about\<close>: that one is shown as an address that leads to the settings' help page instead.
\<close>

theorem branded_text_leads_back:
  assumes "schemes_parse_alike parse" and "ui_scheme u = kChromeUIScheme" and "parse (kChromePrefix @ t) = Some u"
    and "branded = MaybeBrandFormattedUrlForDisplay True u (kChromePrefix @ t)"
  shows "branded = ''roamux://'' @ t \<and>
    (\<exists>v. parse branded = Some v \<and>
       (snd (MaybeRewriteRoamuxAliasURL True v) = u \<longleftrightarrow> ui_host u \<noteq> ''about'') \<and>
       (ui_host u = ''about'' \<longrightarrow>
          snd (MaybeRewriteRoamuxAliasURL True v) = u\<lparr>ui_host := ''settings'', ui_path := ''/help''\<rparr>))"
proof -
  have b: "branded = ''roamux://'' @ t" using assms(2,4) by (simp add: MaybeBrandFormattedUrlForDisplay_def kChromePrefix_def)
  let ?v = "u\<lparr>ui_scheme := kRoamuxScheme\<rparr>"
  have "parse branded = Some ?v" using assms(1,3) unfolding b schemes_parse_alike_def kChromePrefix_def by simp
  moreover have "snd (MaybeRewriteRoamuxAliasURL True ?v) =
      (if ui_host u = ''about'' then u\<lparr>ui_host := ''settings'', ui_path := ''/help''\<rparr> else u)"
    using assms(2) by (cases u) (simp add: MaybeRewriteRoamuxAliasURL_def kAliasMap_def Let_def)
  moreover have "u\<lparr>ui_host := ''settings'', ui_path := ''/help''\<rparr> \<noteq> u" if "ui_host u = ''about''"
    using that by (cases u) simp
  ultimately show ?thesis using b by simp
qed

definition demo_parse :: "string \<Rightarrow> ui_url option" where
  "demo_parse t =
     (if take 9 t = ''chrome://'' then Some \<lparr>ui_scheme = kChromeUIScheme, ui_host = drop 9 t, ui_path = ''/'', ui_rest = []\<rparr>
      else if take 9 t = ''roamux://'' then Some \<lparr>ui_scheme = kRoamuxScheme, ui_host = drop 9 t, ui_path = ''/'', ui_rest = []\<rparr>
      else None)"

theorem branded_text_leads_back_witness:
  "\<exists>v. demo_parse (MaybeBrandFormattedUrlForDisplay True
        \<lparr>ui_scheme = kChromeUIScheme, ui_host = ''about'', ui_path = ''/'', ui_rest = []\<rparr> ''chrome://about'') = Some v \<and>
     snd (MaybeRewriteRoamuxAliasURL True v) =
       \<lparr>ui_scheme = kChromeUIScheme, ui_host = ''settings'', ui_path = ''/help'', ui_rest = []\<rparr>"
proof -
  let ?u = "\<lparr>ui_scheme = kChromeUIScheme, ui_host = ''about'', ui_path = ''/'', ui_rest = []\<rparr>"
  have "schemes_parse_alike demo_parse" by (simp add: schemes_parse_alike_def demo_parse_def)
  moreover have "demo_parse (kChromePrefix @ ''about'') = Some ?u" by (simp add: demo_parse_def kChromePrefix_def)
  ultimately have "\<exists>v. demo_parse (MaybeBrandFormattedUrlForDisplay True ?u (kChromePrefix @ ''about'')) = Some v \<and>
      snd (MaybeRewriteRoamuxAliasURL True v) = ?u\<lparr>ui_host := ''settings'', ui_path := ''/help''\<rparr>"
    using branded_text_leads_back [of demo_parse ?u "''about''", OF _ _ _ refl] by auto
  then show ?thesis by (simp add: kChromePrefix_def)
qed

end
