(* ===== verification/Shell.thy ===== *)
theory Shell
  imports Prelude Surfaces "HOL-Library.Word"
begin

text \<open>
  What the overlay asks of the platform around it: the check of an update's signature
  (\<open>roamux/app/appcast_verifier.cc\<close>), the caption of a key in the shortcuts page
  (\<open>roamux/browser/ui/webui/chord_display.mm\<close>) and the dialog that answers an inert sign-in
  (\<open>roamux/browser/ui/signin/signin_inert_dialog.cc\<close>). Base64, Ed25519, the keyboard layout, case
  conversion and Chromium's key tables are arguments; the decisions over their answers are the code's.
\<close>

subsection \<open>The signature of an appcast enclosure\<close>

definition ED25519_SIGNATURE_LEN :: nat where "ED25519_SIGNATURE_LEN = 64"
definition ED25519_PUBLIC_KEY_LEN :: nat where "ED25519_PUBLIC_KEY_LEN = 32"

text \<open>\<open>verify\<close> returns the C function's int; only 1 means that the signature holds.\<close>

definition VerifyAppcastSignature ::
  "(string \<Rightarrow> 8 word list option) \<Rightarrow> (8 word list \<Rightarrow> 8 word list \<Rightarrow> 8 word list \<Rightarrow> int)
   \<Rightarrow> 8 word list \<Rightarrow> string \<Rightarrow> string \<Rightarrow> bool" where
  "VerifyAppcastSignature decode verify enclosure signature_base64 public_key_base64 =
     (case decode signature_base64 of
        None \<Rightarrow> False
      | Some signature \<Rightarrow>
          if length signature \<noteq> ED25519_SIGNATURE_LEN then False
          else (case decode public_key_base64 of
                  None \<Rightarrow> False
                | Some public_key \<Rightarrow>
                    if length public_key \<noteq> ED25519_PUBLIC_KEY_LEN then False
                    else verify enclosure signature public_key = 1))"

lemma verified_enclosures:
  "VerifyAppcastSignature decode verify enclosure s k \<longleftrightarrow>
     (\<exists>signature public_key.
        decode s = Some signature \<and> length signature = 64 \<and>
        decode k = Some public_key \<and> length public_key = 32 \<and>
        verify enclosure signature public_key = 1)"
  by (auto simp: VerifyAppcastSignature_def ED25519_SIGNATURE_LEN_def ED25519_PUBLIC_KEY_LEN_def
      split: option.splits)

text \<open>The library is never handed a buffer of another length than its signature and key have.\<close>

lemma verifier_sees_only_sized_buffers:
  assumes "\<And>e s k. length s = 64 \<Longrightarrow> length k = 32 \<Longrightarrow> verify e s k = verify' e s k"
  shows "VerifyAppcastSignature decode verify enclosure s k = VerifyAppcastSignature decode verify' enclosure s k"
  using assms unfolding verified_enclosures by metis

subsection \<open>The caption of a key\<close>

text \<open>A UTF-16 code unit.\<close>

type_synonym uni_char = "16 word"

definition IsDisplayableKeyChar :: "(uni_char \<Rightarrow> bool) \<Rightarrow> uni_char \<Rightarrow> bool" where
  "IsDisplayableKeyChar is_control ch =
     (if ch = 0 \<or> ch = 0xFFFD then False
      else if is_control ch then False
      else if 0xD800 \<le> ch \<and> ch \<le> 0xDFFF then False
      else True)"

text \<open>
  The platform's answers for a key code: the layout's character, the canonical accelerator's text, the name
  of the DOM code, and the two conversions of text.
\<close>

record key_platform =
  IsUnicodeControl :: "uni_char \<Rightarrow> bool"
  TranslatedUnicodeCharFromKeyCode :: "16 word \<Rightarrow> uni_char"
  GetShortcutText :: "16 word \<Rightarrow> uni_char list"
  DomCodeToCodeString :: "16 word \<Rightarrow> string"
  ToUpper :: "uni_char list \<Rightarrow> uni_char list"
  UTF16ToUTF8 :: "uni_char list \<Rightarrow> string"

definition ChordKeyDisplayString :: "key_platform \<Rightarrow> 16 word \<Rightarrow> string" where
  "ChordKeyDisplayString p keycode =
     (let ch = TranslatedUnicodeCharFromKeyCode p keycode
      in if IsDisplayableKeyChar (IsUnicodeControl p) ch then UTF16ToUTF8 p (ToUpper p [ch])
         else let accel_text = GetShortcutText p keycode
              in if accel_text \<noteq> [] then UTF16ToUTF8 p accel_text
                 else let code_string = DomCodeToCodeString p keycode
                      in if code_string \<noteq> [] then code_string else ''?'')"

text \<open>A surrogate is never shown alone, whatever the platform calls a control character.\<close>

lemma displayable_units:
  assumes "IsDisplayableKeyChar is_control ch"
  shows "ch \<noteq> 0" "ch \<noteq> 0xFFFD" "\<not> is_control ch" "unat ch < 0xD800 \<or> 0xDFFF < unat ch"
  using assms by (auto simp: IsDisplayableKeyChar_def word_le_nat_alt not_le split: if_splits)

text \<open>
  The caption is empty for no key: the conversions keep non-empty text non-empty, as ICU's and base's do.
\<close>

lemma caption_is_never_empty:
  assumes "\<And>t. t \<noteq> [] \<Longrightarrow> ToUpper p t \<noteq> []" "\<And>t. t \<noteq> [] \<Longrightarrow> UTF16ToUTF8 p t \<noteq> []"
  shows "ChordKeyDisplayString p keycode \<noteq> []"
  using assms by (simp add: ChordKeyDisplayString_def Let_def)

text \<open>The later sources matter only where the earlier ones have nothing.\<close>

lemma caption_prefers_the_layout:
  assumes "IsDisplayableKeyChar (IsUnicodeControl p) (TranslatedUnicodeCharFromKeyCode p keycode)"
  shows "ChordKeyDisplayString (p\<lparr>GetShortcutText := a, DomCodeToCodeString := d\<rparr>) keycode =
         ChordKeyDisplayString p keycode"
  using assms by (simp add: ChordKeyDisplayString_def Let_def)

subsection \<open>The dialog of an inert sign-in\<close>

text \<open>
  A browser found for the profile, with the explanations shown modally on its window; the profile pointer
  may be null, and a browser may have no window.
\<close>

record 'p signin_world =
  signin_state :: signin_flags
  windowed_browser_of :: "'p \<Rightarrow> bool option"
  modal_dialogs :: "('p \<times> string) list"

definition MaybeInterceptInertSignin ::
  "bool \<Rightarrow> SigninBuildState \<Rightarrow> 'p option \<Rightarrow> 'p signin_world \<Rightarrow> bool \<times> 'p signin_world" where
  "MaybeInterceptInertSignin brave_style build profile w =
     (if \<not> ShouldInterceptSigninForState brave_style build then (False, w)
      else let w1 = w\<lparr>signin_state := RecordInertSigninIntercepted (signin_state w)\<rparr>
           in if g_dialog_suppressed (signin_state w1)
              then (True, w1\<lparr>signin_state := RecordInertExplanationShown (signin_state w1)\<rparr>)
              else (case profile of
                      None \<Rightarrow> (True, w1)
                    | Some p \<Rightarrow>
                        (case windowed_browser_of w1 p of
                           Some True \<Rightarrow>
                             (True, w1\<lparr>modal_dialogs := modal_dialogs w1 @ [(p, GetInertSigninExplanation build)],
                                       signin_state := RecordInertExplanationShown (signin_state w1)\<rparr>)
                         | _ \<Rightarrow> (True, w1))))"

text \<open>
  A sign-in is taken over exactly when the build cannot sign in; each one taken over is recorded, and a
  dialog always explains something and opens only on a window of the profile that asked.
\<close>

lemma inert_signin_is_answered:
  assumes "MaybeInterceptInertSignin brave_style build profile w = (taken, w')"
  shows "taken = (brave_style \<and> IsSigninInert build)"
    "taken \<Longrightarrow> g_intercepted (signin_state w')" "\<not> taken \<Longrightarrow> w' = w"
    "modal_dialogs w' = modal_dialogs w \<or>
     (\<exists>p text. profile = Some p \<and> windowed_browser_of w p = Some True \<and> text \<noteq> [] \<and>
        modal_dialogs w' = modal_dialogs w @ [(p, text)] \<and> g_explanation_shown (signin_state w'))"
  using assms intercepted_is_explained [of brave_style build]
  by (auto simp: MaybeInterceptInertSignin_def RecordInertSigninIntercepted_def RecordInertExplanationShown_def
      Let_def split: if_splits option.splits bool.splits)

end
