(* ===== verification/Updates.thy ===== *)
theory Updates
  imports Prelude Histories Complex_Main "HOL-Library.Word"
begin

text \<open>
  The updater, \<open>roamux/browser/updates/\<close>: the state machine (\<open>update_state_machine.cc\<close>), the Sparkle
  user driver (\<open>roamux_update_user_driver.mm\<close>), the process-wide owner with the per-profile services
  (\<open>roamux_update_service.mm\<close>) and the About row's adapter (\<open>roamux_version_updater.cc\<close>), as one world.

  Sparkle is the environment: its calls of the user driver are events, in any order, and what the code
  calls in Sparkle (\<open>checkForUpdates\<close>, a reply block) is appended to a log. Every such call is the last
  thing the code does, so a call back from inside it is the next event. A reply block is a number.
  Doubles are rationals with the rounding \<open>fl\<close> applied after each operation. The strings of
  the messages are lists of 16-bit units; \<open>to16\<close> is \<open>base::UTF8ToUTF16\<close>.
\<close>

subsection \<open>The state machine\<close>

datatype UpdateStatus = kIdle | kChecking | kUpToDate | kAvailable | kDownloading | kReadyToInstall | kError

datatype UpdateEventType = ev_kCheckStarted | ev_kUpToDate | ev_kUpdateFound | ev_kDownloadStarted
  | ev_kDownloadProgress | ev_kReadyToInstall | ev_kError

record UpdateEvent =
  ev_type :: UpdateEventType
  ev_version :: string
  ev_date :: string
  ev_notes :: string
  ev_error :: string
  ev_received :: int
  ev_total :: int

definition event_of :: "UpdateEventType \<Rightarrow> UpdateEvent" where
  "event_of t = \<lparr>ev_type = t, ev_version = [], ev_date = [], ev_notes = [], ev_error = [],
                 ev_received = 0, ev_total = 0\<rparr>"

record UpdateSnapshot =
  status :: UpdateStatus
  sn_version :: string
  sn_date :: string
  sn_notes :: string
  sn_error :: string
  progress :: rat

definition new_snapshot :: UpdateSnapshot where
  "new_snapshot = \<lparr>status = kIdle, sn_version = [], sn_date = [], sn_notes = [], sn_error = [], progress = 0\<rparr>"

record UpdateStateMachine =
  machine_snapshot :: UpdateSnapshot
  skipped_version :: string

definition new_machine :: UpdateStateMachine where
  "new_machine = \<lparr>machine_snapshot = new_snapshot, skipped_version = []\<rparr>"

definition SetSkippedVersion :: "string \<Rightarrow> UpdateStateMachine \<Rightarrow> UpdateStateMachine" where
  "SetSkippedVersion v m = m\<lparr>skipped_version := v\<rparr>"

definition clamped_progress :: "(rat \<Rightarrow> rat) \<Rightarrow> UpdateEvent \<Rightarrow> rat" where
  "clamped_progress fl e =
     (let p = fl (fl (of_int (ev_received e)) / fl (of_int (ev_total e)))
      in if p < 0 then 0 else if p > 1 then 1 else p)"

definition OnUpdateFound :: "UpdateEvent \<Rightarrow> UpdateStateMachine \<Rightarrow> UpdateSnapshot" where
  "OnUpdateFound e m =
     (let s = machine_snapshot m
      in if status s = kDownloading \<or> status s = kReadyToInstall then s
         else if ev_version e \<noteq> [] \<and> ev_version e = skipped_version m
         then (if status s = kChecking then s\<lparr>status := kUpToDate\<rparr> else s)
         else new_snapshot\<lparr>status := kAvailable, sn_version := ev_version e, sn_date := ev_date e,
                           sn_notes := ev_notes e\<rparr>)"

definition machine_OnEvent :: "(rat \<Rightarrow> rat) \<Rightarrow> UpdateEvent \<Rightarrow> UpdateStateMachine \<Rightarrow> UpdateStateMachine" where
  "machine_OnEvent fl e m =
     (let s = machine_snapshot m
      in m\<lparr>machine_snapshot :=
        (case ev_type e of
           ev_kCheckStarted \<Rightarrow> new_snapshot\<lparr>status := kChecking\<rparr>
         | ev_kUpToDate \<Rightarrow> if status s = kChecking then s\<lparr>status := kUpToDate\<rparr> else s
         | ev_kUpdateFound \<Rightarrow> OnUpdateFound e m
         | ev_kDownloadStarted \<Rightarrow> if status s = kAvailable then s\<lparr>status := kDownloading, progress := 0\<rparr> else s
         | ev_kDownloadProgress \<Rightarrow>
             if status s = kDownloading \<and> ev_total e > 0 then s\<lparr>progress := clamped_progress fl e\<rparr> else s
         | ev_kReadyToInstall \<Rightarrow>
             if status s = kDownloading then s\<lparr>status := kReadyToInstall, progress := 1\<rparr> else s
         | ev_kError \<Rightarrow> s\<lparr>status := kError, sn_error := ev_error e\<rparr>)\<rparr>)"

subsection \<open>The About row's mapping\<close>

type_synonym u16string = "16 word list"

definition u16 :: "string \<Rightarrow> u16string" where "u16 s = map (\<lambda>c. of_nat (of_char c)) s"

datatype UpdateErrorClass = kCheckFailed | kDownloadFailed | kSignatureFailed | kInstallFailed | kUpdaterUnavailable

datatype RowStatus = CHECKING | UPDATED | NEED_PERMISSION_TO_UPDATE | UPDATING | NEARLY_UPDATED | FAILED

record MappedStatus =
  row_status :: RowStatus
  row_progress :: int
  message :: u16string
  offer_retry :: bool
  emits :: bool

definition kUpdaterUnavailableErrorPrefix :: string where
  "kUpdaterUnavailableErrorPrefix = ''updater-unavailable: ''"

text \<open>\<open>std::string::find\<close>, \<open>base::ToLowerASCII\<close> and \<open>base::StartsWith\<close>.\<close>

fun contains :: "string \<Rightarrow> string \<Rightarrow> bool" where
  "contains sub [] \<longleftrightarrow> sub = []"
| "contains sub (c # cs) \<longleftrightarrow> take (length sub) (c # cs) = sub \<or> contains sub cs"

definition to_lower_char :: "char \<Rightarrow> char" where
  "to_lower_char c = (let n = of_char c :: nat in if 65 \<le> n \<and> n \<le> 90 then char_of (n + 32) else c)"

definition ClassifyUpdateError :: "string \<Rightarrow> UpdateErrorClass" where
  "ClassifyUpdateError error_text =
     (if starts_with error_text kUpdaterUnavailableErrorPrefix then kUpdaterUnavailable
      else let lower = map to_lower_char error_text
           in if contains ''sign'' lower \<or> contains ''validat'' lower \<or> contains ''verif'' lower then kSignatureFailed
              else if contains ''install'' lower then kInstallFailed
              else if contains ''download'' lower then kDownloadFailed
              else kCheckFailed)"

fun ErrorCopy :: "UpdateErrorClass \<Rightarrow> u16string" where
  "ErrorCopy kCheckFailed = u16 ''Couldn't check for updates. Check your connection and try again.''"
| "ErrorCopy kDownloadFailed = u16 ''Couldn't download the update. Check your connection and try again.''"
| "ErrorCopy kSignatureFailed = u16 ''The update couldn't be verified and wasn't installed.''"
| "ErrorCopy kInstallFailed = u16 ''Couldn't install the update.''"
| "ErrorCopy kUpdaterUnavailable = u16 ''Updates aren't available in this build.''"

text \<open>\<open>static_cast<int>\<close> of a double truncates towards zero; \<open>std::clamp\<close>.\<close>

definition cast_int :: "rat \<Rightarrow> int" where "cast_int x = (if 0 \<le> x then \<lfloor>x\<rfloor> else \<lceil>x\<rceil>)"

definition clamp :: "rat \<Rightarrow> rat \<Rightarrow> rat \<Rightarrow> rat" where
  "clamp x lo hi = (if x < lo then lo else if hi < x then hi else x)"

definition new_mapped :: MappedStatus where
  "new_mapped = \<lparr>row_status = CHECKING, row_progress = 0, message = [], offer_retry = False, emits = True\<rparr>"

definition MapError :: "(string \<Rightarrow> u16string) \<Rightarrow> UpdateSnapshot \<Rightarrow> MappedStatus" where
  "MapError to16 s =
     (let error_class = ClassifyUpdateError (sn_error s)
      in new_mapped\<lparr>row_status := FAILED,
           offer_retry := error_class \<noteq> kSignatureFailed \<and> error_class \<noteq> kUpdaterUnavailable,
           message := (if sn_error s = [] then ErrorCopy error_class
                       else ErrorCopy error_class @ u16 [CHR 10] @ to16 (sn_error s))\<rparr>)"

definition MapSnapshot :: "(rat \<Rightarrow> rat) \<Rightarrow> (string \<Rightarrow> u16string) \<Rightarrow> UpdateSnapshot \<Rightarrow> MappedStatus" where
  "MapSnapshot fl to16 s =
     (case status s of
        kIdle \<Rightarrow> new_mapped\<lparr>emits := False\<rparr>
      | kChecking \<Rightarrow> new_mapped\<lparr>row_status := CHECKING\<rparr>
      | kUpToDate \<Rightarrow> new_mapped\<lparr>row_status := UPDATED\<rparr>
      | kAvailable \<Rightarrow> new_mapped\<lparr>row_status := NEED_PERMISSION_TO_UPDATE,
          message := u16 ''Roamux '' @ to16 (sn_version s) @ u16 '' is available''\<rparr>
      | kDownloading \<Rightarrow> new_mapped\<lparr>row_status := UPDATING,
          row_progress := cast_int (fl (fl (clamp (progress s) 0 1 * 100) + 1 / 2))\<rparr>
      | kReadyToInstall \<Rightarrow> new_mapped\<lparr>row_status := NEARLY_UPDATED\<rparr>
      | kError \<Rightarrow> MapError to16 s)"

subsection \<open>The user driver, the owner, the services and the rows\<close>

datatype UserUpdateChoice = ChoiceInstall | ChoiceSkip

type_synonym reply_block = nat

datatype sparkle_call = Check_for_updates | Run_reply reply_block UserUpdateChoice | Permission_granted
  | Acknowledged

record RoamuxUpdateUserDriver =
  expectedLength :: "64 word"
  receivedLength :: "64 word"
  pendingFound :: "UpdateEvent option"
  foundReply :: "reply_block option"
  readyReply :: "reply_block option"

text \<open>
  A row is a \<open>RoamuxVersionUpdater\<close>: its service, whether it has a status callback and a subscription,
  and the calls of that callback.
\<close>

record shown_status =
  shown_row :: RowStatus
  shown_progress :: int
  shown_version :: string
  shown_message :: u16string

record RoamuxVersionUpdater =
  commands :: nat
  has_callback :: bool
  subscribed :: bool
  shown :: "shown_status list"

record RoamuxUpdateService =
  state_machine :: UpdateStateMachine
  checks_for_testing :: nat
  downloads_for_testing :: nat
  relaunches_for_testing :: nat
  snapshot_callbacks :: "nat list"

record update_world =
  driver :: RoamuxUpdateUserDriver
  updater_present :: bool
  start_error :: "string option"
  automatic_checks_enabled :: bool
  sinks :: "nat list"
  services :: "nat \<rightharpoonup> RoamuxUpdateService"
  rows :: "nat \<rightharpoonup> RoamuxVersionUpdater"
  sparkle_log :: "sparkle_call list"

text \<open>The arithmetic and the conversion the code runs with.\<close>

record update_env =
  fl_of :: "rat \<Rightarrow> rat"
  to16_of :: "string \<Rightarrow> u16string"

definition shown_of :: "update_env \<Rightarrow> UpdateSnapshot \<Rightarrow> shown_status" where
  "shown_of env s =
     (let m = MapSnapshot (fl_of env) (to16_of env) s
      in \<lparr>shown_row = row_status m, shown_progress = row_progress m, shown_version = sn_version s,
          shown_message = message m\<rparr>)"

definition OnSnapshot :: "update_env \<Rightarrow> UpdateSnapshot \<Rightarrow> RoamuxVersionUpdater \<Rightarrow> RoamuxVersionUpdater" where
  "OnSnapshot env s r =
     (if \<not> has_callback r then r
      else if \<not> emits (MapSnapshot (fl_of env) (to16_of env) s) then r
      else r\<lparr>shown := shown r @ [shown_of env s]\<rparr>)"

definition notify_row :: "update_env \<Rightarrow> UpdateSnapshot \<Rightarrow> nat \<Rightarrow> update_world \<Rightarrow> update_world" where
  "notify_row env s r w = w\<lparr>rows := (rows w)(r := map_option (OnSnapshot env s) (rows w r))\<rparr>"

definition PushSnapshot :: "update_env \<Rightarrow> nat list \<Rightarrow> UpdateSnapshot \<Rightarrow> update_world \<Rightarrow> update_world" where
  "PushSnapshot env callbacks s w = fold (notify_row env s) callbacks w"

definition OnUpdateEvent :: "update_env \<Rightarrow> UpdateEvent \<Rightarrow> nat \<Rightarrow> update_world \<Rightarrow> update_world" where
  "OnUpdateEvent env e f w =
     (case services w f of
        None \<Rightarrow> w
      | Some s \<Rightarrow>
          let m = machine_OnEvent (fl_of env) e (state_machine s)
          in PushSnapshot env (snapshot_callbacks s) (machine_snapshot m)
               (w\<lparr>services := (services w)(f \<mapsto> s\<lparr>state_machine := m\<rparr>)\<rparr>))"

definition NotifySinks :: "update_env \<Rightarrow> UpdateEvent \<Rightarrow> update_world \<Rightarrow> update_world" where
  "NotifySinks env e w = fold (OnUpdateEvent env e) (sinks w) w"

definition on_driver :: "(RoamuxUpdateUserDriver \<Rightarrow> RoamuxUpdateUserDriver) \<Rightarrow> update_world \<Rightarrow> update_world" where
  "on_driver f w = w\<lparr>driver := f (driver w)\<rparr>"

definition call_sparkle :: "sparkle_call \<Rightarrow> update_world \<Rightarrow> update_world" where
  "call_sparkle c w = w\<lparr>sparkle_log := sparkle_log w @ [c]\<rparr>"

definition consumeFoundReplyWith :: "UserUpdateChoice \<Rightarrow> update_world \<Rightarrow> update_world" where
  "consumeFoundReplyWith choice w =
     (case foundReply (driver w) of
        None \<Rightarrow> w
      | Some reply \<Rightarrow>
          call_sparkle (Run_reply reply choice)
            (on_driver (\<lambda>d. d\<lparr>foundReply := None, pendingFound := None\<rparr>) w))"

definition commandDownload :: "update_world \<Rightarrow> update_world" where
  "commandDownload w = consumeFoundReplyWith ChoiceInstall w"

definition commandSkipVersion :: "update_world \<Rightarrow> update_world" where
  "commandSkipVersion w = consumeFoundReplyWith ChoiceSkip w"

definition commandInstallAndRelaunch :: "update_world \<Rightarrow> update_world" where
  "commandInstallAndRelaunch w =
     (case readyReply (driver w) of
        None \<Rightarrow> w
      | Some reply \<Rightarrow>
          call_sparkle (Run_reply reply ChoiceInstall) (on_driver (\<lambda>d. d\<lparr>readyReply := None\<rparr>) w))"

definition dropPendingOffer :: "RoamuxUpdateUserDriver \<Rightarrow> RoamuxUpdateUserDriver" where
  "dropPendingOffer d = d\<lparr>pendingFound := None, foundReply := None\<rparr>"

text \<open>Sparkle's calls of the driver. \<open>appcastItem\<close> is what the code reads of it.\<close>

record appcast_item =
  displayVersionString :: "string option"
  versionString :: string
  itemDescription :: "string option"

definition found_event :: "appcast_item \<Rightarrow> UpdateEvent" where
  "found_event i = (event_of ev_kUpdateFound)
     \<lparr>ev_version := (case displayVersionString i of Some v \<Rightarrow> v | None \<Rightarrow> versionString i),
      ev_notes := (case itemDescription i of Some n \<Rightarrow> n | None \<Rightarrow> [])\<rparr>"

definition showUpdatePermissionRequest :: "update_world \<Rightarrow> update_world" where
  "showUpdatePermissionRequest w = call_sparkle Permission_granted w"

definition showUserInitiatedUpdateCheck :: "update_env \<Rightarrow> update_world \<Rightarrow> update_world" where
  "showUserInitiatedUpdateCheck env w = NotifySinks env (event_of ev_kCheckStarted) w"

definition showUpdateFound :: "update_env \<Rightarrow> appcast_item \<Rightarrow> reply_block \<Rightarrow> update_world \<Rightarrow> update_world" where
  "showUpdateFound env i reply w =
     NotifySinks env (found_event i)
       (on_driver (\<lambda>d. d\<lparr>foundReply := Some reply, pendingFound := Some (found_event i)\<rparr>) w)"

definition showUpdateNotFound :: "update_env \<Rightarrow> update_world \<Rightarrow> update_world" where
  "showUpdateNotFound env w =
     call_sparkle Acknowledged (NotifySinks env (event_of ev_kUpToDate) (on_driver dropPendingOffer w))"

definition showUpdaterError :: "update_env \<Rightarrow> string \<Rightarrow> update_world \<Rightarrow> update_world" where
  "showUpdaterError env err w =
     call_sparkle Acknowledged
       (NotifySinks env ((event_of ev_kError)\<lparr>ev_error := err\<rparr>) (on_driver dropPendingOffer w))"

definition showDownloadInitiated :: "update_env \<Rightarrow> update_world \<Rightarrow> update_world" where
  "showDownloadInitiated env w =
     NotifySinks env (event_of ev_kDownloadStarted) (on_driver (\<lambda>d. d\<lparr>pendingFound := None\<rparr>) w)"

definition showDownloadDidReceiveExpectedContentLength :: "64 word \<Rightarrow> update_world \<Rightarrow> update_world" where
  "showDownloadDidReceiveExpectedContentLength n w = on_driver (\<lambda>d. d\<lparr>expectedLength := n\<rparr>) w"

definition progress_event :: "RoamuxUpdateUserDriver \<Rightarrow> UpdateEvent" where
  "progress_event d = (event_of ev_kDownloadProgress)
     \<lparr>ev_received := sint (receivedLength d), ev_total := sint (expectedLength d)\<rparr>"

definition showDownloadDidReceiveDataOfLength :: "update_env \<Rightarrow> 64 word \<Rightarrow> update_world \<Rightarrow> update_world" where
  "showDownloadDidReceiveDataOfLength env n w =
     (let w1 = on_driver (\<lambda>d. d\<lparr>receivedLength := receivedLength d + n\<rparr>) w
      in NotifySinks env (progress_event (driver w1)) w1)"

definition showReadyToInstallAndRelaunch :: "update_env \<Rightarrow> reply_block \<Rightarrow> update_world \<Rightarrow> update_world" where
  "showReadyToInstallAndRelaunch env reply w =
     NotifySinks env (event_of ev_kReadyToInstall) (on_driver (\<lambda>d. d\<lparr>readyReply := Some reply\<rparr>) w)"

definition showUpdateInstalledAndRelaunched :: "update_world \<Rightarrow> update_world" where
  "showUpdateInstalledAndRelaunched w = call_sparkle Acknowledged w"

definition dismissUpdateInstallation :: "update_world \<Rightarrow> update_world" where
  "dismissUpdateInstallation w = on_driver dropPendingOffer w"

definition showUpdateInFocus :: "update_env \<Rightarrow> update_world \<Rightarrow> update_world" where
  "showUpdateInFocus env w =
     (case pendingFound (driver w) of None \<Rightarrow> w | Some e \<Rightarrow> NotifySinks env e w)"

text \<open>The owner.\<close>

definition new_driver :: RoamuxUpdateUserDriver where
  "new_driver = \<lparr>expectedLength = 0, receivedLength = 0, pendingFound = None, foundReply = None, readyReply = None\<rparr>"

text \<open>An \<open>NSError\<close> is its domain, code (already printed) and description; nil is None.\<close>

definition start_failure :: "(string \<times> string \<times> string) option \<Rightarrow> string" where
  "start_failure err =
     (let (domain, code, description) =
            (case err of Some x \<Rightarrow> x | None \<Rightarrow> (''unknown'', ''0'', ''no error object''))
      in kUpdaterUnavailableErrorPrefix @ ''['' @ domain @ '' '' @ code @ ''] '' @ description)"

definition HandleStartResult ::
  "bool \<Rightarrow> (string \<times> string \<times> string) option \<Rightarrow> update_world \<Rightarrow> update_world" where
  "HandleStartResult started err w =
     (if started then w\<lparr>automatic_checks_enabled := True\<rparr>
      else w\<lparr>start_error := Some (start_failure err)\<rparr>)"

text \<open>Production has an \<open>SPUUpdater\<close> whether or not it started; an owner for testing has none.\<close>

definition SparkleOwner :: "bool \<Rightarrow> bool \<Rightarrow> (string \<times> string \<times> string) option \<Rightarrow> update_world" where
  "SparkleOwner production started err =
     HandleStartResult started err
       \<lparr>driver = new_driver, updater_present = production, start_error = None,
        automatic_checks_enabled = False, sinks = [], services = Map.empty, rows = Map.empty, sparkle_log = []\<rparr>"

definition error_event :: "string \<Rightarrow> UpdateEvent" where
  "error_event s = (event_of ev_kError)\<lparr>ev_error := s\<rparr>"

definition AddEventSink :: "update_env \<Rightarrow> nat \<Rightarrow> update_world \<Rightarrow> update_world" where
  "AddEventSink env f w =
     (let w1 = (case start_error w of None \<Rightarrow> w | Some s \<Rightarrow> OnUpdateEvent env (error_event s) f w);
          w2 = (case pendingFound (driver w) of None \<Rightarrow> w1 | Some e \<Rightarrow> OnUpdateEvent env e f w1)
      in w2\<lparr>sinks := sinks w2 @ [f]\<rparr>)"

definition owner_CheckForUpdates :: "update_world \<Rightarrow> update_world" where
  "owner_CheckForUpdates w = (if updater_present w then call_sparkle Check_for_updates w else w)"

text \<open>The per-profile service \<open>f\<close>.\<close>

definition new_service :: RoamuxUpdateService where
  "new_service = \<lparr>state_machine = new_machine, checks_for_testing = 0, downloads_for_testing = 0,
                  relaunches_for_testing = 0, snapshot_callbacks = []\<rparr>"

definition on_service :: "(RoamuxUpdateService \<Rightarrow> RoamuxUpdateService) \<Rightarrow> nat \<Rightarrow> update_world \<Rightarrow> update_world" where
  "on_service g f w = w\<lparr>services := (services w)(f := map_option g (services w f))\<rparr>"

definition create_service :: "update_env \<Rightarrow> nat \<Rightarrow> update_world \<Rightarrow> update_world" where
  "create_service env f w = AddEventSink env f (w\<lparr>services := (services w)(f \<mapsto> new_service)\<rparr>)"

definition destroy_service :: "nat \<Rightarrow> update_world \<Rightarrow> update_world" where
  "destroy_service f w = w\<lparr>sinks := filter (\<lambda>x. x \<noteq> f) (sinks w), services := (services w)(f := None)\<rparr>"

definition svc_CheckForUpdates :: "nat \<Rightarrow> update_world \<Rightarrow> update_world" where
  "svc_CheckForUpdates f w =
     owner_CheckForUpdates (on_service (\<lambda>s. s\<lparr>checks_for_testing := checks_for_testing s + 1\<rparr>) f w)"

definition svc_Download :: "nat \<Rightarrow> update_world \<Rightarrow> update_world" where
  "svc_Download f w =
     commandDownload (on_service (\<lambda>s. s\<lparr>downloads_for_testing := downloads_for_testing s + 1\<rparr>) f w)"

definition svc_InstallAndRelaunch :: "nat \<Rightarrow> update_world \<Rightarrow> update_world" where
  "svc_InstallAndRelaunch f w =
     commandInstallAndRelaunch (on_service (\<lambda>s. s\<lparr>relaunches_for_testing := relaunches_for_testing s + 1\<rparr>) f w)"

definition svc_Skip :: "nat \<Rightarrow> string \<Rightarrow> update_world \<Rightarrow> update_world" where
  "svc_Skip f v w =
     commandSkipVersion (on_service (\<lambda>s. s\<lparr>state_machine := SetSkippedVersion v (state_machine s)\<rparr>) f w)"

definition SubscribeToSnapshots :: "update_env \<Rightarrow> nat \<Rightarrow> nat \<Rightarrow> update_world \<Rightarrow> update_world" where
  "SubscribeToSnapshots env f r w =
     (case services w f of
        None \<Rightarrow> w
      | Some s \<Rightarrow>
          notify_row env (machine_snapshot (state_machine s)) r
            (on_service (\<lambda>s. s\<lparr>snapshot_callbacks := snapshot_callbacks s @ [r]\<rparr>) f w))"

text \<open>The About row \<open>r\<close>.\<close>

definition create_row :: "nat \<Rightarrow> nat \<Rightarrow> update_world \<Rightarrow> update_world" where
  "create_row r f w =
     w\<lparr>rows := (rows w)(r \<mapsto> \<lparr>commands = f, has_callback = False, subscribed = False, shown = []\<rparr>)\<rparr>"

definition destroy_row :: "nat \<Rightarrow> update_world \<Rightarrow> update_world" where
  "destroy_row r w =
     w\<lparr>services := (\<lambda>f. map_option (\<lambda>s. s\<lparr>snapshot_callbacks := filter (\<lambda>x. x \<noteq> r) (snapshot_callbacks s)\<rparr>) (services w f)),
       rows := (rows w)(r := None)\<rparr>"

definition row_CheckForUpdate :: "update_env \<Rightarrow> nat \<Rightarrow> update_world \<Rightarrow> update_world" where
  "row_CheckForUpdate env r w =
     (case rows w r of
        None \<Rightarrow> w
      | Some row \<Rightarrow>
          let f = commands row;
              w1 = w\<lparr>rows := (rows w)(r \<mapsto> row\<lparr>has_callback := True\<rparr>)\<rparr>;
              w2 = (if subscribed row then w1
                    else let w' = SubscribeToSnapshots env f r w1
                         in w'\<lparr>rows := (rows w')(r := map_option (\<lambda>x. x\<lparr>subscribed := True\<rparr>) (rows w' r))\<rparr>)
          in svc_CheckForUpdates f w2)"

subsection \<open>Everything that can happen\<close>

datatype update_action =
    Sparkle_permission | Sparkle_check_started | Sparkle_found appcast_item reply_block | Sparkle_not_found
  | Sparkle_error string | Sparkle_download_started | Sparkle_expected "64 word" | Sparkle_data "64 word"
  | Sparkle_ready reply_block | Sparkle_installed | Sparkle_dismiss | Sparkle_in_focus
  | Service_created nat | Service_destroyed nat | Row_created nat nat | Row_destroyed nat
  | Row_checks nat | Download nat | Install nat | Skip nat string

fun act :: "update_env \<Rightarrow> update_action \<Rightarrow> update_world \<Rightarrow> update_world" where
  "act env Sparkle_permission w = showUpdatePermissionRequest w"
| "act env Sparkle_check_started w = showUserInitiatedUpdateCheck env w"
| "act env (Sparkle_found i r) w = showUpdateFound env i r w"
| "act env Sparkle_not_found w = showUpdateNotFound env w"
| "act env (Sparkle_error s) w = showUpdaterError env s w"
| "act env Sparkle_download_started w = showDownloadInitiated env w"
| "act env (Sparkle_expected n) w = showDownloadDidReceiveExpectedContentLength n w"
| "act env (Sparkle_data n) w = showDownloadDidReceiveDataOfLength env n w"
| "act env (Sparkle_ready r) w = showReadyToInstallAndRelaunch env r w"
| "act env Sparkle_installed w = showUpdateInstalledAndRelaunched w"
| "act env Sparkle_dismiss w = dismissUpdateInstallation w"
| "act env Sparkle_in_focus w = showUpdateInFocus env w"
| "act env (Service_created f) w = create_service env f w"
| "act env (Service_destroyed f) w = destroy_service f w"
| "act env (Row_created r f) w = create_row r f w"
| "act env (Row_destroyed r) w = destroy_row r w"
| "act env (Row_checks r) w = row_CheckForUpdate env r w"
| "act env (Download f) w = svc_Download f w"
| "act env (Install f) w = svc_InstallAndRelaunch f w"
| "act env (Skip f v) w = svc_Skip f v w"

definition run_replies :: "update_world \<Rightarrow> reply_block list" where
  "run_replies w = List.map_filter (\<lambda>c. case c of Run_reply r _ \<Rightarrow> Some r | _ \<Rightarrow> None) (sparkle_log w)"

text \<open>
  What the environment keeps to: Sparkle hands over a new block each time, a service is created once
  per profile and outlives its rows, and a command comes from a living service.
\<close>

definition fresh_reply :: "reply_block \<Rightarrow> update_world \<Rightarrow> bool" where
  "fresh_reply r w \<longleftrightarrow>
     r \<notin> set (run_replies w) \<and> foundReply (driver w) \<noteq> Some r \<and> readyReply (driver w) \<noteq> Some r"

definition has_rows :: "nat \<Rightarrow> update_world \<Rightarrow> bool" where
  "has_rows f w \<longleftrightarrow> (\<exists>r row. rows w r = Some row \<and> commands row = f)"

fun act_ok :: "update_action \<Rightarrow> update_world \<Rightarrow> bool" where
  "act_ok (Sparkle_found i r) w = fresh_reply r w"
| "act_ok (Sparkle_ready r) w = fresh_reply r w"
| "act_ok (Service_created f) w = (services w f = None)"
| "act_ok (Service_destroyed f) w = (\<not> has_rows f w)"
| "act_ok (Row_created r f) w = (rows w r = None \<and> services w f \<noteq> None)"
| "act_ok a w = True"

inductive update_reachable :: "update_env \<Rightarrow> update_world \<Rightarrow> bool" for env where
  start: "update_reachable env (SparkleOwner production started err)"
| step: "update_reachable env w \<Longrightarrow> act_ok a w \<Longrightarrow> update_reachable env (act env a w)"

subsection \<open>What a broadcast leaves alone\<close>

definition same_owner :: "update_world \<Rightarrow> update_world \<Rightarrow> bool" where
  "same_owner w w' \<longleftrightarrow> driver w' = driver w \<and> updater_present w' = updater_present w \<and>
     start_error w' = start_error w \<and> automatic_checks_enabled w' = automatic_checks_enabled w \<and>
     sinks w' = sinks w \<and> sparkle_log w' = sparkle_log w"

lemma same_owner_refl [simp]: "same_owner w w"
  by (simp add: same_owner_def)

lemma same_owner_trans: "same_owner a b \<Longrightarrow> same_owner b c \<Longrightarrow> same_owner a c"
  by (simp add: same_owner_def)

lemma same_owner_fold: "(\<And>x w. same_owner w (g x w)) \<Longrightarrow> same_owner w (fold g xs w)"
  by (induction xs arbitrary: w) (auto intro: same_owner_trans)

lemma same_owner_notify: "same_owner w (notify_row env s r w)"
  by (simp add: same_owner_def notify_row_def)

lemma same_owner_Push: "same_owner w (PushSnapshot env cs s w)"
  unfolding PushSnapshot_def by (intro same_owner_fold same_owner_notify)

lemma same_owner_event: "same_owner w (OnUpdateEvent env e f w)"
proof (cases "services w f")
  case (Some s)
  have "same_owner w (w\<lparr>services := x\<rparr>)" for x by (simp add: same_owner_def)
  with Some show ?thesis
    by (simp add: OnUpdateEvent_def Let_def) (blast intro: same_owner_trans same_owner_Push)
qed (simp add: OnUpdateEvent_def)

lemma same_owner_Notify: "same_owner w (NotifySinks env e w)"
  unfolding NotifySinks_def by (intro same_owner_fold same_owner_event)

lemma same_owner_on_service: "same_owner w (on_service g f w)"
  by (simp add: same_owner_def on_service_def)

lemma same_owner_Subscribe: "same_owner w (SubscribeToSnapshots env f r w)"
  by (auto simp: SubscribeToSnapshots_def split: option.split
      intro: same_owner_trans [OF same_owner_on_service same_owner_notify])

lemmas owner_fields = same_owner_Notify [unfolded same_owner_def] same_owner_event [unfolded same_owner_def]
  same_owner_on_service [unfolded same_owner_def] same_owner_Subscribe [unfolded same_owner_def]

lemma owner_AddEventSink:
  "driver (AddEventSink env f w) = driver w" "sinks (AddEventSink env f w) = sinks w @ [f]"
  "sparkle_log (AddEventSink env f w) = sparkle_log w" "start_error (AddEventSink env f w) = start_error w"
  by (simp_all add: AddEventSink_def Let_def owner_fields split: option.split)

lemma run_replies_call [simp]:
  "run_replies (call_sparkle c w) = run_replies w @ (case c of Run_reply r _ \<Rightarrow> [r] | _ \<Rightarrow> [])"
  by (simp add: run_replies_def call_sparkle_def List.map_filter_def split: sparkle_call.split)

lemma run_replies_same: "sparkle_log w' = sparkle_log w \<Longrightarrow> run_replies w' = run_replies w"
  by (simp add: run_replies_def)

lemma call_sparkle_fields [simp]:
  "driver (call_sparkle c w) = driver w" "sinks (call_sparkle c w) = sinks w"
  "services (call_sparkle c w) = services w" "rows (call_sparkle c w) = rows w"
  "sparkle_log (call_sparkle c w) = sparkle_log w @ [c]"
  by (simp_all add: call_sparkle_def)

lemma on_driver_fields [simp]:
  "driver (on_driver g w) = g (driver w)" "sinks (on_driver g w) = sinks w"
  "services (on_driver g w) = services w" "rows (on_driver g w) = rows w"
  "sparkle_log (on_driver g w) = sparkle_log w" "run_replies (on_driver g w) = run_replies w"
  by (simp_all add: on_driver_def run_replies_def)

lemma owner_row_check:
  "driver (row_CheckForUpdate env r w) = driver w" "sinks (row_CheckForUpdate env r w) = sinks w"
  "run_replies (row_CheckForUpdate env r w) = run_replies w"
proof -
  show "driver (row_CheckForUpdate env r w) = driver w" "sinks (row_CheckForUpdate env r w) = sinks w"
    by (simp_all add: row_CheckForUpdate_def svc_CheckForUpdates_def owner_CheckForUpdates_def Let_def
        owner_fields split: option.split)
  have "run_replies (row_CheckForUpdate env r w) = run_replies x" if "sparkle_log x = sparkle_log w" for x
    using that by (simp add: row_CheckForUpdate_def svc_CheckForUpdates_def owner_CheckForUpdates_def Let_def
        split: option.split) (auto intro!: run_replies_same simp: owner_fields)
  from this [of w] show "run_replies (row_CheckForUpdate env r w) = run_replies w" by simp
qed

lemma run_replies_Notify [simp]: "run_replies (NotifySinks env e w) = run_replies w"
  by (rule run_replies_same) (simp add: owner_fields)

lemma run_replies_on_service [simp]: "run_replies (on_service g f w) = run_replies w"
  by (rule run_replies_same) (simp add: owner_fields)

subsection \<open>Reply blocks run once\<close>

definition replies_ok :: "update_world \<Rightarrow> bool" where
  "replies_ok w \<longleftrightarrow> distinct (run_replies w) \<and>
     (\<forall>e. pendingFound (driver w) = Some e \<longrightarrow> foundReply (driver w) \<noteq> None \<and> (\<exists>i. e = found_event i)) \<and>
     (\<forall>r. foundReply (driver w) = Some r \<longrightarrow> r \<notin> set (run_replies w)) \<and>
     (\<forall>r. readyReply (driver w) = Some r \<longrightarrow> r \<notin> set (run_replies w) \<and> foundReply (driver w) \<noteq> Some r)"

lemma replies_ok_same:
  "replies_ok w \<Longrightarrow> driver w' = driver w \<Longrightarrow> run_replies w' = run_replies w \<Longrightarrow> replies_ok w'"
  by (simp add: replies_ok_def)

lemma replies_ok_dropped:
  "replies_ok w \<Longrightarrow> driver w' = dropPendingOffer (driver w) \<Longrightarrow> run_replies w' = run_replies w \<Longrightarrow> replies_ok w'"
  by (simp add: replies_ok_def dropPendingOffer_def)

lemma replies_ok_consume:
  "replies_ok w \<Longrightarrow> replies_ok (consumeFoundReplyWith c w)"
  by (auto simp: replies_ok_def consumeFoundReplyWith_def split: option.split)

lemma replies_ok_on_service: "replies_ok w \<Longrightarrow> replies_ok (on_service g f w)"
  by (rule replies_ok_same) (simp_all add: owner_fields)

lemma replies_ok_act:
  assumes "replies_ok w" and "act_ok a w" shows "replies_ok (act env a w)"
proof (cases a)
  case (Sparkle_found i r)
  then show ?thesis using assms
    by (auto simp: replies_ok_def showUpdateFound_def owner_fields fresh_reply_def)
next
  case (Sparkle_ready r)
  then show ?thesis using assms
    by (auto simp: replies_ok_def showReadyToInstallAndRelaunch_def owner_fields fresh_reply_def)
next
  case Sparkle_download_started
  then show ?thesis using assms(1)
    by (simp add: replies_ok_def showDownloadInitiated_def owner_fields)
next
  case (Download f)
  then show ?thesis using assms(1)
    by (simp add: svc_Download_def commandDownload_def replies_ok_consume replies_ok_on_service)
next
  case (Skip f v)
  then show ?thesis using assms(1)
    by (simp add: svc_Skip_def commandSkipVersion_def replies_ok_consume replies_ok_on_service)
next
  case (Install f)
  then show ?thesis using replies_ok_on_service [OF assms(1)]
    by (auto simp: svc_InstallAndRelaunch_def commandInstallAndRelaunch_def replies_ok_def split: option.split)
next
  case Sparkle_not_found
  then show ?thesis
    by (auto intro: replies_ok_dropped [OF assms(1)] simp: showUpdateNotFound_def owner_fields)
next
  case (Sparkle_error s)
  then show ?thesis
    by (auto intro: replies_ok_dropped [OF assms(1)] simp: showUpdaterError_def owner_fields)
next
  case Sparkle_dismiss
  then show ?thesis
    by (auto intro: replies_ok_dropped [OF assms(1)] simp: dismissUpdateInstallation_def)
next
  case (Sparkle_expected n)
  then show ?thesis using assms(1)
    by (simp add: replies_ok_def showDownloadDidReceiveExpectedContentLength_def)
next
  case (Sparkle_data n)
  then show ?thesis using assms(1)
    by (simp add: replies_ok_def showDownloadDidReceiveDataOfLength_def owner_fields Let_def)
next
  case (Service_created f)
  then show ?thesis
    by (auto intro!: replies_ok_same [OF assms(1)] run_replies_same simp: create_service_def owner_AddEventSink)
qed (auto intro!: replies_ok_same [OF assms(1)] intro: run_replies_same
      simp: showUpdatePermissionRequest_def showUserInitiatedUpdateCheck_def showUpdateInstalledAndRelaunched_def
        showUpdateInFocus_def destroy_service_def create_row_def destroy_row_def owner_row_check owner_fields
      split: option.split)

lemma replies_ok_start: "replies_ok (SparkleOwner production started err)"
  by (simp add: replies_ok_def SparkleOwner_def HandleStartResult_def new_driver_def run_replies_def map_filter_simps)

lemma replies_reachable: "update_reachable env w \<Longrightarrow> replies_ok w"
  by (induction rule: update_reachable.induct) (simp_all add: replies_ok_start replies_ok_act)

subsection \<open>A row shows what its service's machine says\<close>

definition mirrors :: "update_env \<Rightarrow> RoamuxVersionUpdater \<Rightarrow> UpdateSnapshot \<Rightarrow> bool" where
  "mirrors env row s \<longleftrightarrow> status s = kIdle \<or> shown row \<noteq> [] \<and> last (shown row) = shown_of env s"

definition listens :: "update_env \<Rightarrow> nat \<Rightarrow> UpdateSnapshot \<Rightarrow> RoamuxVersionUpdater option \<Rightarrow> bool" where
  "listens env f s x \<longleftrightarrow>
     (\<exists>row. x = Some row \<and> commands row = f \<and> has_callback row \<and> subscribed row \<and> mirrors env row s)"

definition service_ok :: "update_env \<Rightarrow> update_world \<Rightarrow> nat \<Rightarrow> RoamuxUpdateService \<Rightarrow> bool" where
  "service_ok env w f s \<longleftrightarrow> distinct (snapshot_callbacks s) \<and>
     (\<forall>r \<in> set (snapshot_callbacks s). listens env f (machine_snapshot (state_machine s)) (rows w r))"

definition row_ok :: "update_world \<Rightarrow> nat \<Rightarrow> RoamuxVersionUpdater \<Rightarrow> bool" where
  "row_ok w r row \<longleftrightarrow>
     (\<exists>s. services w (commands row) = Some s \<and> (subscribed row \<longrightarrow> r \<in> set (snapshot_callbacks s)))"

definition all_rows_ok :: "update_env \<Rightarrow> update_world \<Rightarrow> bool" where
  "all_rows_ok env w \<longleftrightarrow>
     (\<forall>f s. services w f = Some s \<longrightarrow> service_ok env w f s) \<and> (\<forall>r row. rows w r = Some row \<longrightarrow> row_ok w r row)"

lemma rows_okD:
  "all_rows_ok env w \<Longrightarrow> services w f = Some s \<Longrightarrow> service_ok env w f s"
  "all_rows_ok env w \<Longrightarrow> rows w r = Some row \<Longrightarrow> row_ok w r row"
  unfolding all_rows_ok_def by blast+

lemma emits_iff [simp]: "emits (MapSnapshot fl to16 s) \<longleftrightarrow> status s \<noteq> kIdle"
  by (simp add: MapSnapshot_def MapError_def new_mapped_def Let_def split: UpdateStatus.split)

lemma OnSnapshot_fields [simp]:
  "commands (OnSnapshot env s r) = commands r" "has_callback (OnSnapshot env s r) = has_callback r"
  "subscribed (OnSnapshot env s r) = subscribed r"
  by (simp_all add: OnSnapshot_def)

lemma mirrors_OnSnapshot: "has_callback row \<Longrightarrow> mirrors env (OnSnapshot env s row) s"
  by (simp add: mirrors_def OnSnapshot_def)

lemma listens_OnSnapshot: "listens env f s x \<Longrightarrow> listens env f s' (map_option (OnSnapshot env s') x)"
  by (auto simp: listens_def mirrors_OnSnapshot)

lemma services_Push [simp]: "services (PushSnapshot env cs s w) = services w"
  unfolding PushSnapshot_def by (induction cs arbitrary: w) (simp_all add: notify_row_def)

lemma rows_Push:
  "distinct cs \<Longrightarrow> rows (PushSnapshot env cs s w) r =
     (if r \<in> set cs then map_option (OnSnapshot env s) (rows w r) else rows w r)"
  unfolding PushSnapshot_def by (induction cs arbitrary: w) (auto simp: notify_row_def)

lemma all_rows_ok_event:
  assumes "all_rows_ok env w" shows "all_rows_ok env (OnUpdateEvent env e f w)"
proof (cases "services w f")
  case None
  with assms show ?thesis by (simp add: OnUpdateEvent_def)
next
  case (Some s)
  define m where "m = machine_OnEvent (fl_of env) e (state_machine s)"
  let ?w = "OnUpdateEvent env e f w"
  have ok: "service_ok env w f s" by (rule rows_okD(1) [OF assms Some])
  have sv: "services ?w = (services w)(f \<mapsto> s\<lparr>state_machine := m\<rparr>)"
    by (simp add: OnUpdateEvent_def Some Let_def m_def)
  have rw: "rows ?w r = (if r \<in> set (snapshot_callbacks s)
      then map_option (OnSnapshot env (machine_snapshot m)) (rows w r) else rows w r)" for r
    using ok by (simp add: OnUpdateEvent_def Some Let_def m_def rows_Push service_ok_def)
  have row: "row_ok ?w r row'" if r: "rows ?w r = Some row'" for r row'
  proof -
    obtain row where "rows w r = Some row" "commands row' = commands row" "subscribed row' = subscribed row"
      using r rw [of r] by (auto split: if_splits)
    with rows_okD(2) [OF assms] show ?thesis using Some by (fastforce simp: row_ok_def sv)
  qed
  have svc: "service_ok env ?w g s'" if "services ?w g = Some s'" for g s'
  proof (cases "g = f")
    case True
    with that ok show ?thesis by (auto simp: sv service_ok_def rw listens_OnSnapshot)
  next
    case False
    then have "service_ok env w g s'" using that rows_okD(1) [OF assms] by (simp add: sv)
    moreover have "rows ?w r = rows w r" if "r \<in> set (snapshot_callbacks s')" for r
      using ok calculation that False unfolding service_ok_def listens_def rw by fastforce
    ultimately show ?thesis by (simp add: service_ok_def)
  qed
  from row svc show ?thesis by (simp add: all_rows_ok_def)
qed

lemma all_rows_ok_Notify: "all_rows_ok env w \<Longrightarrow> all_rows_ok env (NotifySinks env e w)"
proof -
  have "all_rows_ok env w \<Longrightarrow> all_rows_ok env (fold (OnUpdateEvent env e) fs w)" for fs
    by (induction fs arbitrary: w) (simp_all add: all_rows_ok_event)
  then show "all_rows_ok env w \<Longrightarrow> ?thesis" by (simp add: NotifySinks_def)
qed

lemma all_rows_ok_same: "all_rows_ok env w \<Longrightarrow> services w' = services w \<Longrightarrow> rows w' = rows w \<Longrightarrow> all_rows_ok env w'"
  by (simp add: all_rows_ok_def service_ok_def row_ok_def)

lemma all_rows_ok_outside [simp]:
  "all_rows_ok env (call_sparkle c w) = all_rows_ok env w" "all_rows_ok env (on_driver g w) = all_rows_ok env w"
  by (simp_all add: all_rows_ok_def service_ok_def row_ok_def)

definition seen :: "RoamuxUpdateService \<Rightarrow> nat list \<times> UpdateSnapshot" where
  "seen s = (snapshot_callbacks s, machine_snapshot (state_machine s))"

lemma all_rows_ok_seen:
  assumes "all_rows_ok env w" and rw: "rows w' = rows w"
    and sv: "\<And>f. map_option seen (services w' f) = map_option seen (services w f)"
  shows "all_rows_ok env w'"
proof -
  have old: "\<exists>s. services w f = Some s \<and> seen s = seen s'" if "services w' f = Some s'" for f s'
    using sv [of f] that by (cases "services w f") auto
  have new: "\<exists>s'. services w' f = Some s' \<and> seen s = seen s'" if "services w f = Some s" for f s
    using sv [of f] that by (cases "services w' f") auto
  have "service_ok env w' f s'" if f: "services w' f = Some s'" for f s'
  proof -
    obtain s where "services w f = Some s" and eq: "seen s = seen s'" using old [OF f] by blast
    with rows_okD(1) [OF assms(1)] have "service_ok env w f s" by simp
    with eq show ?thesis by (simp add: service_ok_def seen_def rw)
  qed
  moreover have "row_ok w' r row" if r: "rows w' r = Some row" for r row
  proof -
    from r rw have "row_ok w r row" using rows_okD(2) [OF assms(1)] by simp
    then obtain s where "services w (commands row) = Some s" "subscribed row \<longrightarrow> r \<in> set (snapshot_callbacks s)"
      by (auto simp: row_ok_def)
    with new show ?thesis by (force simp: row_ok_def seen_def)
  qed
  ultimately show ?thesis by (simp add: all_rows_ok_def)
qed

lemma all_rows_ok_on_service:
  "all_rows_ok env w \<Longrightarrow> (\<And>s. seen (g s) = seen s) \<Longrightarrow> all_rows_ok env (on_service g f w)"
  by (erule all_rows_ok_seen) (auto simp: on_service_def option.map_comp comp_def)

lemma all_rows_ok_AddEventSink: "all_rows_ok env w \<Longrightarrow> all_rows_ok env (AddEventSink env f w)"
  unfolding AddEventSink_def Let_def
  by (rule all_rows_ok_same [where w = "case pendingFound (driver w) of
        None \<Rightarrow> (case start_error w of None \<Rightarrow> w | Some s \<Rightarrow> OnUpdateEvent env (error_event s) f w)
      | Some e \<Rightarrow> OnUpdateEvent env e f
          (case start_error w of None \<Rightarrow> w | Some s \<Rightarrow> OnUpdateEvent env (error_event s) f w)"])
    (auto intro: all_rows_ok_event split: option.split)

lemma no_listeners: "all_rows_ok env w \<Longrightarrow> services w f = None \<Longrightarrow> rows w r = Some row \<Longrightarrow> commands row \<noteq> f"
  by (drule (1) rows_okD(2)) (auto simp: row_ok_def)

lemma all_rows_ok_create:
  assumes "all_rows_ok env w" and "services w f = None" shows "all_rows_ok env (create_service env f w)"
  unfolding create_service_def
proof (rule all_rows_ok_AddEventSink)
  show "all_rows_ok env (w\<lparr>services := (services w)(f \<mapsto> new_service)\<rparr>)"
    using rows_okD [OF assms(1)] no_listeners [OF assms] unfolding all_rows_ok_def
    by (auto simp: service_ok_def row_ok_def new_service_def)
qed

lemma all_rows_ok_destroy:
  "all_rows_ok env w \<Longrightarrow> \<not> has_rows f w \<Longrightarrow> all_rows_ok env (destroy_service f w)"
  by (auto simp: all_rows_ok_def destroy_service_def service_ok_def row_ok_def has_rows_def)

lemma all_rows_ok_create_row:
  assumes "all_rows_ok env w" and "rows w r = None" and "services w f \<noteq> None"
  shows "all_rows_ok env (create_row r f w)"
proof -
  have "r \<notin> set (snapshot_callbacks s)" if "services w g = Some s" for g s
    using rows_okD(1) [OF assms(1) that] assms(2) by (auto simp: service_ok_def listens_def)
  then show ?thesis
    using rows_okD [OF assms(1)] assms(3) unfolding all_rows_ok_def
    by (auto simp: create_row_def service_ok_def row_ok_def)
qed

lemma all_rows_ok_destroy_row:
  assumes "all_rows_ok env w" shows "all_rows_ok env (destroy_row r w)"
  unfolding all_rows_ok_def
proof (intro conjI allI impI)
  fix f s' assume "services (destroy_row r w) f = Some s'"
  then obtain s where s: "services w f = Some s"
      "s' = s\<lparr>snapshot_callbacks := filter (\<lambda>x. x \<noteq> r) (snapshot_callbacks s)\<rparr>"
    by (auto simp: destroy_row_def)
  with rows_okD(1) [OF assms] show "service_ok env (destroy_row r w) f s'"
    by (auto simp: service_ok_def destroy_row_def)
next
  fix r' row assume "rows (destroy_row r w) r' = Some row"
  then have "rows w r' = Some row" "r' \<noteq> r" by (auto simp: destroy_row_def split: if_splits)
  with rows_okD(2) [OF assms] show "row_ok (destroy_row r w) r' row"
    by (fastforce simp: row_ok_def destroy_row_def)
qed

lemma check_unsubscribed:
  assumes "rows w r = Some row" and "\<not> subscribed row" and "services w (commands row) = Some s"
  shows "rows (row_CheckForUpdate env r w) =
           (rows w)(r \<mapsto> (OnSnapshot env (machine_snapshot (state_machine s)) (row\<lparr>has_callback := True\<rparr>))\<lparr>subscribed := True\<rparr>)"
    and "services (row_CheckForUpdate env r w) = (services w)(commands row \<mapsto>
           s\<lparr>snapshot_callbacks := snapshot_callbacks s @ [r], checks_for_testing := checks_for_testing s + 1\<rparr>)"
  using assms by (simp_all add: row_CheckForUpdate_def Let_def SubscribeToSnapshots_def notify_row_def
      on_service_def svc_CheckForUpdates_def owner_CheckForUpdates_def)

lemma check_subscribed:
  assumes "rows w r = Some row" and "subscribed row" and "has_callback row"
  shows "rows (row_CheckForUpdate env r w) = rows w"
    and "map_option seen (services (row_CheckForUpdate env r w) f) = map_option seen (services w f)"
proof -
  have "row\<lparr>has_callback := True\<rparr> = row" using assms(3) by (cases row) simp
  with assms(1,2) have "rows w r = Some (row\<lparr>has_callback := True\<rparr>)" by simp
  then have "(rows w)(r \<mapsto> row\<lparr>has_callback := True\<rparr>) = rows w" by (rule map_upd_triv)
  with assms show "rows (row_CheckForUpdate env r w) = rows w"
    "map_option seen (services (row_CheckForUpdate env r w) f) = map_option seen (services w f)"
    by (simp_all add: row_CheckForUpdate_def Let_def on_service_def svc_CheckForUpdates_def
        owner_CheckForUpdates_def option.map_comp comp_def seen_def [abs_def])
qed

lemma mirrors_subscribed [simp]: "mirrors env (row\<lparr>subscribed := b\<rparr>) s = mirrors env row s"
  by (simp add: mirrors_def)

lemma all_rows_ok_check:
  assumes ok: "all_rows_ok env w" shows "all_rows_ok env (row_CheckForUpdate env r w)"
proof (cases "rows w r")
  case None
  with ok show ?thesis by (simp add: row_CheckForUpdate_def)
next
  case (Some row)
  obtain s where s: "services w (commands row) = Some s" "subscribed row \<longrightarrow> r \<in> set (snapshot_callbacks s)"
    using rows_okD(2) [OF ok Some] by (auto simp: row_ok_def)
  show ?thesis
  proof (cases "subscribed row")
    case True
    with s rows_okD(1) [OF ok s(1)] Some have "has_callback row"
      by (auto simp: service_ok_def listens_def)
    from check_subscribed [OF Some True this] show ?thesis by (rule all_rows_ok_seen [OF ok])
  next
    case False
    let ?w = "row_CheckForUpdate env r w"
    note rw = check_unsubscribed(1) [OF Some False s(1), of env]
      and sv = check_unsubscribed(2) [OF Some False s(1), of env]
    have fresh: "r \<notin> set (snapshot_callbacks t)" if "services w g = Some t" for g t
      using rows_okD(1) [OF ok that] Some False by (auto simp: service_ok_def listens_def)
    have "service_ok env ?w g t" if g: "services ?w g = Some t" for g t
    proof (cases "g = commands row")
      case True
      with g rows_okD(1) [OF ok s(1)] fresh [OF s(1)] show ?thesis
        by (auto simp: sv rw service_ok_def listens_def mirrors_OnSnapshot)
    next
      case other: False
      with g have "services w g = Some t" by (simp add: sv)
      with rows_okD(1) [OF ok this] fresh [OF this] show ?thesis by (auto simp: rw service_ok_def)
    qed
    moreover have "row_ok ?w r' row'" if "rows ?w r' = Some row'" for r' row'
      using that rows_okD(2) [OF ok, of r'] s(1) unfolding rw by (auto simp: row_ok_def sv split: if_splits)
    ultimately show ?thesis by (simp add: all_rows_ok_def)
  qed
qed

lemma all_rows_ok_consume: "all_rows_ok env w \<Longrightarrow> all_rows_ok env (consumeFoundReplyWith c w)"
  by (simp add: consumeFoundReplyWith_def split: option.split)

lemma all_rows_ok_act: "all_rows_ok env w \<Longrightarrow> act_ok a w \<Longrightarrow> all_rows_ok env (act env a w)"
  by (cases a)
    (auto simp: showUpdatePermissionRequest_def showUserInitiatedUpdateCheck_def showUpdateFound_def
      showUpdateNotFound_def showUpdaterError_def showDownloadInitiated_def
      showDownloadDidReceiveExpectedContentLength_def showDownloadDidReceiveDataOfLength_def Let_def
      showReadyToInstallAndRelaunch_def showUpdateInstalledAndRelaunched_def dismissUpdateInstallation_def
      showUpdateInFocus_def svc_Download_def commandDownload_def svc_Skip_def commandSkipVersion_def
      svc_InstallAndRelaunch_def commandInstallAndRelaunch_def seen_def SetSkippedVersion_def
      intro!: all_rows_ok_create all_rows_ok_destroy all_rows_ok_create_row all_rows_ok_destroy_row all_rows_ok_check all_rows_ok_Notify
        all_rows_ok_consume all_rows_ok_on_service
      split: option.split)

lemma dom_services_event [simp]: "dom (services (OnUpdateEvent env e f w)) = dom (services w)"
  by (auto simp: OnUpdateEvent_def Let_def split: option.split)

lemma dom_services_Notify [simp]: "dom (services (NotifySinks env e w)) = dom (services w)"
proof -
  have "dom (services (fold (OnUpdateEvent env e) fs w)) = dom (services w)" for fs
    by (induction fs arbitrary: w) simp_all
  then show ?thesis by (simp add: NotifySinks_def)
qed

lemma dom_services_on_service [simp]: "dom (services (on_service g f w)) = dom (services w)"
  by (auto simp: on_service_def split: if_splits)

lemma dom_services_Subscribe [simp]: "dom (services (SubscribeToSnapshots env f r w)) = dom (services w)"
  by (simp add: SubscribeToSnapshots_def notify_row_def split: option.split)

lemma dom_services_AddEventSink [simp]: "dom (services (AddEventSink env f w)) = dom (services w)"
  by (simp add: AddEventSink_def Let_def split: option.split)

lemma dom_services_destroy_row [simp]: "dom (services (destroy_row r w)) = dom (services w)"
  by (auto simp: destroy_row_def)

definition sinks_ok :: "update_world \<Rightarrow> bool" where
  "sinks_ok w \<longleftrightarrow> distinct (sinks w) \<and> set (sinks w) = dom (services w)"

lemma sinks_ok_same: "sinks_ok w \<Longrightarrow> sinks w' = sinks w \<Longrightarrow> dom (services w') = dom (services w) \<Longrightarrow> sinks_ok w'"
  by (simp add: sinks_ok_def)

lemma sinks_ok_check: "sinks_ok w \<Longrightarrow> sinks_ok (row_CheckForUpdate env r w)"
  by (erule sinks_ok_same, simp add: owner_row_check)
    (simp add: row_CheckForUpdate_def svc_CheckForUpdates_def owner_CheckForUpdates_def Let_def split: option.split)

lemma sinks_ok_create: "sinks_ok w \<Longrightarrow> services w f = None \<Longrightarrow> sinks_ok (create_service env f w)"
  by (simp add: sinks_ok_def create_service_def owner_AddEventSink domIff)

lemma sinks_ok_consume: "sinks_ok w \<Longrightarrow> sinks_ok (consumeFoundReplyWith c w)"
  by (simp add: consumeFoundReplyWith_def sinks_ok_def split: option.split)

lemma sinks_ok_on_service: "sinks_ok w \<Longrightarrow> sinks_ok (on_service g f w)"
  by (erule sinks_ok_same) (simp_all add: owner_fields)

lemma sinks_ok_Notify: "sinks_ok w \<Longrightarrow> sinks_ok (NotifySinks env e w)"
  by (erule sinks_ok_same) (simp_all add: owner_fields)

lemma sinks_ok_outside [simp]: "sinks_ok (call_sparkle c w) = sinks_ok w" "sinks_ok (on_driver g w) = sinks_ok w"
  by (simp_all add: sinks_ok_def)

lemma sinks_ok_create_row: "sinks_ok w \<Longrightarrow> sinks_ok (create_row r f w)"
  by (erule sinks_ok_same) (simp_all add: create_row_def)

lemma sinks_ok_destroy_row: "sinks_ok w \<Longrightarrow> sinks_ok (destroy_row r w)"
  by (erule sinks_ok_same, simp add: destroy_row_def) simp

lemma sinks_ok_destroy: "sinks_ok w \<Longrightarrow> sinks_ok (destroy_service f w)"
  by (auto simp: sinks_ok_def destroy_service_def)

lemma sinks_ok_act: "sinks_ok w \<Longrightarrow> act_ok a w \<Longrightarrow> sinks_ok (act env a w)"
  by (cases a)
    (auto simp: showUpdatePermissionRequest_def showUserInitiatedUpdateCheck_def showUpdateFound_def
      showUpdateNotFound_def showUpdaterError_def showDownloadInitiated_def
      showDownloadDidReceiveExpectedContentLength_def showDownloadDidReceiveDataOfLength_def Let_def
      showReadyToInstallAndRelaunch_def showUpdateInstalledAndRelaunched_def dismissUpdateInstallation_def
      showUpdateInFocus_def svc_Download_def commandDownload_def svc_Skip_def commandSkipVersion_def
      svc_InstallAndRelaunch_def commandInstallAndRelaunch_def
      intro!: sinks_ok_create sinks_ok_destroy sinks_ok_create_row sinks_ok_destroy_row sinks_ok_check sinks_ok_Notify
        sinks_ok_consume sinks_ok_on_service
      split: option.split)

lemma owner_start:
  "all_rows_ok env (SparkleOwner production started err)" "sinks_ok (SparkleOwner production started err)"
  by (simp_all add: SparkleOwner_def HandleStartResult_def all_rows_ok_def sinks_ok_def)

lemma update_reachable_inv:
  "update_reachable env w \<Longrightarrow> all_rows_ok env w \<and> sinks_ok w"
  by (induction rule: update_reachable.induct) (simp_all add: owner_start all_rows_ok_act sinks_ok_act)

subsection \<open>Properties\<close>

text \<open>
  C19: the About row never lies. In every reachable state, whatever Sparkle, the profiles and the pages
  do, the owner broadcasts to exactly the living services, and a row that has asked for a check has
  last shown the mapping of its service's current snapshot (nothing while the machine is still idle).
\<close>

theorem row_shows_its_machine:
  assumes "update_reachable env w" and "rows w r = Some row" and "subscribed row"
  shows "\<exists>s. services w (commands row) = Some s \<and> set (sinks w) = dom (services w) \<and> distinct (sinks w) \<and>
     (status (machine_snapshot (state_machine s)) \<noteq> kIdle \<longrightarrow>
        shown row \<noteq> [] \<and> last (shown row) = shown_of env (machine_snapshot (state_machine s)))"
proof -
  have ok: "all_rows_ok env w" "sinks_ok w" using update_reachable_inv [OF assms(1)] by simp_all
  from rows_okD(2) [OF ok(1) assms(2)] assms(3) obtain s
    where s: "services w (commands row) = Some s" "r \<in> set (snapshot_callbacks s)" by (auto simp: row_ok_def)
  with rows_okD(1) [OF ok(1) s(1)] assms(2) have "mirrors env row (machine_snapshot (state_machine s))"
    by (auto simp: service_ok_def listens_def)
  with s(1) ok(2) show ?thesis by (auto simp: mirrors_def sinks_ok_def)
qed

definition exact_env :: update_env where
  "exact_env = \<lparr>fl_of = (\<lambda>x. x), to16_of = u16\<rparr>"

definition sample_item :: "string \<Rightarrow> appcast_item" where
  "sample_item v = \<lparr>displayVersionString = Some v, versionString = ''0'', itemDescription = None\<rparr>"

definition checked_world :: update_world where
  "checked_world = fold (act exact_env)
     [Service_created 0, Row_created 7 0, Row_checks 7, Sparkle_check_started, Sparkle_found (sample_item ''2'') 5]
     (SparkleOwner True True None)"

lemmas act_defs = create_service_def AddEventSink_def create_row_def row_CheckForUpdate_def
  SubscribeToSnapshots_def notify_row_def on_service_def svc_CheckForUpdates_def owner_CheckForUpdates_def
  call_sparkle_def showUserInitiatedUpdateCheck_def NotifySinks_def OnUpdateEvent_def PushSnapshot_def
  showUpdateFound_def on_driver_def new_service_def new_machine_def new_snapshot_def machine_OnEvent_def
  event_of_def OnUpdateFound_def found_event_def OnSnapshot_def SparkleOwner_def HandleStartResult_def
  new_driver_def run_replies_def map_filter_simps sample_item_def fresh_reply_def

lemma checked_reachable: "update_reachable exact_env checked_world"
proof -
  note steps = update_reachable.step [OF update_reachable.step [OF update_reachable.step
      [OF update_reachable.step [OF update_reachable.step [OF update_reachable.start]]]]]
  show ?thesis unfolding checked_world_def fold_simps by (rule steps) (simp_all add: act_defs)
qed

lemma checked_row:
  "map_option commands (rows checked_world 7) = Some 0" "map_option subscribed (rows checked_world 7) = Some True"
  by (simp_all add: checked_world_def act_defs)

theorem row_shows_its_machine_witness:
  "\<exists>row s. rows checked_world 7 = Some row \<and> services checked_world 0 = Some s \<and>
     status (machine_snapshot (state_machine s)) = kAvailable \<and>
     last (shown row) = shown_of exact_env (machine_snapshot (state_machine s))"
proof -
  obtain row where row: "rows checked_world 7 = Some row" "commands row = 0" "subscribed row"
    using checked_row by auto
  obtain s where s: "services checked_world 0 = Some s" "status (machine_snapshot (state_machine s)) = kAvailable"
    by (simp add: checked_world_def act_defs)
  from row_shows_its_machine [OF checked_reachable row(1,3)] row(1,2) s show ?thesis by auto
qed

text \<open>The blocks that were run, each with the choice it was given.\<close>

definition run_choices :: "update_world \<Rightarrow> (reply_block \<times> UserUpdateChoice) list" where
  "run_choices w = List.map_filter (\<lambda>c. case c of Run_reply r choice \<Rightarrow> Some (r, choice) | _ \<Rightarrow> None) (sparkle_log w)"

text \<open>What each action calls in Sparkle.\<close>

definition reply_call :: "UserUpdateChoice \<Rightarrow> reply_block option \<Rightarrow> sparkle_call list" where
  "reply_call choice r = (case r of None \<Rightarrow> [] | Some reply \<Rightarrow> [Run_reply reply choice])"

fun sparkle_calls :: "update_action \<Rightarrow> update_world \<Rightarrow> sparkle_call list" where
  "sparkle_calls Sparkle_permission w = [Permission_granted]"
| "sparkle_calls Sparkle_not_found w = [Acknowledged]"
| "sparkle_calls (Sparkle_error s) w = [Acknowledged]"
| "sparkle_calls Sparkle_installed w = [Acknowledged]"
| "sparkle_calls (Row_checks r) w = (if rows w r \<noteq> None \<and> updater_present w then [Check_for_updates] else [])"
| "sparkle_calls (Download f) w = reply_call ChoiceInstall (foundReply (driver w))"
| "sparkle_calls (Skip f v) w = reply_call ChoiceSkip (foundReply (driver w))"
| "sparkle_calls (Install f) w = reply_call ChoiceInstall (readyReply (driver w))"
| "sparkle_calls a w = []"

lemma log_row_check: "sparkle_log (row_CheckForUpdate env r w) = sparkle_log w @ sparkle_calls (Row_checks r) w"
  by (auto simp: row_CheckForUpdate_def svc_CheckForUpdates_def owner_CheckForUpdates_def Let_def owner_fields
      split: option.split)

lemma log_act: "sparkle_log (act env a w) = sparkle_log w @ sparkle_calls a w"
  by (cases a) (auto simp: showUpdatePermissionRequest_def showUserInitiatedUpdateCheck_def showUpdateFound_def
      showUpdateNotFound_def showUpdaterError_def showDownloadInitiated_def
      showDownloadDidReceiveExpectedContentLength_def showDownloadDidReceiveDataOfLength_def Let_def
      showReadyToInstallAndRelaunch_def showUpdateInstalledAndRelaunched_def dismissUpdateInstallation_def
      showUpdateInFocus_def log_row_check create_service_def owner_AddEventSink create_row_def destroy_row_def
      destroy_service_def svc_Download_def commandDownload_def svc_Skip_def commandSkipVersion_def
      svc_InstallAndRelaunch_def commandInstallAndRelaunch_def consumeFoundReplyWith_def reply_call_def owner_fields
      split: option.split)

text \<open>
  C15: a reply block of Sparkle runs at most once, and never without the user. In every reachable state
  no block has run twice and a pending offer still has a block that has not run. Whatever happens next, the
  blocks run by it are exactly these: for Download and Skip the found block, if there is one, with that choice, for
  InstallAndRelaunch the ready block, and for everything else, Sparkle's calls, errors and checks included, none. In
  particular nothing is downloaded that the user did not ask for.
\<close>

theorem replies_run_once:
  assumes "update_reachable env w"
  shows "distinct (run_replies w) \<and> run_replies w = map fst (run_choices w) \<and>
    (\<forall>e. pendingFound (driver w) = Some e \<longrightarrow>
       (\<exists>r. foundReply (driver w) = Some r \<and> r \<notin> set (run_replies w))) \<and>
    (\<forall>a. run_choices (act env a w) = run_choices w @
       (case a of
          Download f \<Rightarrow> (case foundReply (driver w) of None \<Rightarrow> [] | Some r \<Rightarrow> [(r, ChoiceInstall)])
        | Skip f v \<Rightarrow> (case foundReply (driver w) of None \<Rightarrow> [] | Some r \<Rightarrow> [(r, ChoiceSkip)])
        | Install f \<Rightarrow> (case readyReply (driver w) of None \<Rightarrow> [] | Some r \<Rightarrow> [(r, ChoiceInstall)])
        | _ \<Rightarrow> []))"
proof -
  have pairs: "List.map_filter (\<lambda>c. case c of Run_reply r _ \<Rightarrow> Some r | _ \<Rightarrow> None) cs =
      map fst (List.map_filter (\<lambda>c. case c of Run_reply r choice \<Rightarrow> Some (r, choice) | _ \<Rightarrow> None) cs)" for cs
    by (induction cs) (auto simp: map_filter_simps split: sparkle_call.split)
  have next_: "run_choices (act env a w) = run_choices w @
      List.map_filter (\<lambda>c. case c of Run_reply r choice \<Rightarrow> Some (r, choice) | _ \<Rightarrow> None) (sparkle_calls a w)" for a
    by (simp add: run_choices_def log_act List.map_filter_def)
  have "run_choices (act env a w) = run_choices w @
       (case a of
          Download f \<Rightarrow> (case foundReply (driver w) of None \<Rightarrow> [] | Some r \<Rightarrow> [(r, ChoiceInstall)])
        | Skip f v \<Rightarrow> (case foundReply (driver w) of None \<Rightarrow> [] | Some r \<Rightarrow> [(r, ChoiceSkip)])
        | Install f \<Rightarrow> (case readyReply (driver w) of None \<Rightarrow> [] | Some r \<Rightarrow> [(r, ChoiceInstall)])
        | _ \<Rightarrow> [])" for a
    unfolding next_ by (cases a) (auto simp: reply_call_def map_filter_simps split: option.split)
  moreover have "run_replies w = map fst (run_choices w)" by (simp add: run_replies_def run_choices_def pairs)
  ultimately show ?thesis
    using replies_reachable [OF assms] unfolding replies_ok_def by (metis not_Some_eq)
qed

lemma checked_driver: "foundReply (driver checked_world) = Some 5" "sparkle_log checked_world = [Check_for_updates]"
  by (simp_all add: checked_world_def act_defs)

theorem replies_run_once_witness:
  "distinct (run_replies checked_world) \<and>
   run_choices (act exact_env (Download 0) checked_world) = [(5, ChoiceInstall)] \<and>
   run_choices (act exact_env (Sparkle_error ''e'') checked_world) = []"
proof -
  have "run_choices checked_world = []" by (simp add: run_choices_def checked_driver map_filter_simps)
  moreover note H = replies_run_once [OF checked_reachable]
  note H [THEN conjunct2, THEN conjunct2, THEN conjunct2, THEN spec, of "Download 0"]
    H [THEN conjunct2, THEN conjunct2, THEN conjunct2, THEN spec, of "Sparkle_error ''e''"]
  ultimately show ?thesis using H by (simp add: checked_driver)
qed

text \<open>
  A profile opened late sees what the others saw. A service created in any reachable state starts
  from the pending offer when there is one, otherwise from the retained start failure, otherwise idle.
\<close>

theorem late_service_catches_up:
  assumes "update_reachable env w" and "services w f = None"
  shows "\<exists>s. services (act env (Service_created f) w) f = Some s \<and>
     (case pendingFound (driver w) of
        Some e \<Rightarrow> \<exists>i r. e = found_event i \<and> foundReply (driver w) = Some r \<and>
                   status (machine_snapshot (state_machine s)) = kAvailable \<and>
                   sn_version (machine_snapshot (state_machine s)) = ev_version e
      | None \<Rightarrow> (case start_error w of
                   Some t \<Rightarrow> status (machine_snapshot (state_machine s)) = kError \<and> sn_error (machine_snapshot (state_machine s)) = t
                 | None \<Rightarrow> machine_snapshot (state_machine s) = new_snapshot))"
proof -
  let ?w0 = "w\<lparr>services := (services w)(f \<mapsto> new_service)\<rparr>"
  have push: "services (OnUpdateEvent env e f u) f =
      Some (s\<lparr>state_machine := machine_OnEvent (fl_of env) e (state_machine s)\<rparr>)" if "services u f = Some s" for e u s
    using that by (simp add: OnUpdateEvent_def Let_def)
  let ?w1 = "case start_error w of None \<Rightarrow> ?w0 | Some t \<Rightarrow> OnUpdateEvent env (error_event t) f ?w0"
  obtain s1 where s1: "services ?w1 f = Some s1" "skipped_version (state_machine s1) = []"
      "case start_error w of
         Some t \<Rightarrow> status (machine_snapshot (state_machine s1)) = kError \<and> sn_error (machine_snapshot (state_machine s1)) = t
       | None \<Rightarrow> machine_snapshot (state_machine s1) = new_snapshot"
    by (cases "start_error w") (auto simp: push new_service_def new_machine_def machine_OnEvent_def error_event_def
        event_of_def Let_def)
  have fin: "services (act env (Service_created f) w) f =
      services (case pendingFound (driver w) of None \<Rightarrow> ?w1 | Some e \<Rightarrow> OnUpdateEvent env e f ?w1) f"
    by (simp add: create_service_def AddEventSink_def Let_def)
  show ?thesis
  proof (cases "pendingFound (driver w)")
    case None
    then show ?thesis using s1 unfolding fin by (auto split: option.splits)
  next
    case (Some e)
    then obtain i r where i: "e = found_event i" "foundReply (driver w) = Some r"
      using replies_reachable [OF assms(1)] by (auto simp: replies_ok_def)
    have "status (machine_snapshot (state_machine s1)) = kError \<or> machine_snapshot (state_machine s1) = new_snapshot"
      using s1(3) by (auto split: option.splits)
    then have "machine_snapshot (machine_OnEvent (fl_of env) e (state_machine s1)) =
        new_snapshot\<lparr>status := kAvailable, sn_version := ev_version e, sn_date := ev_date e, sn_notes := ev_notes e\<rparr>"
      using s1(2) by (auto simp: i machine_OnEvent_def OnUpdateFound_def found_event_def event_of_def new_snapshot_def Let_def)
    with Some i s1(1) show ?thesis unfolding fin by (auto simp: push)
  qed
qed

theorem late_service_catches_up_witness:
  "\<exists>s. services (act exact_env (Service_created 1) checked_world) 1 = Some s \<and>
     status (machine_snapshot (state_machine s)) = kAvailable \<and> sn_version (machine_snapshot (state_machine s)) = ''2''"
proof -
  have "services checked_world 1 = None" "pendingFound (driver checked_world) = Some (found_event (sample_item ''2''))"
    by (simp_all add: checked_world_def act_defs)
  with late_service_catches_up [OF checked_reachable, of 1] show ?thesis
    by (auto simp: found_event_def sample_item_def event_of_def)
qed

fun data_length :: "update_action \<Rightarrow> 64 word" where
  "data_length (Sparkle_data n) = n" | "data_length _ = 0"

lemma received_act: "receivedLength (driver (act env a w)) = receivedLength (driver w) + data_length a"
  by (cases a) (auto simp: showUpdatePermissionRequest_def showUserInitiatedUpdateCheck_def showUpdateFound_def
      showUpdateNotFound_def showUpdaterError_def showDownloadInitiated_def dropPendingOffer_def
      showDownloadDidReceiveExpectedContentLength_def showDownloadDidReceiveDataOfLength_def Let_def
      showReadyToInstallAndRelaunch_def showUpdateInstalledAndRelaunched_def dismissUpdateInstallation_def
      showUpdateInFocus_def owner_row_check create_service_def owner_AddEventSink create_row_def destroy_row_def
      destroy_service_def svc_Download_def commandDownload_def svc_Skip_def commandSkipVersion_def
      svc_InstallAndRelaunch_def commandInstallAndRelaunch_def consumeFoundReplyWith_def owner_fields
      split: option.split)

interpretation driver_bytes: adds "act env" "\<lambda>w. receivedLength (driver w)" data_length for env
  by unfold_locales (rule received_act)

text \<open>
  C35: the byte counter of the driver is never reset. Along any run of the updater it holds the sum, modulo
  2^64, of the lengths of all the data of all the downloads so far, although the expected length
  is that of the current download alone, so that the progress of a second download in the same process
  starts from the bytes of the first.
\<close>

theorem received_counts_all_downloads:
  "receivedLength (driver (fold (act env) actions (SparkleOwner production started err))) =
     sum_list (map data_length actions)"
  by (simp add: driver_bytes.history_adds) (simp add: SparkleOwner_def HandleStartResult_def new_driver_def)

text \<open>A second update of 1000 bytes, ten of which have arrived, already shows 100 percent.\<close>

definition download :: "nat \<Rightarrow> string \<Rightarrow> 64 word \<Rightarrow> update_action list" where
  "download r v n = [Sparkle_found (sample_item v) r, Download 0, Sparkle_download_started, Sparkle_expected 1000,
                     Sparkle_data n]"

lemma second_download_starts_full:
  "map_option (\<lambda>row. shown_progress (last (shown row)))
     (rows (fold (act exact_env) (download 5 ''2'' 1000 @ [Sparkle_dismiss, Sparkle_check_started] @ download 6 ''3'' 10)
       (fold (act exact_env) [Service_created 0, Row_created 7 0, Row_checks 7, Sparkle_check_started]
         (SparkleOwner True True None))) 7) = Some 100"
  by (simp add: download_def act_defs exact_env_def svc_Download_def commandDownload_def consumeFoundReplyWith_def
      showDownloadInitiated_def showDownloadDidReceiveExpectedContentLength_def dismissUpdateInstallation_def
      dropPendingOffer_def Let_def floor_eq_iff showDownloadDidReceiveDataOfLength_def progress_event_def shown_of_def MapSnapshot_def
      new_mapped_def clamped_progress_def clamp_def cast_int_def)

subsection \<open>A skipped version\<close>

lemma skipped_machine [simp]: "skipped_version (machine_OnEvent fl e m) = skipped_version m"
  by (simp add: machine_OnEvent_def Let_def)

text \<open>A broadcast gives every living service the event once.\<close>

lemma event_service:
  "services (OnUpdateEvent env e g w) f =
     (if f = g then map_option (\<lambda>s. s\<lparr>state_machine := machine_OnEvent (fl_of env) e (state_machine s)\<rparr>) (services w f) else services w f)"
  by (simp add: OnUpdateEvent_def Let_def split: option.split)

lemma Notify_service:
  assumes "sinks_ok w" and "services w f = Some s"
  shows "services (NotifySinks env e w) f = Some (s\<lparr>state_machine := machine_OnEvent (fl_of env) e (state_machine s)\<rparr>)"
proof -
  have "services (fold (OnUpdateEvent env e) fs u) f =
      (if f \<in> set fs then map_option (\<lambda>s. s\<lparr>state_machine := machine_OnEvent (fl_of env) e (state_machine s)\<rparr>) (services u f)
       else services u f)" if "distinct fs" for fs u
    using that by (induction fs arbitrary: u) (auto simp: event_service)
  moreover have "f \<in> set (sinks w)" "distinct (sinks w)" using assms by (auto simp: sinks_ok_def)
  ultimately show ?thesis using assms(2) by (simp add: NotifySinks_def)
qed

text \<open>What a service is left with when no event of its own is a Skip: the skipped version.\<close>

definition skips :: "string \<Rightarrow> RoamuxUpdateService option \<Rightarrow> bool" where
  "skips v x \<longleftrightarrow> (\<exists>s. x = Some s \<and> skipped_version (state_machine s) = v)"

lemma skips_event: "skips v (services w f) \<Longrightarrow> skips v (services (OnUpdateEvent env e g w) f)"
  by (auto simp: skips_def event_service)

lemma skips_Notify: "skips v (services w f) \<Longrightarrow> skips v (services (NotifySinks env e w) f)"
proof -
  have "skips v (services w f) \<Longrightarrow> skips v (services (fold (OnUpdateEvent env e) gs w) f)" for gs
    by (induction gs arbitrary: w) (simp_all add: skips_event)
  then show "skips v (services w f) \<Longrightarrow> ?thesis" by (simp add: NotifySinks_def)
qed

lemma skips_on_service:
  "skips v (services w f) \<Longrightarrow> (\<And>s. g = f \<Longrightarrow> skipped_version (state_machine (h s)) = skipped_version (state_machine s)) \<Longrightarrow>
   skips v (services (on_service h g w) f)"
  by (auto simp: skips_def on_service_def)

lemma skips_check: "skips v (services w f) \<Longrightarrow> skips v (services (row_CheckForUpdate env r w) f)"
  by (auto simp: row_CheckForUpdate_def svc_CheckForUpdates_def owner_CheckForUpdates_def SubscribeToSnapshots_def notify_row_def
      on_service_def skips_def Let_def split: option.splits)

lemma skips_act:
  assumes "skips v (services w f)" and "act_ok a w" and "\<forall>u. a \<noteq> Skip f u" and "a \<noteq> Service_destroyed f"
  shows "skips v (services (act env a w) f)"
proof (cases a)
  case (Service_created g)
  then have "g \<noteq> f" using assms(1,2) by (auto simp: skips_def)
  then have "skips v (services (w\<lparr>services := (services w)(g \<mapsto> new_service)\<rparr>) f)" using assms(1) by simp
  then show ?thesis
    using Service_created by (auto simp: create_service_def AddEventSink_def Let_def intro!: skips_event split: option.split)
next
  case (Row_destroyed r)
  then show ?thesis using assms(1) by (auto simp: skips_def destroy_row_def)
next
  case (Row_checks r)
  then show ?thesis using skips_check [OF assms(1)] by simp
qed (use assms in \<open>auto simp: showUpdatePermissionRequest_def showUserInitiatedUpdateCheck_def showUpdateFound_def
      showUpdateNotFound_def showUpdaterError_def showDownloadInitiated_def
      showDownloadDidReceiveExpectedContentLength_def showDownloadDidReceiveDataOfLength_def Let_def
      showReadyToInstallAndRelaunch_def showUpdateInstalledAndRelaunched_def dismissUpdateInstallation_def
      showUpdateInFocus_def create_row_def destroy_service_def svc_Download_def commandDownload_def svc_Skip_def
      commandSkipVersion_def svc_InstallAndRelaunch_def commandInstallAndRelaunch_def consumeFoundReplyWith_def
      intro!: skips_Notify skips_on_service split: option.split\<close>)

text \<open>Anything happens, but the service \<open>f\<close> is neither told to skip again nor destroyed.\<close>

inductive goes_on :: "update_env \<Rightarrow> nat \<Rightarrow> update_world \<Rightarrow> update_world \<Rightarrow> bool" for env f w where
  here: "goes_on env f w w"
| next_action: "goes_on env f w u \<Longrightarrow> act_ok a u \<Longrightarrow> \<forall>v. a \<noteq> Skip f v \<Longrightarrow> a \<noteq> Service_destroyed f \<Longrightarrow>
    goes_on env f w (act env a u)"

lemma goes_on_skips:
  "goes_on env f w u \<Longrightarrow> skips v (services w f) \<Longrightarrow> update_reachable env w \<Longrightarrow> skips v (services u f) \<and> update_reachable env u"
  by (induction rule: goes_on.induct) (simp_all add: skips_act update_reachable.step)

lemma Skip_effect:
  assumes "services w f = Some s"
  shows "services (act env (Skip f v) w) = (services w)(f \<mapsto> s\<lparr>state_machine := (state_machine s)\<lparr>skipped_version := v\<rparr>\<rparr>)"
    and "rows (act env (Skip f v) w) = rows w"
  using assms
  by (auto simp: svc_Skip_def commandSkipVersion_def consumeFoundReplyWith_def on_service_def SetSkippedVersion_def split: option.split)

text \<open>
  C36: skipping a version silences its later finds, and only those. Skip itself changes no snapshot and no row: a
  version already on offer stays on offer. From then on, whatever Sparkle, the profiles and the pages do until the
  profile skips again: a find during a download or a pending install changes nothing; otherwise a find of the skipped version ends
  a check as up to date and leaves any other snapshot as it is; and a find of any other version puts it on
  offer.
\<close>

theorem skip_silences_later_finds:
  assumes "update_reachable env w" and "services w f = Some s" and "v \<noteq> []"
    and "w1 = act env (Skip f v) w" and "goes_on env f w1 w2"
    and "u = ev_version (found_event i)"
  shows "(services w1)(f := None) = (services w)(f := None) \<and> rows w1 = rows w \<and>
    map_option (\<lambda>x. machine_snapshot (state_machine x)) (services w1 f) = Some (machine_snapshot (state_machine s)) \<and>
    (\<exists>s2 s3. services w2 f = Some s2 \<and> services (act env (Sparkle_found i r) w2) f = Some s3 \<and>
       (let before = machine_snapshot (state_machine s2); after = machine_snapshot (state_machine s3)
        in if status before = kDownloading \<or> status before = kReadyToInstall then after = before
           else if u = v then after = (if status before = kChecking then before\<lparr>status := kUpToDate\<rparr> else before)
           else status after = kAvailable \<and> sn_version after = u))"
proof -
  note sk = Skip_effect [OF assms(2), of env v, folded assms(4)]
  have "skips v (services w1 f)" by (simp add: sk(1) skips_def)
  moreover have "update_reachable env w1" unfolding assms(4) by (rule update_reachable.step [OF assms(1)]) simp
  ultimately obtain s2 where s2: "services w2 f = Some s2" "skipped_version (state_machine s2) = v" and "update_reachable env w2"
    using goes_on_skips [OF assms(5)] by (auto simp: skips_def)
  then have ok: "sinks_ok w2" using update_reachable_inv by blast
  let ?d = "on_driver (\<lambda>d. d\<lparr>foundReply := Some r, pendingFound := Some (found_event i)\<rparr>) w2"
  have "services (act env (Sparkle_found i r) w2) f =
      Some (s2\<lparr>state_machine := machine_OnEvent (fl_of env) (found_event i) (state_machine s2)\<rparr>)"
    using Notify_service [of ?d f s2 env "found_event i"] ok s2(1) by (simp add: showUpdateFound_def)
  moreover have "ev_type (found_event i) = ev_kUpdateFound" by (simp add: found_event_def event_of_def)
  ultimately show ?thesis
    using sk assms(2,3,6) s2 by (auto simp: machine_OnEvent_def OnUpdateFound_def Let_def)
qed

text \<open>Version 2 is on offer and skipped; a check finds it again, then finds 3.\<close>

theorem skip_silences_later_finds_witness:
  "\<exists>s2 s3. services (act exact_env Sparkle_check_started (act exact_env (Skip 0 ''2'') checked_world)) 0 = Some s2 \<and>
     services (act exact_env (Sparkle_found (sample_item ''2'') 8)
       (act exact_env Sparkle_check_started (act exact_env (Skip 0 ''2'') checked_world))) 0 = Some s3 \<and>
     status (machine_snapshot (state_machine s2)) = kChecking \<and> status (machine_snapshot (state_machine s3)) = kUpToDate"
proof -
  let ?w1 = "act exact_env (Skip 0 ''2'') checked_world"
  let ?w2 = "act exact_env Sparkle_check_started ?w1"
  obtain s where s: "services checked_world 0 = Some s" by (simp add: checked_world_def act_defs)
  have run: "goes_on exact_env 0 ?w1 ?w2" by (rule goes_on.next_action [OF goes_on.here]) simp_all
  have in_check: "map_option (\<lambda>x. status (machine_snapshot (state_machine x))) (services ?w2 0) = Some kChecking"
    by (simp add: checked_world_def act_defs svc_Skip_def commandSkipVersion_def consumeFoundReplyWith_def)
  have "ev_version (found_event (sample_item ''2'')) = ''2''" by (simp add: found_event_def sample_item_def event_of_def)
  then show ?thesis
    using skip_silences_later_finds [OF checked_reachable s _ refl run refl, where i = "sample_item ''2''" and r = 8] in_check
    by (fastforce simp: Let_def)
qed

end
