(* ===== verification/Startup.thy ===== *)
theory Startup
  imports Updates Refresh Journal_Service Placement
begin

text \<open>
  What the process and each profile set up before anything runs: the feature list
  (\<open>roamux/common/roamux_features.cc\<close>) and the refresh run's parameters
  (\<open>ParamsFromFeature\<close> of \<open>initial_url_refresh_run.cc\<close>), the keyed-service factories (\<open>*_factory.cc\<close>), the one Sparkle owner
  of the process (\<open>SparkleOwner::GetOrCreate\<close>, \<open>roamux_sparkle_updater.mm\<close>) and the observer of the
  strip's placement (\<open>tab_strip_placement_observer.cc\<close>).

  Chromium's parts are arguments: the feature list's overrides, the value configured for a parameter, the
  profile a factory's selections choose, the outcome of each \<open>-startUpdater:\<close>, and which preferences change.
\<close>

subsection \<open>The features\<close>

datatype roamux_feature = kTabStripPosition | kInitialUrl | kEdgeImport | kBookmarkSubfolderGroups
  | kTabVisitNav | kBraveStyleProfiles | kRoamuxSchemeAlias | kRoamuxExternalOpenProfile
  | kTabStripToggleShortcut | kRefreshAllInitialUrls | kNewTabPosition | kTabGroupHeaderDoubleClickAll
  | kRoamuxProxyConfig

fun roamux_feature_name :: "roamux_feature \<Rightarrow> string" where
  "roamux_feature_name kTabStripPosition = ''RoamuxTabStripPosition''"
| "roamux_feature_name kInitialUrl = ''RoamuxInitialUrl''"
| "roamux_feature_name kEdgeImport = ''RoamuxEdgeImport''"
| "roamux_feature_name kBookmarkSubfolderGroups = ''RoamuxBookmarkSubfolderGroups''"
| "roamux_feature_name kTabVisitNav = ''RoamuxTabVisitNav''"
| "roamux_feature_name kBraveStyleProfiles = ''RoamuxBraveStyleProfiles''"
| "roamux_feature_name kRoamuxSchemeAlias = ''RoamuxSchemeAlias''"
| "roamux_feature_name kRoamuxExternalOpenProfile = ''RoamuxExternalOpenProfile''"
| "roamux_feature_name kTabStripToggleShortcut = ''RoamuxTabStripToggleShortcut''"
| "roamux_feature_name kRefreshAllInitialUrls = ''RoamuxRefreshAllInitialUrls''"
| "roamux_feature_name kNewTabPosition = ''RoamuxNewTabPosition''"
| "roamux_feature_name kTabGroupHeaderDoubleClickAll = ''RoamuxTabGroupHeaderDoubleClickAll''"
| "roamux_feature_name kRoamuxProxyConfig = ''RoamuxProxyConfig''"

fun enabled_by_default :: "roamux_feature \<Rightarrow> bool" where
  "enabled_by_default kRoamuxProxyConfig = False"
| "enabled_by_default _ = True"

definition all_features :: "roamux_feature list" where
  "all_features = [kTabStripPosition, kInitialUrl, kEdgeImport, kBookmarkSubfolderGroups, kTabVisitNav,
     kBraveStyleProfiles, kRoamuxSchemeAlias, kRoamuxExternalOpenProfile, kTabStripToggleShortcut,
     kRefreshAllInitialUrls, kNewTabPosition, kTabGroupHeaderDoubleClickAll, kRoamuxProxyConfig]"

text \<open>An override is by the feature's name, as a flag or the command line gives it.\<close>

definition IsEnabled :: "(string \<rightharpoonup> bool) \<Rightarrow> roamux_feature \<Rightarrow> bool" where
  "IsEnabled overrides f =
     (case overrides (roamux_feature_name f) of Some b \<Rightarrow> b | None \<Rightarrow> enabled_by_default f)"

record feature_param =
  param_feature :: roamux_feature
  param_name :: string
  param_default :: int

definition kRefreshAllInitialUrlsIntervalMs :: feature_param where
  "kRefreshAllInitialUrlsIntervalMs =
     \<lparr>param_feature = kRefreshAllInitialUrls, param_name = ''interval_ms'', param_default = 5000\<rparr>"

definition kRefreshAllInitialUrlsMinSpacingMs :: feature_param where
  "kRefreshAllInitialUrlsMinSpacingMs =
     \<lparr>param_feature = kRefreshAllInitialUrls, param_name = ''min_spacing_ms'', param_default = 750\<rparr>"

text \<open>\<open>configured\<close> is the integer the field trial or the command line holds for a parameter, if any.\<close>

definition FeatureParam_Get :: "(string \<Rightarrow> string \<Rightarrow> int option) \<Rightarrow> feature_param \<Rightarrow> int" where
  "FeatureParam_Get configured q =
     (case configured (roamux_feature_name (param_feature q)) (param_name q) of
        Some n \<Rightarrow> n | None \<Rightarrow> param_default q)"

definition ParamsFromFeature :: "(string \<Rightarrow> string \<Rightarrow> int option) \<Rightarrow> params" where
  "ParamsFromFeature configured =
     FromMilliseconds (FeatureParam_Get configured kRefreshAllInitialUrlsIntervalMs)
       (FeatureParam_Get configured kRefreshAllInitialUrlsMinSpacingMs)"

text \<open>No two features answer to one name, so an override reaches one feature only.\<close>

lemma feature_names_inj: "inj roamux_feature_name"
proof (rule injI)
  fix f g assume "roamux_feature_name f = roamux_feature_name g"
  then show "f = g" by (cases f; cases g; simp)
qed

lemma all_features_complete: "set all_features = UNIV \<and> distinct all_features"
proof -
  have "f \<in> set all_features" for f by (cases f) (simp_all add: all_features_def)
  then show ?thesis by (auto simp: all_features_def)
qed

lemma override_is_its_own:
  "IsEnabled (overrides(roamux_feature_name f \<mapsto> b)) g = (if g = f then b else IsEnabled overrides g)"
  by (auto simp: IsEnabled_def dest: injD [OF feature_names_inj])

lemma shipped_features: "filter (\<lambda>f. \<not> IsEnabled Map.empty f) all_features = [kRoamuxProxyConfig]"
  by (simp add: all_features_def IsEnabled_def)

text \<open>The parameters' defaults are the scheduler's own, so nothing configured and nonsense configured agree.\<close>

lemma params_unconfigured:
  "ParamsFromFeature (\<lambda>_ _. None) = FromMilliseconds kDefaultIntervalMs kDefaultMinSpacingMs"
  by (simp add: ParamsFromFeature_def FeatureParam_Get_def kRefreshAllInitialUrlsIntervalMs_def
      kRefreshAllInitialUrlsMinSpacingMs_def kDefaultIntervalMs_def kDefaultMinSpacingMs_def)

lemma params_nonsense:
  assumes "\<And>q n. configured (roamux_feature_name kRefreshAllInitialUrls) q = Some n \<Longrightarrow> n < 100 \<or> n > 600000"
  shows "ParamsFromFeature configured = ParamsFromFeature (\<lambda>_ _. None)"
proof -
  have "n < 100 \<or> n > 600000 \<or> n = param_default q"
    if "FeatureParam_Get configured q = n" "param_feature q = kRefreshAllInitialUrls" for q n
    using that assms [of "param_name q" n] by (auto simp: FeatureParam_Get_def split: option.splits)
  from this [of kRefreshAllInitialUrlsIntervalMs] this [of kRefreshAllInitialUrlsMinSpacingMs]
  show ?thesis
    by (auto simp: params_unconfigured ParamsFromFeature_def FromMilliseconds_def kMinIntervalMs_def
        kMaxIntervalMs_def kMinMinSpacingMs_def kMaxMinSpacingMs_def kDefaultIntervalMs_def kDefaultMinSpacingMs_def
        kRefreshAllInitialUrlsIntervalMs_def kRefreshAllInitialUrlsMinSpacingMs_def)
qed

lemma params_always_valid: "params_ok (ParamsFromFeature configured)"
  by (simp add: ParamsFromFeature_def params_ok_FromMilliseconds)

subsection \<open>The keyed-service factories\<close>

datatype ProfileSelection = select_none | select_own_instance | select_original_only

text \<open>The builder of selections: an unset kind of profile keeps Chromium's default.\<close>

record ProfileSelections =
  WithRegular :: "ProfileSelection option"
  WithGuest :: "ProfileSelection option"
  WithSystem :: "ProfileSelection option"

datatype roamux_factory = TabUidServiceFactory | SettledVisitJournalFactory | TabVisitObserverBridgeFactory
  | TabVisitTraversalCoordinatorFactory | RoamuxUpdateServiceFactory

definition own_instances :: ProfileSelections where
  "own_instances = \<lparr>WithRegular = Some select_own_instance, WithGuest = None, WithSystem = None\<rparr>"

fun selections :: "roamux_factory \<Rightarrow> ProfileSelections" where
  "selections TabUidServiceFactory = own_instances"
| "selections SettledVisitJournalFactory = own_instances"
| "selections TabVisitObserverBridgeFactory = own_instances"
| "selections TabVisitTraversalCoordinatorFactory = own_instances"
| "selections RoamuxUpdateServiceFactory =
     \<lparr>WithRegular = Some select_original_only, WithGuest = Some select_none, WithSystem = Some select_none\<rparr>"

fun DependsOn :: "roamux_factory \<Rightarrow> roamux_factory list" where
  "DependsOn TabVisitObserverBridgeFactory = [SettledVisitJournalFactory]"
| "DependsOn TabVisitTraversalCoordinatorFactory = [SettledVisitJournalFactory, TabUidServiceFactory]"
| "DependsOn _ = []"

fun ServiceIsCreatedWithBrowserContext :: "roamux_factory \<Rightarrow> bool" where
  "ServiceIsCreatedWithBrowserContext TabVisitObserverBridgeFactory = True"
| "ServiceIsCreatedWithBrowserContext TabVisitTraversalCoordinatorFactory = True"
| "ServiceIsCreatedWithBrowserContext _ = False"

datatype profile_kind = regular_profile | guest_profile | system_profile

record profile =
  kind_of_profile :: profile_kind
  IsOffTheRecord :: bool
  GetPath :: "string list"

type_synonym profiles = "nat \<Rightarrow> profile"

text \<open>
  \<open>to_use\<close> is the framework's choice: the profile whose service a lookup for a profile gets, if any.
  \<open>documented\<close> is what it promises for the selections a factory sets.
\<close>

definition selection_for :: "ProfileSelections \<Rightarrow> profile \<Rightarrow> ProfileSelection option" where
  "selection_for s p =
     (case kind_of_profile p of regular_profile \<Rightarrow> WithRegular s | guest_profile \<Rightarrow> WithGuest s
      | system_profile \<Rightarrow> WithSystem s)"

definition documented :: "profiles \<Rightarrow> (ProfileSelections \<Rightarrow> nat \<Rightarrow> nat option) \<Rightarrow> bool" where
  "documented ps to_use \<longleftrightarrow>
     (\<forall>s f. case selection_for s (ps f) of
        None \<Rightarrow> True
      | Some select_none \<Rightarrow> to_use s f = None
      | Some select_own_instance \<Rightarrow> to_use s f = Some f
      | Some select_original_only \<Rightarrow> to_use s f = (if IsOffTheRecord (ps f) then None else Some f))"

lemma documentedD:
  assumes "documented ps to_use" and "selection_for s (ps f) = Some x"
  shows "to_use s f = (case x of select_none \<Rightarrow> None | select_own_instance \<Rightarrow> Some f
           | select_original_only \<Rightarrow> if IsOffTheRecord (ps f) then None else Some f)"
proof -
  have "case selection_for s (ps f) of
        None \<Rightarrow> True
      | Some select_none \<Rightarrow> to_use s f = None
      | Some select_own_instance \<Rightarrow> to_use s f = Some f
      | Some select_original_only \<Rightarrow> to_use s f = (if IsOffTheRecord (ps f) then None else Some f)"
    using assms(1) unfolding documented_def by blast
  then show ?thesis by (simp add: assms(2) split: ProfileSelection.splits)
qed

lemma update_profile_is_original:
  assumes "documented ps to_use" and "to_use (selections RoamuxUpdateServiceFactory) f = Some g"
  shows "g = f \<and> kind_of_profile (ps f) = regular_profile \<and> \<not> IsOffTheRecord (ps f)"
  using documentedD [OF assms(1), of "selections RoamuxUpdateServiceFactory" f] assms(2)
  by (cases "kind_of_profile (ps f)") (auto simp: selection_for_def split: if_splits)

lemma regular_profile_has_its_own:
  assumes "documented ps to_use" and "kind_of_profile (ps f) = regular_profile"
    and "F \<noteq> RoamuxUpdateServiceFactory"
  shows "to_use (selections F) f = Some f"
proof -
  have "selections F = own_instances" using assms(3) by (cases F) simp_all
  then show ?thesis
    using documentedD [OF assms(1), of own_instances f]
    by (simp add: selection_for_def own_instances_def assms(2))
qed

text \<open>The order in which the framework can build them: each after what it depends on.\<close>

fun builds_in_order :: "roamux_factory set \<Rightarrow> roamux_factory list \<Rightarrow> bool" where
  "builds_in_order built [] \<longleftrightarrow> True"
| "builds_in_order built (F # Fs) \<longleftrightarrow> set (DependsOn F) \<subseteq> built \<and> builds_in_order (insert F built) Fs"

lemma dependencies_acyclic: "\<exists>Fs. set Fs = UNIV \<and> distinct Fs \<and> builds_in_order {} Fs"
proof (intro exI conjI)
  let ?Fs = "[TabUidServiceFactory, SettledVisitJournalFactory, TabVisitObserverBridgeFactory,
    TabVisitTraversalCoordinatorFactory, RoamuxUpdateServiceFactory]"
  have "F \<in> set ?Fs" for F by (cases F) simp_all
  then show "set ?Fs = UNIV" by blast
qed simp_all

text \<open>The journal service of a profile; a regular window and its off-the-record one never share a file.\<close>

definition journal_of :: "bool \<Rightarrow> profiles \<Rightarrow> nat \<Rightarrow> string list option \<times> 'k journal_service" where
  "journal_of enabled ps f = BuildServiceInstance enabled (IsOffTheRecord (ps f)) (GetPath (ps f))"

lemma journals_have_their_own_files:
  assumes "fst (journal_of enabled ps f) = Some x" and "fst (journal_of enabled ps g) = Some x"
  shows "GetPath (ps f) = GetPath (ps g) \<and> \<not> IsOffTheRecord (ps f) \<and> \<not> IsOffTheRecord (ps g)"
  using assms by (auto simp: journal_of_def BuildServiceInstance_def Let_def split: if_splits)

subsection \<open>One Sparkle owner for the process\<close>

text \<open>
  \<open>startUpdater n\<close> is the outcome of the \<open>n\<close>th \<open>-startUpdater:\<close> of the process. A profile's service is
  found by the profile's number, as in theory Updates.
\<close>

type_synonym start_outcome = "bool \<times> (string \<times> string \<times> string) option"

record process =
  owner :: "update_world option"
  updater_starts :: nat

definition new_process :: process where "new_process = \<lparr>owner = None, updater_starts = 0\<rparr>"

definition GetOrCreate :: "(nat \<Rightarrow> start_outcome) \<Rightarrow> process \<Rightarrow> process \<times> update_world" where
  "GetOrCreate startUpdater p =
     (case owner p of
        Some w \<Rightarrow> (p, w)
      | None \<Rightarrow>
          let (started, err) = startUpdater (updater_starts p);
              w = SparkleOwner True started err
          in (p\<lparr>owner := Some w, updater_starts := updater_starts p + 1\<rparr>, w))"

definition InitSparkleUpdater :: "(nat \<Rightarrow> start_outcome) \<Rightarrow> process \<Rightarrow> process" where
  "InitSparkleUpdater startUpdater p = fst (GetOrCreate startUpdater p)"

definition BuildUpdateService :: "update_env \<Rightarrow> (nat \<Rightarrow> start_outcome) \<Rightarrow> nat \<Rightarrow> process \<Rightarrow> process" where
  "BuildUpdateService env startUpdater f p =
     (let (p1, w) = GetOrCreate startUpdater p in p1\<lparr>owner := Some (create_service env f w)\<rparr>)"

definition live_service :: "nat \<Rightarrow> process \<Rightarrow> bool" where
  "live_service f p \<longleftrightarrow> (case owner p of None \<Rightarrow> False | Some w \<Rightarrow> services w f \<noteq> None)"

text \<open>The lookup: the framework returns the chosen profile's service and builds it when there is none.\<close>

definition GetForProfile ::
  "(ProfileSelections \<Rightarrow> nat \<Rightarrow> nat option) \<Rightarrow> update_env \<Rightarrow> (nat \<Rightarrow> start_outcome) \<Rightarrow> nat \<Rightarrow> process
     \<Rightarrow> process \<times> nat option" where
  "GetForProfile to_use env startUpdater f p =
     (case to_use (selections RoamuxUpdateServiceFactory) f of
        None \<Rightarrow> (p, None)
      | Some g \<Rightarrow> if live_service g p then (p, Some g) else (BuildUpdateService env startUpdater g p, Some g))"

text \<open>Everything else happens to the owner, services apart: those are built by the lookup alone.\<close>

fun builds_service :: "update_action \<Rightarrow> bool" where
  "builds_service (Service_created f) = True"
| "builds_service _ = False"

inductive process_reachable ::
  "(ProfileSelections \<Rightarrow> nat \<Rightarrow> nat option) \<Rightarrow> update_env \<Rightarrow> (nat \<Rightarrow> start_outcome) \<Rightarrow> process \<Rightarrow> bool"
  for to_use env startUpdater where
  begins: "process_reachable to_use env startUpdater new_process"
| launched: "process_reachable to_use env startUpdater p \<Longrightarrow>
    process_reachable to_use env startUpdater (InitSparkleUpdater startUpdater p)"
| looked_up: "process_reachable to_use env startUpdater p \<Longrightarrow>
    process_reachable to_use env startUpdater (fst (GetForProfile to_use env startUpdater f p))"
| happened: "process_reachable to_use env startUpdater p \<Longrightarrow> owner p = Some w \<Longrightarrow> act_ok a w \<Longrightarrow>
    \<not> builds_service a \<Longrightarrow> process_reachable to_use env startUpdater (p\<lparr>owner := Some (act env a w)\<rparr>)"

text \<open>A broadcast reaches each living service once.\<close>

lemma services_event [simp]:
  "services (OnUpdateEvent env e f w) =
     (services w)(f := map_option (\<lambda>s. s\<lparr>state_machine := machine_OnEvent (fl_of env) e (state_machine s)\<rparr>) (services w f))"
  by (auto simp: OnUpdateEvent_def Let_def fun_eq_iff split: option.split)

lemma services_broadcast:
  "distinct fs \<Longrightarrow> services (fold (OnUpdateEvent env e) fs w) f =
     (if f \<in> set fs
      then map_option (\<lambda>s. s\<lparr>state_machine := machine_OnEvent (fl_of env) e (state_machine s)\<rparr>) (services w f)
      else services w f)"
  by (induction fs arbitrary: w) auto

text \<open>Only a lookup adds a service.\<close>

lemma dom_outside [simp]:
  "services (call_sparkle c w) = services w" "services (on_driver g w) = services w"
  "dom (services (on_service h f w)) = dom (services w)" "dom (services (NotifySinks env e w)) = dom (services w)"
  "services (create_row r f w) = services w" "services (destroy_service f w) = (services w)(f := None)"
  by (simp_all add: owner_fields create_row_def destroy_service_def)

lemma dom_rows [simp]:
  "dom (services (destroy_row r w)) = dom (services w)" "dom (services (row_CheckForUpdate env r w)) = dom (services w)"
proof -
  show "dom (services (destroy_row r w)) = dom (services w)" by (simp add: destroy_row_def) (simp add: dom_def)
  show "dom (services (row_CheckForUpdate env r w)) = dom (services w)"
    by (simp add: row_CheckForUpdate_def svc_CheckForUpdates_def owner_CheckForUpdates_def Let_def owner_fields
        split: option.split)
qed

lemma dom_consume [simp]: "services (consumeFoundReplyWith c w) = services w"
  by (simp add: consumeFoundReplyWith_def split: option.split)

lemma services_only_built:
  assumes "\<not> builds_service a"
  shows "dom (services (act env a w)) \<subseteq> dom (services w)"
  using assms
  by (cases a) (simp_all add: showUpdatePermissionRequest_def showUserInitiatedUpdateCheck_def showUpdateFound_def
      showUpdateNotFound_def showUpdaterError_def showDownloadInitiated_def
      showDownloadDidReceiveExpectedContentLength_def showDownloadDidReceiveDataOfLength_def
      showReadyToInstallAndRelaunch_def showUpdateInstalledAndRelaunched_def dismissUpdateInstallation_def
      showUpdateInFocus_def svc_Download_def commandDownload_def svc_Skip_def commandSkipVersion_def
      svc_InstallAndRelaunch_def commandInstallAndRelaunch_def Let_def Diff_subset split: option.split)

subsection \<open>What the process keeps\<close>

definition process_ok :: "profiles \<Rightarrow> update_env \<Rightarrow> process \<Rightarrow> bool" where
  "process_ok ps env p \<longleftrightarrow>
     (case owner p of
        None \<Rightarrow> updater_starts p = 0
      | Some w \<Rightarrow> updater_starts p = 1 \<and> update_reachable env w \<and>
          dom (services w) \<subseteq> {f. kind_of_profile (ps f) = regular_profile \<and> \<not> IsOffTheRecord (ps f)})"

lemma process_ok_GetOrCreate:
  assumes "process_ok ps env p"
  shows "process_ok ps env (fst (GetOrCreate su p))"
    and "owner (fst (GetOrCreate su p)) = Some (snd (GetOrCreate su p))"
  using assms update_reachable.start [of env True "fst (su 0)" "snd (su 0)"]
  by (auto simp: process_ok_def GetOrCreate_def Let_def SparkleOwner_def HandleStartResult_def
      split: option.splits prod.splits)

lemma GetOrCreate_live: "live_service g (fst (GetOrCreate su p)) = live_service g p"
  by (auto simp: live_service_def GetOrCreate_def Let_def SparkleOwner_def HandleStartResult_def
      split: option.splits prod.splits)

lemma process_ok_built:
  assumes "process_ok ps env p" and "\<not> live_service g p"
    and "kind_of_profile (ps g) = regular_profile" and "\<not> IsOffTheRecord (ps g)"
  shows "process_ok ps env (BuildUpdateService env su g p)"
proof -
  obtain p1 w where G: "GetOrCreate su p = (p1, w)" by (cases "GetOrCreate su p") 
  from process_ok_GetOrCreate [OF assms(1), of su] G
  have ok: "process_ok ps env p1" and w: "owner p1 = Some w" by simp_all
  from GetOrCreate_live [of g su p] assms(2) G w have none: "services w g = None"
    by (simp add: live_service_def)
  with ok w have "update_reachable env (create_service env g w)"
    using update_reachable.step [of env w "Service_created g"] by (simp add: process_ok_def)
  moreover have "dom (services (create_service env g w)) = insert g (dom (services w))"
    by (auto simp: create_service_def owner_AddEventSink)
  ultimately show ?thesis using ok w assms(3,4)
    by (simp add: BuildUpdateService_def G process_ok_def)
qed

lemma process_ok_reachable:
  assumes "documented ps to_use" and "process_reachable to_use env su p"
  shows "process_ok ps env p"
  using assms(2)
proof induction
  case begins
  show ?case by (simp add: new_process_def process_ok_def)
next
  case (launched p)
  then show ?case by (simp add: InitSparkleUpdater_def process_ok_GetOrCreate)
next
  case (looked_up p f)
  show ?case
  proof (cases "to_use (selections RoamuxUpdateServiceFactory) f")
    case None
    with looked_up.IH show ?thesis by (simp add: GetForProfile_def)
  next
    case (Some g)
    from update_profile_is_original [OF assms(1) Some] looked_up.IH Some show ?thesis
      by (simp add: GetForProfile_def process_ok_built)
  qed
next
  case (happened p w a)
  then show ?case
    using services_only_built [of a env w] update_reachable.step [of env w a]
    by (auto simp: process_ok_def)
qed

text \<open>
  C20: However often the application starts Sparkle and whichever profiles ask for their update service,
  in any order and among any calls of Sparkle and the pages, the process starts one updater at most, and
  one as soon as anything asks. Its owner is a production owner with its whole history, so what theory
  Updates proves holds of it. A service belongs to a regular profile that is not off the record, and
  any event Sparkle reports moves each living service's machine by exactly that one event. The framework keeps to the
  selections the factory sets.
\<close>

theorem one_updater_reaches_every_card:
  assumes "documented ps to_use" and "process_reachable to_use env su p"
  shows "case owner p of
           None \<Rightarrow> updater_starts p = 0
         | Some w \<Rightarrow> updater_starts p = 1 \<and> update_reachable env w \<and>
             (\<forall>f s. services w f = Some s \<longrightarrow>
                kind_of_profile (ps f) = regular_profile \<and> \<not> IsOffTheRecord (ps f) \<and>
                (\<forall>e. services (NotifySinks env e w) f =
                   Some (s\<lparr>state_machine := machine_OnEvent (fl_of env) e (state_machine s)\<rparr>)))"
proof -
  have "services (NotifySinks env e w) f = Some (s\<lparr>state_machine := machine_OnEvent (fl_of env) e (state_machine s)\<rparr>)"
    if "sinks_ok w" and "services w f = Some s" for w f s e
    using that by (auto simp: NotifySinks_def services_broadcast sinks_ok_def)
  with process_ok_reachable [OF assms] update_reachable_inv show ?thesis
    by (fastforce simp: process_ok_def split: option.splits)
qed

definition two_profiles :: profiles where
  "two_profiles = (\<lambda>f. \<lparr>kind_of_profile = regular_profile, IsOffTheRecord = (f = 1), GetPath = [''Default'']\<rparr>)"

definition plain_choice :: "profiles \<Rightarrow> ProfileSelections \<Rightarrow> nat \<Rightarrow> nat option" where
  "plain_choice ps s f =
     (case selection_for s (ps f) of
        None \<Rightarrow> None
      | Some select_none \<Rightarrow> None
      | Some select_own_instance \<Rightarrow> Some f
      | Some select_original_only \<Rightarrow> if IsOffTheRecord (ps f) then None else Some f)"

lemma plain_choice_documented: "documented ps (plain_choice ps)"
  by (auto simp: documented_def plain_choice_def split: option.split ProfileSelection.split)

text \<open>The application starts Sparkle, the profile asks twice for its service, its off-the-record one once.\<close>

definition started_process :: process where
  "started_process =
     (let look = (\<lambda>f p. fst (GetForProfile (plain_choice two_profiles) exact_env (\<lambda>n. (n = 0, None)) f p))
      in look 1 (look 0 (look 0 (InitSparkleUpdater (\<lambda>n. (n = 0, None)) new_process))))"

theorem one_updater_reaches_every_card_witness:
  "updater_starts started_process = 1 \<and>
   (\<exists>w s. owner started_process = Some w \<and> services w 0 = Some s \<and> services w 1 = None \<and> sinks w = [0] \<and>
      services (NotifySinks exact_env (event_of ev_kCheckStarted) w) 0 =
        Some (s\<lparr>state_machine := machine_OnEvent (fl_of exact_env) (event_of ev_kCheckStarted) (state_machine s)\<rparr>))"
proof -
  have reach: "process_reachable (plain_choice two_profiles) exact_env (\<lambda>n. (n = 0, None)) started_process"
    unfolding started_process_def Let_def
    by (intro process_reachable.looked_up process_reachable.launched process_reachable.begins)
  have "\<exists>w s. owner started_process = Some w \<and> services w 0 = Some s \<and> services w 1 = None \<and> sinks w = [0]"
    by (simp add: started_process_def Let_def GetForProfile_def plain_choice_def selection_for_def two_profiles_def
        live_service_def InitSparkleUpdater_def BuildUpdateService_def GetOrCreate_def new_process_def act_defs)
  with one_updater_reaches_every_card [OF plain_choice_documented reach] show ?thesis
    by (auto split: option.splits)
qed

subsection \<open>The observer of the strip's placement\<close>

text \<open>
  A registrar holds the watched paths with their callbacks, which are numbered. \<open>reports_changes\<close> is what
  the preference service promises: a path whose effective value changed is among the changed ones.
\<close>

type_synonym pref_registrar = "(string \<times> nat) list"

definition TabStripPlacementObserver :: "nat \<Rightarrow> pref_registrar" where
  "TabStripPlacementObserver on_placement_changed = [(Placement.kTabStripPosition, on_placement_changed)]"

definition callbacks_run :: "string set \<Rightarrow> pref_registrar \<Rightarrow> nat list" where
  "callbacks_run changed registrar = map snd (filter (\<lambda>(path, _). path \<in> changed) registrar)"

definition reports_changes :: "pref_service \<Rightarrow> pref_service \<Rightarrow> string set \<Rightarrow> bool" where
  "reports_changes p p' changed \<longleftrightarrow>
     (\<forall>path. map_option pref_value (int_prefs p path) \<noteq> map_option pref_value (int_prefs p' path) \<longrightarrow> path \<in> changed)"

text \<open>Whatever moves the strip, a menu or a policy, the window relays itself out, once.\<close>

lemma placement_by_value:
  "GetTabStripPlacement feature (Some p) =
     (case (feature, map_option pref_value (int_prefs p Placement.kTabStripPosition)) of
        (True, Some stored) \<Rightarrow>
          if stored < placement_int kTop \<or> stored > placement_int kRight then kTop else placement_of_int stored
      | _ \<Rightarrow> kTop)"
  by (simp add: GetTabStripPlacement_def Let_def split: option.split)

lemma placement_change_is_seen:
  assumes "reports_changes p p' changed"
    and "GetTabStripPlacement feature (Some p) \<noteq> GetTabStripPlacement feature (Some p')"
  shows "callbacks_run changed (TabStripPlacementObserver cb) = [cb]"
proof -
  have "map_option pref_value (int_prefs p Placement.kTabStripPosition) \<noteq>
        map_option pref_value (int_prefs p' Placement.kTabStripPosition)"
    using assms(2) unfolding placement_by_value by metis
  with assms(1) show ?thesis
    by (simp add: reports_changes_def callbacks_run_def TabStripPlacementObserver_def)
qed

end
