(* ===== verification/Spec2Isabelle.thy ===== *)
theory Spec2Isabelle
  imports Traversal Journal_Service Tab_Uid Refresh_Run Initial_Url_Menu Group_Click Strip_Windows
    Session_Restore Crash_Safety Url_Restart Edge_Driver Proxy Bookmark_Groups Shell Startup
begin

text \<open>
  A verification development for Roamux, an overlay on the Chromium browser. The sources are the C++
  and Objective-C++ files under \<open>src/roamux/\<close>; everything the overlay calls in Chromium (SQLite, the
  URL parser, the session service, the tab strip, views) is outside the repository and appears here
  as an argument, an outcome or an event.

  The parts and how they interact.

  \<^bold>\<open>The tab-visit journal.\<close> A visit is a tab that stayed active long enough to count. The
  coordinator of a profile (\<open>tab_visit_traversal_coordinator.cc\<close>) hears of activations and
  navigations through the observer bridge, records each settled visit in the journal service
  (\<open>settled_visit_journal_service.cc\<close>) and in its own log, and walks the log back and forth for the
  Back and Forward commands; the service posts every call to the store sequence, where the store
  (\<open>visits_store.cc\<close>) runs it against a SQLite file, and posts the replies back. Clearing the browsing
  data goes through the service's hook to the coordinator, the service and the store.

  \<^item> Visits_Store: the store with its schema, its migration, its statements as list operations, and
    the outcome of each statement as an argument, so that a refused statement is a branch.
  \<^item> Journal_Service: the service, with the store sequence as a queue of posted tasks and the
    replies as an outbox; the store location.
  \<^item> Traversal: the frozen most-recently-used walk (\<open>tab_traversal_controller.cc\<close>).
  \<^item> Coordinator and Coordinator_Reach: the coordinator, the bridge, the gesture watcher, the
    commands, reopening a closed tab and the browsing-data clear, as one world of a profile with its
    windows; then its reachable states.
  \<^item> Journal_Restart: the coordinator, the service and the store of one profile together, over a session that ends and
    the process that opens the same file next.
  \<^item> Crash_Safety: the same when the process is killed between any two events instead.
  \<^item> Session_Restore: the next process with the tabs the session restores, whose uids (theory Tab_Uid) join them to the
    journal.

  \<^bold>\<open>Tab identity and the initial URL.\<close> Each tab has a durable uid (\<open>tab_uid_service.cc\<close>,
  \<open>tab_uid_tab_helper.cc\<close>; theory Tab_Uid) which survives discarding, restoring and duplicating, and an
  initial URL (\<open>tab_initial_url_helper.cc\<close> with the edit dialog and the reload command; theory
  Initial_Url) which is captured by the first navigation, may be locked by the user, and travels with
  the session. "Refresh all" loads every tab's initial URL, one after another: Refresh has the settle
  gate and the paced scheduler, Refresh_Run the run over the strip and the map of runs per window.
  Initial_Url_Menu is the tab menu over all of these, and Url_Restart a tab's initial URL over any number of
  restarts, as what of it the session file holds when each process ends.

  \<^bold>\<open>Windows.\<close> Shortcuts has the rebindable chords, their dispatch from key events and the settings
  page's messages; Placement the tab strip's side, its preferences and their migration, and the place
  of a new tab; Pin_Controller the pin and peek toggle of the vertical strip with its views glue, and Strip_Windows
  the registries through which all windows' strips are called;
  Group_Click the double click on a group header that folds every group of the window.

  \<^bold>\<open>Updates.\<close> Theory Updates: Sparkle calls the user driver (\<open>roamux_update_user_driver.mm\<close>), whose events the
  process-wide owner broadcasts to one service per profile (\<open>roamux_update_service.mm\<close>); each service runs
  the machine (\<open>update_state_machine.cc\<close>) and pushes its snapshot to the rows of the About pages
  (\<open>roamux_version_updater.cc\<close>). Sparkle's reply blocks are numbered, and the log of what Sparkle is told has each run.

  \<^bold>\<open>The Edge import.\<close> It has two halves, each of which reads a profile of Edge. Edge_Reader has the utility half
  (\<open>edge_profile_reader.cc\<close>, \<open>roamux_edge_importer.cc\<close>): the choice of the profile, the readers of history,
  bookmarks, search engines and autofill, and the calls of the bridge. Edge_Import has the browser half's plan and
  control (\<open>roamux_edge_import_driver.cc\<close>, \<open>roamux_edge_import_coordinator.cc\<close>, adapter, preflight and report);
  the coordinator waits for the stages, which are Edge_Stages (localStorage and secrets:
  \<open>edge_local_storage_reader.cc\<close>, \<open>roamux_origin_storage_import_stage.cc\<close>, \<open>edge_secret_decryptor.mm\<close>,
  \<open>roamux_secret_import_stage.mm\<close>) and Edge_Indexed_Db (\<open>edge_indexed_db_reader.cc\<close>,
  \<open>roamux_indexed_db_import_stage.cc\<close>). Edge_Whole runs the coordinator over these stages, from a source profile
  into a target, with nothing left free but what the platform answers. Edge_Driver has the driver's two hooks on one selection of items,
  the mask for the utility process and the start of the browser half, which nothing in the repository calls yet. Edge_Files is what they ask of the file system.

  \<^bold>\<open>Settings and menus.\<close> Proxy has the builder of a proxy configuration (\<open>proxy_config_builder.cc\<close>) and the settings page's
  handler (\<open>roamux_proxy_handler.cc\<close>) with the preferences it watches while its page may be called; Bookmark_Groups the bookmark subfolders opened as tab groups
  (\<open>subfolder_tab_groups.cc\<close>); Surfaces the profile of an external open, name-only profiles, the inert sign-in
  and the \<open>roamux\<close> scheme (\<open>roamux/browser/profiles\<close>, \<open>signin\<close> and \<open>scheme\<close>); Shell the check of an appcast's signature (\<open>appcast_verifier.cc\<close>),
  the captions of keys (\<open>chord_display.mm\<close>) and the dialog of the inert sign-in (\<open>signin_inert_dialog.cc\<close>).

  \<^bold>\<open>Start-up.\<close> Startup has what is set up before the rest runs: the features with their defaults and parameters
  (\<open>roamux_features.cc\<close>), the keyed-service factories with their profile selections and dependencies, the one
  Sparkle owner a process makes (\<open>roamux_sparkle_updater.mm\<close>), and the observer of the strip's placement.

  How the model corresponds to the code. A class is a record of its fields, and each method a function
  with the method's name on that record, with the early returns as branches in the code's order. A call
  into another object of the overlay is that object's function. What the code posts (a task, a timer, a
  reply) is data in the record, and the environment chooses when it runs: the step relations
  \<open>svc_step\<close>, \<open>uid_step\<close>, \<open>run_step\<close> and \<open>runs_step\<close>, and the event types \<open>url_event\<close>, \<open>tv_event\<close>,
  \<open>strip_event\<close>, \<open>app_event\<close>, \<open>process_reachable\<close>, \<open>update_action\<close> and \<open>proxy_event\<close> with their step functions, list everything that can happen, in every order,
  and the reachable states are what they generate. The Edge coordinator's field \<open>awaiting\<close> is the stage whose answer comes next.
  Chromium's parsers, ciphers and databases are functions in environment records (\<open>reader_env\<close>, \<open>secret_env\<close>, \<open>proxy_env\<close>,
  \<open>update_env\<close>, \<open>open_env\<close>), of which a theorem assumes only what a named law states (\<open>dictionary_laws\<close>, \<open>server_laws\<close>, \<open>notification_laws\<close>, \<open>strip_laws\<close>,
  \<open>bits_ok\<close>, \<open>no_secret_bits\<close>, \<open>documented\<close> for the framework's choice of a profile, \<open>schemes_parse_alike\<close>), each with a witness that satisfies it. \<open>CHECK\<close>s that fail and vectors indexed out of range are the value None.

  The lemmas. Each theory has the invariant of its state, one preservation lemma per operation, and the
  functional description of the operations; the numbered blocks \<open>C1\<close>, \<open>C2\<close> and so on are the properties,
  each followed by its theorem and, where the theorem has hypotheses, by a witness that applies it to
  a concrete input. The interfaces are locales: \<open>frozen_walk\<close> (a walk over a fixed order by two partial
  steps that undo each other; the controller is an instance), \<open>bounded_log\<close> (a log whose every append
  keeps the newest entries; the store is an instance), the four of Histories (a step that keeps a predicate, moves along
  a preorder, adds to a total or to a log; the proxy handler and the updater are instances), \<open>pacing\<close> and \<open>ticking_pacing\<close> (what the
  scheduler asks of its delegate, and the delegate whose clock only moves on; the refresh run is an
  instance).

  Bounds. Times are unbounded integers of microseconds, and the bounds of \<open>int64_t\<close> are written out
  where the code compares with them. The paced run needs no fuel: with \<open>n\<close> tabs, \<open>2 n + 1\<close> firings of
  its timers end it, which \<open>run_ends_by_timers\<close> proves. The lock releases of the pin controller call
  each other; their termination is the number of locks still held.

  The localStorage stage counts its writes in a natural number, the update driver its bytes in a 64 bit word, item
  masks are 16 bit words; the progress of a download is a rational of which rounding to a double is an argument. The Edge coordinator
  needs at most five answers, which \<open>every_carrier_is_reported\<close> proves, and \<open>import_edge\<close> makes as many steps; \<open>CollectBookmarks\<close> ends because
  children are smaller.

  Not modelled: widgets, dialogs' layout and icons, which only call Chromium; the framework that keeps keyed services
  and their order of shutdown; an Edge coordinator
  destroyed half way; and the patches, resources, build files and scripts around the code.
\<close>

end
